(* ===== verification/Prelude.thy ===== *)
theory Prelude
  imports Main "HOL-Library.Char_ord"
begin

text \<open>
  What every component of the development shares: Go's fixed-width integers, Go maps,
  the few functions of the packages strings, strconv and fmt that the sources call, and the
  collections of rewrite rules the component proofs use.

  Go maps are association lists with distinct keys (\<open>gomap\<close>): \<open>map_of m k\<close> is the
  lookup, \<open>gput\<close> the assignment \<open>m[k] = v\<close>, \<open>gdel\<close> the built-in delete. The order of the list carries
  no meaning: where the outcome of a \<open>range\<close> loop over a map depends on the order in
  which Go visits the keys, the definition takes that order as an argument, a list that
  \<open>enumerates\<close> the keys.
\<close>

named_theorems gomap_simps "lookup, keys and size of updated Go maps"
named_theorems i32_simps "fixed-width integers inside their range"

subsection \<open>Fixed-width integers\<close>

text \<open>Two's complement wrap-around of Go's int32 and (on 64-bit targets) int.\<close>

definition i32 :: "int \<Rightarrow> int" where
  "i32 x = (x + 2 ^ 31) mod 2 ^ 32 - 2 ^ 31"

definition i64 :: "int \<Rightarrow> int" where
  "i64 x = (x + 2 ^ 63) mod 2 ^ 64 - 2 ^ 63"

text \<open>Go's remainder takes the sign of the dividend (division truncates towards zero).\<close>

definition go_rem :: "int \<Rightarrow> int \<Rightarrow> int" where
  "go_rem a b = sgn a * (\<bar>a\<bar> mod \<bar>b\<bar>)"

lemma i32_id [i32_simps]: "- (2 ^ 31) \<le> x \<Longrightarrow> x < 2 ^ 31 \<Longrightarrow> i32 x = x"
  by (simp add: i32_def)

lemma i32_range: "- (2 ^ 31) \<le> i32 x \<and> i32 x < 2 ^ 31"
proof -
  have "0 \<le> (x + 2 ^ 31) mod 2 ^ 32" "(x + 2 ^ 31) mod 2 ^ 32 < 2 ^ 32"
    by simp_all
  then show ?thesis by (simp add: i32_def)
qed

lemma i64_id [i32_simps]: "- (2 ^ 63) \<le> x \<Longrightarrow> x < 2 ^ 63 \<Longrightarrow> i64 x = x"
  by (simp add: i64_def)

lemma i64_add: "i64 (i64 a + b) = i64 (a + b)"
  by (simp add: i64_def mod_simps algebra_simps)

lemma go_rem_nonneg: "0 \<le> a \<Longrightarrow> 0 < b \<Longrightarrow> go_rem a b = a mod b"
  by (cases "a = 0") (simp_all add: go_rem_def sgn_if)

lemma go_rem_less:
  assumes "0 < b"
  shows "go_rem a b < b"
proof -
  have "0 \<le> \<bar>a\<bar> mod b" "\<bar>a\<bar> mod b < b"
    using assms by simp_all
  with assms show ?thesis by (auto simp: go_rem_def sgn_if)
qed

subsection \<open>Go maps\<close>

type_synonym ('k, 'v) gomap = "('k \<times> 'v) list"

fun gput :: "'k \<Rightarrow> 'v \<Rightarrow> ('k, 'v) gomap \<Rightarrow> ('k, 'v) gomap" where
  "gput k v [] = [(k, v)]"
| "gput k v ((k', v') # m) = (if k' = k then (k, v) # m else (k', v') # gput k v m)"

fun gdel :: "'k \<Rightarrow> ('k, 'v) gomap \<Rightarrow> ('k, 'v) gomap" where
  "gdel k [] = []"
| "gdel k ((k', v') # m) = (if k' = k then gdel k m else (k', v') # gdel k m)"

definition gkeys :: "('k, 'v) gomap \<Rightarrow> 'k list" where
  "gkeys m = map fst m"

definition gmap_ok :: "('k, 'v) gomap \<Rightarrow> bool" where
  "gmap_ok m \<longleftrightarrow> distinct (map fst m)"

text \<open>The zero value on a missing key, as Go's \<open>m[k]\<close> yields it.\<close>

definition gget :: "'v \<Rightarrow> ('k, 'v) gomap \<Rightarrow> 'k \<Rightarrow> 'v" where
  "gget z m k = (case map_of m k of None \<Rightarrow> z | Some v \<Rightarrow> v)"

text \<open>\<open>ks\<close> is an order in which Go may visit the keys of \<open>m\<close>.\<close>

definition enumerates :: "('k, 'v) gomap \<Rightarrow> 'k list \<Rightarrow> bool" where
  "enumerates m ks \<longleftrightarrow> distinct ks \<and> set ks = fst ` set m"

lemma map_of_gput [gomap_simps, simp]: "map_of (gput k v m) = (map_of m)(k \<mapsto> v)"
  by (induction m) auto

lemma map_of_gdel [gomap_simps, simp]: "map_of (gdel k m) = (map_of m)(k := None)"
  by (induction m) auto

lemma keys_gput [gomap_simps]: "fst ` set (gput k v m) = insert k (fst ` set m)"
  by (simp flip: dom_map_of_conv_image_fst)

lemma keys_gdel [gomap_simps]: "fst ` set (gdel k m) = fst ` set m - {k}"
  by (simp flip: dom_map_of_conv_image_fst)

lemma gmap_ok_Nil [simp]: "gmap_ok []"
  by (simp add: gmap_ok_def)

lemma gmap_ok_gput [simp]: "gmap_ok m \<Longrightarrow> gmap_ok (gput k v m)"
  by (induction m) (auto simp: gmap_ok_def keys_gput)

lemma gmap_ok_gdel [simp]: "gmap_ok m \<Longrightarrow> gmap_ok (gdel k m)"
  by (induction m) (auto simp: gmap_ok_def keys_gdel)

lemma gput_absent: "map_of m k = None \<Longrightarrow> gput k v m = m @ [(k, v)]"
  by (induction m) (auto split: if_splits)

lemma gput_keys_present: "map_of m k \<noteq> None \<Longrightarrow> map fst (gput k v m) = map fst m"
  by (induction m) (auto split: if_splits)

lemma gget_gput [gomap_simps]: "gget z (gput k v m) k' = (if k' = k then v else gget z m k')"
  by (simp add: gget_def)

lemma enumerates_self: "gmap_ok m \<Longrightarrow> enumerates m (map fst m)"
  by (simp add: enumerates_def gmap_ok_def)

text \<open>
  A total over the entries of a map changes by the difference at the key that is assigned.
\<close>

lemma sum_list_gput:
  fixes f :: "'k \<Rightarrow> 'v \<Rightarrow> int"
  assumes "gmap_ok m" and "map_of m k = Some u"
  shows "(\<Sum>(k', v') \<leftarrow> gput k v m. f k' v') = (\<Sum>(k', v') \<leftarrow> m. f k' v') - f k u + f k v"
  using assms
proof (induction m)
  case Nil
  then show ?case by simp
next
  case (Cons p m)
  then show ?case by (cases p) (auto simp: gmap_ok_def split: if_splits)
qed

lemma sum_list_gput_nat:
  fixes f :: "'k \<Rightarrow> 'v \<Rightarrow> nat"
  assumes "gmap_ok m" and "map_of m k = Some u"
  shows "(\<Sum>(k', v') \<leftarrow> gput k v m. f k' v') + f k u = (\<Sum>(k', v') \<leftarrow> m. f k' v') + f k v"
  using assms
proof (induction m)
  case Nil
  then show ?case by simp
next
  case (Cons p m)
  then show ?case by (cases p) (auto simp: gmap_ok_def split: if_splits)
qed

subsection \<open>Numbers as text\<close>

definition digit :: "int \<Rightarrow> char" where
  "digit d = char_of (48 + d)"

function digits :: "int \<Rightarrow> string" where
  "digits n = (if n < 10 then [digit n] else digits (n div 10) @ [digit (n mod 10)])"
  by pat_completeness auto

termination digits
  by (relation "measure nat") auto

declare digits.simps [simp del]

text \<open>The verb \<open>%d\<close> of package fmt.\<close>

definition itoa :: "int \<Rightarrow> string" where
  "itoa x = (if x < 0 then CHR ''-'' # digits (- x) else digits x)"

definition nl :: string where
  "nl = [CHR 0x0A]"

end
