(* ===== verification/Byz_Server.thy ===== *)
theory Byz_Server
  imports Prelude
begin

text \<open>
  The Byzantine agreement server (P4-ByzantineConsensus/server/main.go): the generals and their
  message logs, and the four RPC handlers RegisterGeneral, SendOrder, ExchangeMessage and
  GetConsensus with the helper makeDecision. Every test \<open>rand.Float32() < 0.5\<close> is a boolean
  argument (a coin), and every \<open>range\<close> loop over the generals whose result can depend on the
  order takes that order as an argument. A handler runs as one atomic step here;
  \<open>Byz_Concurrent\<close> has the same handlers in smaller steps.
\<close>

subsection \<open>Messages of the protocol\<close>

text \<open>The enums of bft.proto are open: a value the proto file does not name keeps its number.\<close>

datatype Decision = ATTACK | RETREAT | OtherDecision int

datatype Role = COMMANDER | LIEUTENANT | OtherRole int

fun Decision_String :: "Decision \<Rightarrow> string" where
  "Decision_String ATTACK = ''ATTACK''"
| "Decision_String RETREAT = ''RETREAT''"
| "Decision_String (OtherDecision n) = itoa n"

record RegisterRequest =
  reg_Id :: int
  reg_Role :: Role
  reg_IsTraitor :: bool

record RegisterResponse =
  regr_Success :: bool
  regr_Message :: string
  regr_TotalGenerals :: int

record OrderRequest =
  ord_SenderId :: int
  ord_ReceiverId :: int
  ord_Order :: Decision

record MessageRequest =
  msg_Round :: int
  msg_SenderId :: int
  msg_ReceiverId :: int
  msg_Value :: Decision
  msg_Path :: "int list"

text \<open>OrderResponse and MessageResponse have the same fields.\<close>

record Received =
  rcv_Received :: bool
  rcv_Message :: string

record ConsensusResponse =
  con_Decision :: Decision
  con_ConsensusReached :: bool
  con_Details :: string
  con_VoteCounts :: "(string, int) gomap"

subsection \<open>The state of the server\<close>

text \<open>\<open>Messages\<close>: round, then sender, then the values in the order they arrived.\<close>

type_synonym msglog = "(int, (int, Decision list) gomap) gomap"

record General =
  g_ID :: int
  g_Role :: Role
  g_IsTraitor :: bool
  g_Messages :: msglog
  g_FinalDecision :: Decision

record ByzantineServer =
  Generals :: "(int, General) gomap"
  NumGenerals :: int
  NumTraitors :: int
  MaxRounds :: int
  CurrentRound :: int
  roundCompleted :: "(int, bool) gomap"

definition NewByzantineServer :: ByzantineServer where
  "NewByzantineServer = \<lparr>Generals = [], NumGenerals = 0, NumTraitors = 0, MaxRounds = 0,
     CurrentRound = 0, roundCompleted = []\<rparr>"

subsection \<open>RegisterGeneral\<close>

definition RegisterGeneral ::
  "ByzantineServer \<Rightarrow> RegisterRequest \<Rightarrow> ByzantineServer \<times> RegisterResponse" where
  "RegisterGeneral s req =
     (case map_of (Generals s) (reg_Id req) of
        Some _ \<Rightarrow>
          (s, \<lparr>regr_Success = False,
               regr_Message = ''General with ID '' @ itoa (reg_Id req) @ '' already exists'',
               regr_TotalGenerals = 0\<rparr>)
      | None \<Rightarrow>
          let g = \<lparr>g_ID = reg_Id req, g_Role = reg_Role req, g_IsTraitor = reg_IsTraitor req,
                   g_Messages = [], g_FinalDecision = ATTACK\<rparr>;
              s1 = s\<lparr>Generals := gput (reg_Id req) g (Generals s)\<rparr>;
              s2 = (if reg_IsTraitor req then s1\<lparr>NumTraitors := i32 (NumTraitors s1 + 1)\<rparr> else s1);
              s3 = s2\<lparr>NumGenerals := i32 (NumGenerals s2 + 1)\<rparr>;
              s4 = s3\<lparr>MaxRounds := i32 (NumTraitors s3 + 1)\<rparr>
          in (s4, \<lparr>regr_Success = True,
                   regr_Message = ''General '' @ itoa (reg_Id req) @ '' registered successfully'',
                   regr_TotalGenerals = NumGenerals s4\<rparr>))"

subsection \<open>Storing a value in a general's log\<close>

text \<open>
  The value a traitor passes on when the coin is true: the opposite one, where everything that
  is not ATTACK counts as RETREAT.
\<close>

definition flip_value :: "Decision \<Rightarrow> Decision" where
  "flip_value v = (if v = ATTACK then RETREAT else ATTACK)"

definition relay_value :: "bool \<Rightarrow> bool \<Rightarrow> Decision \<Rightarrow> Decision" where
  "relay_value traitor coin v = (if traitor \<and> coin then flip_value v else v)"

text \<open>The two statements that create the round's map where it is nil and append the value.\<close>

definition store_message :: "int \<Rightarrow> int \<Rightarrow> Decision \<Rightarrow> General \<Rightarrow> General" where
  "store_message r sender v g =
     (let m = gget [] (g_Messages g) r
      in g\<lparr>g_Messages := gput r (gput sender (gget [] m sender @ [v]) m) (g_Messages g)\<rparr>)"

text \<open>Assignment through the pointer that the map holds for an id.\<close>

definition update_general :: "int \<Rightarrow> (General \<Rightarrow> General) \<Rightarrow> ByzantineServer \<Rightarrow> ByzantineServer" where
  "update_general i f s =
     (case map_of (Generals s) i of
        None \<Rightarrow> s
      | Some g \<Rightarrow> s\<lparr>Generals := gput i (f g) (Generals s)\<rparr>)"

subsection \<open>SendOrder\<close>

definition SendOrder ::
  "bool \<Rightarrow> ByzantineServer \<Rightarrow> OrderRequest \<Rightarrow> ByzantineServer \<times> Received" where
  "SendOrder coin s req =
     (case map_of (Generals s) (ord_SenderId req) of
        None \<Rightarrow>
          (s, \<lparr>rcv_Received = False,
               rcv_Message = ''Sender General '' @ itoa (ord_SenderId req) @ '' does not exist''\<rparr>)
      | Some general \<Rightarrow>
       (case map_of (Generals s) (ord_ReceiverId req) of
          None \<Rightarrow>
            (s, \<lparr>rcv_Received = False,
                 rcv_Message = ''Receiver General '' @ itoa (ord_ReceiverId req) @ '' does not exist''\<rparr>)
        | Some _ \<Rightarrow>
            if g_Role general \<noteq> COMMANDER
            then (s, \<lparr>rcv_Received = False,
                      rcv_Message = ''Only commander can send initial orders''\<rparr>)
            else
              let s1 = update_general (ord_SenderId req)
                         (store_message 1 (ord_SenderId req) (ord_Order req)) s;
                  value = relay_value (g_IsTraitor general) coin (ord_Order req);
                  s2 = update_general (ord_ReceiverId req)
                         (store_message 1 (ord_SenderId req) value) s1;
                  s3 = (if CurrentRound s2 = 0 then s2\<lparr>CurrentRound := 1\<rparr> else s2)
              in (s3, \<lparr>rcv_Received = True, rcv_Message = ''Order received''\<rparr>)))"

subsection \<open>ExchangeMessage\<close>

text \<open>
  The round advances before the path is checked: a message that is rejected as a cycle has
  already moved CurrentRound.
\<close>

definition ExchangeMessage ::
  "bool \<Rightarrow> ByzantineServer \<Rightarrow> MessageRequest \<Rightarrow> ByzantineServer \<times> Received" where
  "ExchangeMessage coin s req =
     (case map_of (Generals s) (msg_SenderId req) of
        None \<Rightarrow> (s, \<lparr>rcv_Received = False, rcv_Message = ''Sender or receiver does not exist''\<rparr>)
      | Some sender \<Rightarrow>
       (case map_of (Generals s) (msg_ReceiverId req) of
          None \<Rightarrow> (s, \<lparr>rcv_Received = False, rcv_Message = ''Sender or receiver does not exist''\<rparr>)
        | Some _ \<Rightarrow>
            if msg_Round req < CurrentRound s
            then (s, \<lparr>rcv_Received = False,
                      rcv_Message = ''Message for previous round '' @ itoa (msg_Round req)
                        @ '' rejected, current round is '' @ itoa (CurrentRound s)\<rparr>)
            else
              let s1 = (if msg_Round req > CurrentRound s
                        then s\<lparr>CurrentRound := msg_Round req\<rparr> else s)
              in if msg_ReceiverId req \<in> set (msg_Path req)
                 then (s1, \<lparr>rcv_Received = False,
                            rcv_Message = ''Message would create a cycle, rejected''\<rparr>)
                 else
                   let value = relay_value (g_IsTraitor sender) coin (msg_Value req);
                       s2 = update_general (msg_ReceiverId req)
                              (store_message (msg_Round req) (msg_SenderId req) value) s1
                   in (s2, \<lparr>rcv_Received = True, rcv_Message = ''Message received''\<rparr>)))"

subsection \<open>makeDecision\<close>

text \<open>The innermost loop: everything that is not ATTACK counts for RETREAT.\<close>

fun count_decisions :: "nat \<times> nat \<Rightarrow> Decision list \<Rightarrow> nat \<times> nat" where
  "count_decisions (a, r) [] = (a, r)"
| "count_decisions (a, r) (d # ds) =
     (if d = ATTACK then count_decisions (Suc a, r) ds else count_decisions (a, Suc r) ds)"

fun count_senders :: "nat \<times> nat \<Rightarrow> (int, Decision list) gomap \<Rightarrow> nat \<times> nat" where
  "count_senders c [] = c"
| "count_senders c ((_, ds) # m) = count_senders (count_decisions c ds) m"

text \<open>
  The loop over the rounds \<open>1 .. maxRounds\<close>, which the source writes twice, once for the
  commander and once for everybody else.
\<close>

fun count_rounds :: "msglog \<Rightarrow> nat \<times> nat \<Rightarrow> int list \<Rightarrow> nat \<times> nat" where
  "count_rounds msgs c [] = c"
| "count_rounds msgs c (round # rounds) =
     count_rounds msgs
       (case map_of msgs round of None \<Rightarrow> c | Some m \<Rightarrow> count_senders c m) rounds"

text \<open>
  A commander without messages infers its order from the first lieutenant, in the order of
  the loop, that holds a value from it in round 1.
\<close>

fun infer_order :: "(int, General) gomap \<Rightarrow> int \<Rightarrow> int list \<Rightarrow> Decision option" where
  "infer_order gs me [] = None"
| "infer_order gs me (i # ids) =
     (case map_of gs i of
        None \<Rightarrow> infer_order gs me ids
      | Some g \<Rightarrow>
          if i \<noteq> me \<and> g_Role g = LIEUTENANT
          then (case gget [] (gget [] (g_Messages g) 1) me of
                  [] \<Rightarrow> infer_order gs me ids
                | d # _ \<Rightarrow> Some (if d = ATTACK then ATTACK else RETREAT))
          else infer_order gs me ids)"

definition majority :: "nat \<times> nat \<Rightarrow> Decision" where
  "majority c = (if fst c > snd c then ATTACK else if snd c > fst c then RETREAT else RETREAT)"

definition makeDecision ::
  "(int, General) gomap \<Rightarrow> int list \<Rightarrow> bool \<Rightarrow> General \<Rightarrow> int \<Rightarrow> Decision" where
  "makeDecision gs order coin general maxRounds =
     (if g_IsTraitor general then (if coin then ATTACK else RETREAT)
      else
        let c = count_rounds (g_Messages general) (0, 0) [1..maxRounds]
        in if g_Role general = COMMANDER \<and> fst c = 0 \<and> snd c = 0
           then (case infer_order gs (g_ID general) order of
                   Some d \<Rightarrow> d
                 | None \<Rightarrow> majority c)
           else majority c)"

subsection \<open>GetConsensus\<close>

text \<open>
  The random choices of one call: a coin and an iteration order for every call of makeDecision.
  The calls are numbered by the place in the handler (0: the general asked for, 1: the
  counting loop, 2: the loop that checks agreement) and the general they are made for.
\<close>

record consensus_rnd =
  rnd_coin :: "nat \<Rightarrow> int \<Rightarrow> bool"
  rnd_order :: "nat \<Rightarrow> int \<Rightarrow> int list"

definition decide_at :: "ByzantineServer \<Rightarrow> consensus_rnd \<Rightarrow> nat \<Rightarrow> General \<Rightarrow> Decision" where
  "decide_at s rnd k g =
     makeDecision (Generals s) (rnd_order rnd k (g_ID g)) (rnd_coin rnd k (g_ID g)) g (MaxRounds s)"

text \<open>Attack, retreat, loyal attack and loyal retreat votes.\<close>

definition count_vote ::
  "nat \<times> nat \<times> nat \<times> nat \<Rightarrow> bool \<times> Decision \<Rightarrow> nat \<times> nat \<times> nat \<times> nat" where
  "count_vote c v =
     (case c of (a, r, la, lr) \<Rightarrow>
        if snd v = ATTACK
        then (a + 1, r, if \<not> fst v then la + 1 else la, lr)
        else (a, r + 1, la, if \<not> fst v then lr + 1 else lr))"

definition count_votes ::
  "ByzantineServer \<Rightarrow> consensus_rnd \<Rightarrow> nat \<times> nat \<times> nat \<times> nat" where
  "count_votes s rnd =
     foldl count_vote (0, 0, 0, 0)
       (map (\<lambda>(_, g). (g_IsTraitor g, decide_at s rnd 1 g)) (Generals s))"

definition all_loyal_agree :: "ByzantineServer \<Rightarrow> consensus_rnd \<Rightarrow> Decision \<Rightarrow> bool" where
  "all_loyal_agree s rnd d =
     list_all (\<lambda>(_, g). g_IsTraitor g \<or> decide_at s rnd 2 g = d) (Generals s)"

definition consensus_details ::
  "int \<Rightarrow> Decision \<Rightarrow> nat \<times> nat \<times> nat \<times> nat \<Rightarrow> bool \<Rightarrow> Decision \<Rightarrow> string" where
  "consensus_details i decision c agree d =
     (case c of (a, r, la, lr) \<Rightarrow>
       ''General '' @ itoa i @ '' final decision: '' @ Decision_String decision @ nl
       @ ''Total votes - Attack: '' @ itoa (int a) @ '', Retreat: '' @ itoa (int r) @ nl
       @ ''Loyal votes - Attack: '' @ itoa (int la) @ '', Retreat: '' @ itoa (int lr) @ nl
       @ (if agree
          then ''CONSENSUS REACHED: All loyal generals agreed on: '' @ Decision_String d @ nl
          else ''CONSENSUS FAILED: Loyal generals did not reach agreement'' @ nl))"

definition GetConsensus ::
  "ByzantineServer \<Rightarrow> consensus_rnd \<Rightarrow> int \<Rightarrow> ConsensusResponse" where
  "GetConsensus s rnd generalId =
     (case map_of (Generals s) generalId of
        None \<Rightarrow>
          \<lparr>con_Decision = RETREAT, con_ConsensusReached = False,
           con_Details = ''General '' @ itoa generalId @ '' does not exist'', con_VoteCounts = []\<rparr>
      | Some general \<Rightarrow>
          let decision = decide_at s rnd 0 general;
              c = count_votes s rnd
          in case c of (a, r, la, lr) \<Rightarrow>
            let d = (if la > lr then ATTACK else RETREAT);
                agree = all_loyal_agree s rnd d
            in \<lparr>con_Decision = decision, con_ConsensusReached = agree,
                con_Details = consensus_details generalId decision c agree d,
                con_VoteCounts =
                  [(''ATTACK'', i32 (int a)), (''RETREAT'', i32 (int r)),
                   (''LOYAL_ATTACK'', i32 (int la)), (''LOYAL_RETREAT'', i32 (int lr))]\<rparr>)"

end
