(* ===== verification/Byz_Log.thy ===== *)
theory Byz_Log
  imports Byz_Server "HOL-Library.Multiset"
begin

text \<open>
  The server's message logs seen as multisets of values. A locale states what a store of
  messages promises (delivering a value adds it to the receiver's multiset for that round and
  to nothing else); the logs of Byz_Server are an instance, and the counting loops of makeDecision are
  functions of these multisets. The second half is the invariant of the server's state and the
  step relation of its handlers.
\<close>

named_theorems byz_simps "effect of the handlers on the generals"

subsection \<open>Counting loops as multiset sizes\<close>

definition attacks :: "Decision multiset \<Rightarrow> nat" where
  "attacks M = size (filter_mset (\<lambda>d. d = ATTACK) M)"

definition retreats :: "Decision multiset \<Rightarrow> nat" where
  "retreats M = size (filter_mset (\<lambda>d. d \<noteq> ATTACK) M)"

lemma attacks_simps [simp]:
  "attacks {#} = 0" "attacks (M + N) = attacks M + attacks N"
  "attacks (add_mset d M) = (if d = ATTACK then Suc (attacks M) else attacks M)"
  by (simp_all add: attacks_def)

lemma retreats_simps [simp]:
  "retreats {#} = 0" "retreats (M + N) = retreats M + retreats N"
  "retreats (add_mset d M) = (if d = ATTACK then retreats M else Suc (retreats M))"
  by (simp_all add: retreats_def)

lemma attacks_plus_retreats: "attacks M + retreats M = size M"
  by (induction M) auto

lemma attacks_sum: "attacks (\<Sum>x\<in>#X. F x) = (\<Sum>x\<in>#X. attacks (F x))"
  by (induction X) simp_all

lemma retreats_sum: "retreats (\<Sum>x\<in>#X. F x) = (\<Sum>x\<in>#X. retreats (F x))"
  by (induction X) simp_all

definition sender_values :: "(int, Decision list) gomap \<Rightarrow> Decision multiset" where
  "sender_values m = (\<Sum>(_, ds) \<leftarrow> m. mset ds)"

definition round_values :: "msglog \<Rightarrow> int \<Rightarrow> Decision multiset" where
  "round_values msgs r =
     (case map_of msgs r of None \<Rightarrow> {#} | Some m \<Rightarrow> sender_values m)"

definition values_upto :: "msglog \<Rightarrow> int \<Rightarrow> Decision multiset" where
  "values_upto msgs R = (\<Sum>r \<leftarrow> [1..R]. round_values msgs r)"

lemma count_decisions_eq:
  "count_decisions (a, r) ds = (a + attacks (mset ds), r + retreats (mset ds))"
  by (induction ds arbitrary: a r) auto

lemma count_senders_eq:
  "count_senders (a, r) m = (a + attacks (sender_values m), r + retreats (sender_values m))"
  by (induction m arbitrary: a r) (auto simp: sender_values_def count_decisions_eq)

lemma count_rounds_eq:
  "count_rounds msgs (a, r) rs =
     (a + attacks (\<Sum>x \<leftarrow> rs. round_values msgs x), r + retreats (\<Sum>x \<leftarrow> rs. round_values msgs x))"
  by (induction rs arbitrary: a r)
     (auto simp: round_values_def count_senders_eq split: option.split)

lemma count_rounds_values:
  "count_rounds msgs (0, 0) [1..R] = (attacks (values_upto msgs R), retreats (values_upto msgs R))"
  by (simp add: count_rounds_eq values_upto_def)

subsection \<open>Storing a message\<close>

lemma sender_values_gput:
  "sender_values (gput i (gget [] m i @ [v]) m) = sender_values m + {#v#}"
  by (induction m) (auto simp: sender_values_def gget_def)

lemma round_values_store:
  "round_values (g_Messages (store_message r i v g)) r' =
     round_values (g_Messages g) r' + (if r' = r then {#v#} else {#})"
proof -
  have "sender_values (gput i (gget [] (gget [] (g_Messages g) r) i @ [v])
          (gget [] (g_Messages g) r)) = round_values (g_Messages g) r + {#v#}"
    unfolding sender_values_gput
    by (simp add: round_values_def gget_def sender_values_def split: option.split)
  then show ?thesis
    by (simp add: store_message_def Let_def round_values_def)
qed

lemma store_message_frame [byz_simps, simp]:
  "g_ID (store_message r i v g) = g_ID g" "g_Role (store_message r i v g) = g_Role g"
  "g_IsTraitor (store_message r i v g) = g_IsTraitor g"
  by (simp_all add: store_message_def Let_def)

lemma update_general_lookup [byz_simps]:
  "map_of (Generals (update_general i f s)) j =
     (if j = i then map_option f (map_of (Generals s) i) else map_of (Generals s) j)"
  by (simp add: update_general_def split: option.split)

lemma update_general_frame [byz_simps, simp]:
  "NumGenerals (update_general i f s) = NumGenerals s"
  "NumTraitors (update_general i f s) = NumTraitors s"
  "MaxRounds (update_general i f s) = MaxRounds s"
  "CurrentRound (update_general i f s) = CurrentRound s"
  by (simp_all add: update_general_def split: option.split)

lemma update_general_keys [byz_simps, simp]:
  "map fst (Generals (update_general i f s)) = map fst (Generals s)"
  by (simp add: update_general_def gput_keys_present split: option.split)

text \<open>What general \<open>j\<close> holds for round \<open>r\<close>.\<close>

definition held :: "ByzantineServer \<Rightarrow> int \<Rightarrow> int \<Rightarrow> Decision multiset" where
  "held s j r =
     (case map_of (Generals s) j of None \<Rightarrow> {#} | Some g \<Rightarrow> round_values (g_Messages g) r)"

definition registered :: "ByzantineServer \<Rightarrow> int \<Rightarrow> bool" where
  "registered s j \<longleftrightarrow> map_of (Generals s) j \<noteq> None"

definition deliver :: "int \<Rightarrow> int \<Rightarrow> int \<Rightarrow> Decision \<Rightarrow> ByzantineServer \<Rightarrow> ByzantineServer" where
  "deliver r i j v s = update_general j (store_message r i v) s"

subsection \<open>The contract of a message store\<close>

locale message_store =
  fixes present :: "'s \<Rightarrow> int \<Rightarrow> bool"
    and put :: "int \<Rightarrow> int \<Rightarrow> int \<Rightarrow> Decision \<Rightarrow> 's \<Rightarrow> 's"
    and got :: "'s \<Rightarrow> int \<Rightarrow> int \<Rightarrow> Decision multiset"
  assumes got_put: "present s j \<Longrightarrow>
      got (put r i j v s) j' r' = got s j' r' + (if j' = j \<and> r' = r then {#v#} else {#})"
    and present_put: "present (put r i j v s) j' = present s j'"
begin

lemma got_fold:
  assumes "\<forall>(r, i, j, v) \<in> set ds. present s j"
  shows "got (fold (\<lambda>(r, i, j, v). put r i j v) ds s) j' r' =
    got s j' r' +
    image_mset (\<lambda>(r, i, j, v). v) (filter_mset (\<lambda>(r, i, j, v). j = j' \<and> r = r') (mset ds))"
  using assms
proof (induction ds arbitrary: s)
  case Nil
  then show ?case by simp
next
  case (Cons d ds)
  obtain r i j v where d: "d = (r, i, j, v)" by (cases d)
  with Cons.prems have j: "present s j" by simp
  have "got (fold (\<lambda>(r, i, j, v). put r i j v) ds (put r i j v s)) j' r' =
      got (put r i j v s) j' r' +
      image_mset (\<lambda>(r, i, j, v). v) (filter_mset (\<lambda>(r, i, j, v). j = j' \<and> r = r') (mset ds))"
    by (rule Cons.IH) (use Cons.prems in \<open>auto simp: present_put\<close>)
  then show ?case by (simp add: d got_put [OF j])
qed

lemma present_fold: "present (fold (\<lambda>(r, i, j, v). put r i j v) ds s) j' = present s j'"
proof (induction ds arbitrary: s)
  case Nil
  then show ?case by simp
next
  case (Cons d ds)
  obtain r i j v where d: "d = (r, i, j, v)" by (cases d)
  from Cons.IH [of "put r i j v s"] show ?case by (simp add: d present_put)
qed

end

lemma held_deliver:
  "registered s j \<Longrightarrow>
     held (deliver r i j v s) j' r' = held s j' r' + (if j' = j \<and> r' = r then {#v#} else {#})"
  by (auto simp: held_def registered_def deliver_def update_general_lookup round_values_store
      split: option.split)

lemma registered_deliver [simp]: "registered (deliver r i j v s) j' = registered s j'"
  by (auto simp: registered_def deliver_def update_general_lookup)

interpretation server_log: message_store registered deliver held
  by unfold_locales (simp_all add: held_deliver)

subsection \<open>Handlers in terms of deliveries\<close>

lemma SendOrder_accepts:
  assumes "map_of (Generals s) (ord_SenderId req) = Some g" and "g_Role g = COMMANDER"
    and "registered s (ord_ReceiverId req)"
  shows "SendOrder coin s req =
    ((let s' = fold (\<lambda>(r, i, j, v). deliver r i j v)
         [(1, ord_SenderId req, ord_SenderId req, ord_Order req),
          (1, ord_SenderId req, ord_ReceiverId req,
             relay_value (g_IsTraitor g) coin (ord_Order req))] s
      in s'\<lparr>CurrentRound := (if CurrentRound s = 0 then 1 else CurrentRound s)\<rparr>),
     \<lparr>rcv_Received = True, rcv_Message = ''Order received''\<rparr>)"
  using assms by (auto simp: SendOrder_def registered_def deliver_def Let_def)

lemma ExchangeMessage_accepts:
  assumes "map_of (Generals s) (msg_SenderId req) = Some g"
    and "registered s (msg_ReceiverId req)"
    and "CurrentRound s \<le> msg_Round req" and "msg_ReceiverId req \<notin> set (msg_Path req)"
  shows "ExchangeMessage coin s req =
    (deliver (msg_Round req) (msg_SenderId req) (msg_ReceiverId req)
       (relay_value (g_IsTraitor g) coin (msg_Value req)) (s\<lparr>CurrentRound := msg_Round req\<rparr>),
     \<lparr>rcv_Received = True, rcv_Message = ''Message received''\<rparr>)"
proof (cases "CurrentRound s = msg_Round req")
  case True
  then have same: "s\<lparr>CurrentRound := msg_Round req\<rparr> = s" by (cases s) simp
  with True assms show ?thesis
    by (auto simp: same ExchangeMessage_def registered_def deliver_def Let_def)
next
  case False
  with assms show ?thesis
    by (auto simp: ExchangeMessage_def registered_def deliver_def Let_def)
qed

end
