(* ===== verification/Byz_Client.thy ===== *)
theory Byz_Client
  imports Byz_Log
begin

text \<open>
  The simulation client (P4-ByzantineConsensus/client/main.go): checking of the flags,
  registration of the generals, the order phase, the exchange rounds and the collection of
  the decisions, each over the state of the server it talks to. Every random choice (number
  of traitors, shuffle, coins), the order in which the goroutines of a phase reach the server, and the
  messages the network loses are fields of \<open>sim_rnd\<close>. Registration and GetConsensus calls are taken to
  reach the server.
\<close>

record GeneralClient =
  gc_ID :: int
  gc_Role :: Role
  gc_IsTraitor :: bool

record sim_flags =
  numGenerals :: int
  numTraitors :: int
  decision_flag :: string
  commanderTraitor :: bool

record sim_rnd =
  sr_actual :: int
  sr_shuffled :: "int list"
  sr_order_sched :: "int list"
  sr_order_coin :: "int \<Rightarrow> bool"
  sr_order_lost :: "int \<Rightarrow> bool"
  sr_round_sched :: "int \<Rightarrow> (int \<times> int) list"
  sr_client_coin :: "int \<Rightarrow> int \<Rightarrow> int \<Rightarrow> bool"
  sr_server_coin :: "int \<Rightarrow> int \<Rightarrow> int \<Rightarrow> bool"
  sr_msg_lost :: "int \<Rightarrow> int \<Rightarrow> int \<Rightarrow> bool"
  sr_consensus :: "int \<Rightarrow> consensus_rnd"

text \<open>\<open>Fatal\<close> is log.Fatalf, \<open>Panics\<close> a run-time panic of Go.\<close>

datatype sim_outcome = Fatal string | Panics | Finished bool string

definition validate_inputs :: "sim_flags \<Rightarrow> string option" where
  "validate_inputs f =
     (if numTraitors f \<ge> 4 then Some ''Number of traitors must be less than 4''
      else if i32 (numGenerals f) \<le> i32 (i32 (numTraitors f) * 3)
      then Some (''For Byzantine consensus, n must be > 3t (got n='' @ itoa (numGenerals f)
                 @ '', t='' @ itoa (numTraitors f) @ '')'')
      else None)"

definition initialOrder :: "sim_flags \<Rightarrow> Decision" where
  "initialOrder f = (if decision_flag f = ''ATTACK'' then ATTACK else RETREAT)"

text \<open>
  The indices of the traitorous lieutenants: the first \<open>remainingTraitors\<close> of the shuffled
  list. A traitorous commander uses up one of the drawn number, which may then be \<open>-1\<close>.
\<close>

definition remainingTraitors :: "sim_flags \<Rightarrow> sim_rnd \<Rightarrow> int" where
  "remainingTraitors f rnd =
     (if commanderTraitor f then sr_actual rnd - 1 else sr_actual rnd)"

definition traitorIndices :: "sim_flags \<Rightarrow> sim_rnd \<Rightarrow> int list" where
  "traitorIndices f rnd = take (nat (remainingTraitors f rnd)) (sr_shuffled rnd)"

definition commander_client :: "sim_flags \<Rightarrow> GeneralClient" where
  "commander_client f = \<lparr>gc_ID = 0, gc_Role = COMMANDER, gc_IsTraitor = commanderTraitor f\<rparr>"

definition lieutenant_client :: "sim_flags \<Rightarrow> sim_rnd \<Rightarrow> int \<Rightarrow> GeneralClient" where
  "lieutenant_client f rnd i =
     \<lparr>gc_ID = i32 i, gc_Role = LIEUTENANT, gc_IsTraitor = (i \<in> set (traitorIndices f rnd))\<rparr>"

definition register_request :: "GeneralClient \<Rightarrow> RegisterRequest" where
  "register_request c =
     \<lparr>reg_Id = gc_ID c, reg_Role = gc_Role c, reg_IsTraitor = gc_IsTraitor c\<rparr>"

text \<open>Lieutenants are registered one after the other; the first refusal ends the program.\<close>

fun register_lieutenants ::
  "sim_flags \<Rightarrow> sim_rnd \<Rightarrow> ByzantineServer \<Rightarrow> int list
     \<Rightarrow> (string \<times> ByzantineServer) + ByzantineServer" where
  "register_lieutenants f rnd s [] = Inr s"
| "register_lieutenants f rnd s (i # is) =
     (case RegisterGeneral s (register_request (lieutenant_client f rnd i)) of
        (s', resp) \<Rightarrow>
          if \<not> regr_Success resp
          then Inl (''Failed to register lieutenant '' @ itoa i @ '': <nil>'', s')
          else register_lieutenants f rnd s' is)"

definition register_generals ::
  "sim_flags \<Rightarrow> sim_rnd \<Rightarrow> ByzantineServer \<Rightarrow> (string \<times> ByzantineServer) + ByzantineServer" where
  "register_generals f rnd s =
     (case RegisterGeneral s (register_request (commander_client f)) of
        (s', resp) \<Rightarrow>
          if \<not> regr_Success resp then Inl (''Failed to register commander: <nil>'', s')
          else register_lieutenants f rnd s' [1..numGenerals f - 1])"

definition all_clients :: "sim_flags \<Rightarrow> sim_rnd \<Rightarrow> GeneralClient list" where
  "all_clients f rnd =
     commander_client f # map (lieutenant_client f rnd) [1..numGenerals f - 1]"

definition traitor_count :: "sim_flags \<Rightarrow> sim_rnd \<Rightarrow> nat" where
  "traitor_count f rnd = length (filter gc_IsTraitor (all_clients f rnd))"

subsection \<open>Phase 1: the commander's order\<close>

definition order_request :: "sim_flags \<Rightarrow> int \<Rightarrow> OrderRequest" where
  "order_request f l =
     \<lparr>ord_SenderId = 0, ord_ReceiverId = i32 l, ord_Order = initialOrder f\<rparr>"

definition send_one_order ::
  "sim_flags \<Rightarrow> sim_rnd \<Rightarrow> int \<Rightarrow> ByzantineServer \<Rightarrow> ByzantineServer" where
  "send_one_order f rnd l s =
     (if sr_order_lost rnd l then s
      else fst (SendOrder (sr_order_coin rnd l) s (order_request f l)))"

definition send_orders :: "sim_flags \<Rightarrow> sim_rnd \<Rightarrow> ByzantineServer \<Rightarrow> ByzantineServer" where
  "send_orders f rnd s = fold (send_one_order f rnd) (sr_order_sched rnd) s"

subsection \<open>Rounds 2 to t+1\<close>

text \<open>
  Every general forwards the initial order, not what it received; a traitor may turn it round
  here, and the server may turn it round again.
\<close>

definition forwarded_value :: "sim_flags \<Rightarrow> bool \<Rightarrow> bool \<Rightarrow> Decision" where
  "forwarded_value f traitor coin =
     (if traitor \<and> coin then (if initialOrder f = ATTACK then RETREAT else ATTACK)
      else initialOrder f)"

definition client_at :: "sim_flags \<Rightarrow> sim_rnd \<Rightarrow> int \<Rightarrow> GeneralClient" where
  "client_at f rnd i = all_clients f rnd ! nat i"

definition message_request ::
  "sim_flags \<Rightarrow> sim_rnd \<Rightarrow> int \<Rightarrow> int \<Rightarrow> int \<Rightarrow> MessageRequest" where
  "message_request f rnd r i j =
     \<lparr>msg_Round = i32 r, msg_SenderId = gc_ID (client_at f rnd i),
      msg_ReceiverId = gc_ID (client_at f rnd j),
      msg_Value = forwarded_value f (gc_IsTraitor (client_at f rnd i)) (sr_client_coin rnd r i j),
      msg_Path = [gc_ID (client_at f rnd i)]\<rparr>"

definition send_one_message ::
  "sim_flags \<Rightarrow> sim_rnd \<Rightarrow> int \<Rightarrow> int \<times> int \<Rightarrow> ByzantineServer \<Rightarrow> ByzantineServer" where
  "send_one_message f rnd r ij s =
     (case ij of (i, j) \<Rightarrow>
        if sr_msg_lost rnd r i j then s
        else fst (ExchangeMessage (sr_server_coin rnd r i j) s (message_request f rnd r i j)))"

definition exchange_round ::
  "sim_flags \<Rightarrow> sim_rnd \<Rightarrow> int \<Rightarrow> ByzantineServer \<Rightarrow> ByzantineServer" where
  "exchange_round f rnd r s = fold (send_one_message f rnd r) (sr_round_sched rnd r) s"

definition exchange_rounds :: "sim_flags \<Rightarrow> sim_rnd \<Rightarrow> ByzantineServer \<Rightarrow> ByzantineServer" where
  "exchange_rounds f rnd s = fold (exchange_round f rnd) [2..numTraitors f + 1] s"

subsection \<open>Collecting the decisions\<close>

fun collect :: "ByzantineServer \<Rightarrow> sim_rnd \<Rightarrow> bool \<times> string \<Rightarrow> GeneralClient list \<Rightarrow> bool \<times> string" where
  "collect s rnd acc [] = acc"
| "collect s rnd (reached, details) (c # cs) =
     (let resp = GetConsensus s (sr_consensus rnd (gc_ID c)) (gc_ID c)
      in collect s rnd
           (if details = '''' then (con_ConsensusReached resp, con_Details resp)
            else (reached, details)) cs)"

definition run_phases :: "sim_flags \<Rightarrow> sim_rnd \<Rightarrow> ByzantineServer \<Rightarrow> ByzantineServer" where
  "run_phases f rnd s = exchange_rounds f rnd (send_orders f rnd s)"

text \<open>
  A negative number of traitors passes the checks and panics in the make of the traitors
  slice.
\<close>

definition run_simulation ::
  "sim_flags \<Rightarrow> sim_rnd \<Rightarrow> ByzantineServer \<Rightarrow> ByzantineServer \<times> sim_outcome" where
  "run_simulation f rnd s =
     (case validate_inputs f of
        Some msg \<Rightarrow> (s, Fatal msg)
      | None \<Rightarrow>
          if numGenerals f < 0 \<or> numTraitors f < 0 then (s, Panics)
          else
            (case register_generals f rnd s of
               Inl (msg, s1) \<Rightarrow> (s1, Fatal msg)
             | Inr s1 \<Rightarrow>
                 if int (traitor_count f rnd) > numTraitors f
                 then (s1, Fatal (''Too many traitors created: got ''
                        @ itoa (int (traitor_count f rnd)) @ '', maximum allowed ''
                        @ itoa (numTraitors f)))
                 else
                   let s2 = run_phases f rnd s1;
                       res = collect s2 rnd (False, '''') (all_clients f rnd)
                   in (s2, Finished (fst res) (snd res))))"

text \<open>
  The choices Go can make: the drawn number of traitors is at most \<open>t\<close>, the shuffle and the
  schedules are permutations of what the loops start.
\<close>

definition sim_rnd_ok :: "sim_flags \<Rightarrow> sim_rnd \<Rightarrow> bool" where
  "sim_rnd_ok f rnd \<longleftrightarrow>
     0 \<le> sr_actual rnd \<and> sr_actual rnd \<le> numTraitors f
     \<and> mset (sr_shuffled rnd) = mset [1..numGenerals f - 1]
     \<and> mset (sr_order_sched rnd) = mset [1..numGenerals f - 1]
     \<and> (\<forall>r. mset (sr_round_sched rnd r) =
            mset [(i, j). i \<leftarrow> [0..numGenerals f - 1], j \<leftarrow> [0..numGenerals f - 1], i \<noteq> j])"

definition nothing_lost :: "sim_rnd \<Rightarrow> bool" where
  "nothing_lost rnd \<longleftrightarrow>
     (\<forall>l. \<not> sr_order_lost rnd l) \<and> (\<forall>r i j. \<not> sr_msg_lost rnd r i j)"

end
