(* ===== verification/Byz_Consensus.thy ===== *)
theory Byz_Consensus
  imports Byz_Client
begin

text \<open>
  Agreement and validity of the simulation: with no message lost, the loyal generals decide
  the commander's order, for every choice of traitors, coins and schedules, except in the
  one configuration (four generals, one traitor who is the commander, order ATTACK) where a
  tie breaks the agreement.
\<close>

subsection \<open>Generic counting\<close>

text \<open>A fold of steps, each of which adds something to every log.\<close>

lemma fold_additive:
  fixes h :: "'s \<Rightarrow> 'a multiset"
  assumes step: "\<And>x s. x \<in> set xs \<Longrightarrow> I s \<Longrightarrow> I (f x s) \<and> h (f x s) = h s + d x"
    and "I s"
  shows "I (fold f xs s) \<and> h (fold f xs s) = h s + (\<Sum>x\<in>#mset xs. d x)"
  using assms
proof (induction xs arbitrary: s)
  case Nil
  then show ?case by simp
next
  case (Cons x xs)
  then have "I (f x s)" "h (f x s) = h s + d x" by auto
  with Cons show ?case by (simp add: add.assoc)
qed

definition votes :: "Decision \<Rightarrow> Decision multiset \<Rightarrow> nat" where
  "votes d M = (if d = ATTACK then attacks M else retreats M)"

lemma votes_simps [simp]:
  "votes d {#} = 0" "votes d (M + N) = votes d M + votes d N"
  "votes d (add_mset v M) = (if (v = ATTACK) = (d = ATTACK) then Suc (votes d M) else votes d M)"
  by (auto simp: votes_def)

lemma votes_sum: "finite A \<Longrightarrow> votes d (\<Sum>i\<in>A. F i) = (\<Sum>i\<in>A. votes d (F i))"
  by (induction A rule: finite_induct) auto

lemma votes_sum_list: "votes d (\<Sum>i\<leftarrow>xs. F i) = (\<Sum>i\<leftarrow>xs. votes d (F i))"
  by (induction xs) auto

lemma majority_votes:
  assumes "d = ATTACK \<or> d = RETREAT"
    and "votes d M > votes (flip_value d) M \<or> d = RETREAT \<and> votes d M = votes (flip_value d) M"
  shows "majority (attacks M, retreats M) = d"
  using assms by (auto simp: votes_def majority_def flip_value_def split: if_splits)

text \<open>Votes of a family of single values, of which those outside \<open>T\<close> are known.\<close>

lemma votes_known:
  assumes "finite A" and "\<And>i. i \<in> A - T \<Longrightarrow> w i = d" and "d = ATTACK \<or> d = RETREAT"
  shows "card (A - T) \<le> votes d (\<Sum>i\<in>A. {#w i#})"
    and "votes (flip_value d) (\<Sum>i\<in>A. {#w i#}) \<le> card (A \<inter> T)"
proof -
  have "card (A - T) = (\<Sum>i\<in>A. if i \<in> T then 0 else 1)"
    using assms(1) by (simp add: sum.If_cases Diff_eq)
  also have "\<dots> \<le> (\<Sum>i\<in>A. votes d {#w i#})"
    by (rule sum_mono) (use assms(2) in auto)
  finally show "card (A - T) \<le> votes d (\<Sum>i\<in>A. {#w i#})"
    by (simp add: votes_sum [OF assms(1)])
  have "votes (flip_value d) (\<Sum>i\<in>A. {#w i#}) = (\<Sum>i\<in>A. votes (flip_value d) {#w i#})"
    by (rule votes_sum [OF assms(1)])
  also have "\<dots> \<le> (\<Sum>i\<in>A. if i \<in> T then 1 else 0)"
    by (rule sum_mono) (use assms(2,3) in \<open>auto simp: flip_value_def\<close>)
  also have "\<dots> = card (A \<inter> T)"
    using assms(1) by (simp add: sum.If_cases)
  finally show "votes (flip_value d) (\<Sum>i\<in>A. {#w i#}) \<le> card (A \<inter> T)" .
qed


subsection \<open>The generals of a run\<close>

definition flags_ok :: "sim_flags \<Rightarrow> bool" where
  "flags_ok f \<longleftrightarrow> 1 \<le> numGenerals f \<and> numGenerals f < 2 ^ 31 \<and> 0 \<le> numTraitors f
     \<and> numTraitors f < 4 \<and> numTraitors f * 3 < numGenerals f
     \<and> (commanderTraitor f \<longrightarrow> 1 \<le> numTraitors f)"

definition traitor :: "sim_flags \<Rightarrow> sim_rnd \<Rightarrow> int \<Rightarrow> bool" where
  "traitor f rnd i = (if i = 0 then commanderTraitor f else i \<in> set (traitorIndices f rnd))"

definition traitors :: "sim_flags \<Rightarrow> sim_rnd \<Rightarrow> int set" where
  "traitors f rnd = {i \<in> {0..<numGenerals f}. traitor f rnd i}"

definition client_of :: "sim_flags \<Rightarrow> sim_rnd \<Rightarrow> int \<Rightarrow> GeneralClient" where
  "client_of f rnd i =
     \<lparr>gc_ID = i, gc_Role = (if i = 0 then COMMANDER else LIEUTENANT), gc_IsTraitor = traitor f rnd i\<rparr>"

lemma flags_ok_i32: "flags_ok f \<Longrightarrow> 0 \<le> i \<Longrightarrow> i < numGenerals f \<Longrightarrow> i32 i = i"
  by (simp add: flags_ok_def i32_simps)

lemma all_clients_eq:
  assumes "flags_ok f"
  shows "all_clients f rnd = map (client_of f rnd) [0..numGenerals f - 1]"
proof -
  have "[0..numGenerals f - 1] = 0 # [1..numGenerals f - 1]"
    using assms by (simp add: flags_ok_def upto_rec1)
  moreover have "map (lieutenant_client f rnd) [1..numGenerals f - 1]
      = map (client_of f rnd) [1..numGenerals f - 1]"
    using assms
    by (auto simp: lieutenant_client_def client_of_def traitor_def flags_ok_i32)
  moreover have "commander_client f = client_of f rnd 0"
    by (simp add: commander_client_def client_of_def traitor_def)
  ultimately show ?thesis by (simp add: all_clients_def)
qed

lemma client_at_eq:
  assumes "flags_ok f" and "0 \<le> i" and "i < numGenerals f"
  shows "client_at f rnd i = client_of f rnd i"
  using assms by (simp add: client_at_def all_clients_eq)

lemma traitor_count_eq:
  assumes "flags_ok f"
  shows "traitor_count f rnd = card (traitors f rnd)"
proof -
  have "traitor_count f rnd
      = length (filter (traitor f rnd) [0..numGenerals f - 1])"
    by (simp add: traitor_count_def all_clients_eq [OF assms] filter_map o_def client_of_def)
  also have "\<dots> = card ({i. traitor f rnd i} \<inter> set [0..numGenerals f - 1])"
    by (rule distinct_length_filter) simp
  also have "{i. traitor f rnd i} \<inter> set [0..numGenerals f - 1] = traitors f rnd"
    by (auto simp: traitors_def)
  finally show ?thesis .
qed

text \<open>Never more traitors than the flag allows, and with a loyal commander at most those drawn.\<close>

lemma card_traitors_le:
  assumes "flags_ok f" and "sim_rnd_ok f rnd"
  shows "int (card (traitors f rnd)) \<le> numTraitors f"
proof -
  let ?C = "if commanderTraitor f then {0} else ({} :: int set)"
  have "traitors f rnd \<subseteq> ?C \<union> set (traitorIndices f rnd)"
    by (auto simp: traitors_def traitor_def)
  then have "card (traitors f rnd) \<le> card (?C \<union> set (traitorIndices f rnd))"
    by (rule card_mono [rotated]) simp
  also have "\<dots> \<le> card ?C + card (set (traitorIndices f rnd))"
    by (rule card_Un_le)
  also have "card (set (traitorIndices f rnd)) \<le> nat (remainingTraitors f rnd)"
    using card_length [of "traitorIndices f rnd"] by (simp add: traitorIndices_def)
  finally have "card (traitors f rnd) \<le> card ?C + nat (remainingTraitors f rnd)" by simp
  with assms show ?thesis
    by (auto simp: remainingTraitors_def sim_rnd_ok_def flags_ok_def split: if_splits)
qed

subsection \<open>The profile of a server: everything but logs and round\<close>

definition profile :: "ByzantineServer \<Rightarrow> (int, int \<times> Role \<times> bool) gomap" where
  "profile s = map (\<lambda>(i, g). (i, g_ID g, g_Role g, g_IsTraitor g)) (Generals s)"

lemma profile_lookup:
  "map_of (profile s) i = map_option (\<lambda>g. (g_ID g, g_Role g, g_IsTraitor g)) (map_of (Generals s) i)"
  unfolding profile_def map_of_map by simp


lemma profile_gput:
  assumes "map_of gs i = Some g"
    and "(g_ID h, g_Role h, g_IsTraitor h) = (g_ID g, g_Role g, g_IsTraitor g)"
  shows "map (\<lambda>(i, g). (i, g_ID g, g_Role g, g_IsTraitor g)) (gput i h gs)
       = map (\<lambda>(i, g). (i, g_ID g, g_Role g, g_IsTraitor g)) gs"
  using assms by (induction gs) (auto split: if_splits)

lemma deliver_frame [byz_simps, simp]:
  "profile (deliver r i j v s) = profile s"
  "MaxRounds (deliver r i j v s) = MaxRounds s"
  "CurrentRound (deliver r i j v s) = CurrentRound s"
  by (auto simp: deliver_def profile_def update_general_def profile_gput split: option.split)

lemma round_frame [simp]:
  "held (s\<lparr>CurrentRound := c\<rparr>) = held s" "profile (s\<lparr>CurrentRound := c\<rparr>) = profile s"
  "registered (s\<lparr>CurrentRound := c\<rparr>) = registered s"
  by (auto simp: held_def profile_def registered_def fun_eq_iff)

lemma registered_profile: "registered s i \<longleftrightarrow> map_of (profile s) i \<noteq> None"
  by (simp add: registered_def profile_lookup)

definition client_profile :: "GeneralClient \<Rightarrow> int \<times> int \<times> Role \<times> bool" where
  "client_profile c = (gc_ID c, gc_ID c, gc_Role c, gc_IsTraitor c)"

definition configured :: "sim_flags \<Rightarrow> sim_rnd \<Rightarrow> ByzantineServer \<Rightarrow> bool" where
  "configured f rnd s \<longleftrightarrow> profile s = map client_profile (all_clients f rnd)
     \<and> MaxRounds s = int (traitor_count f rnd) + 1"

lemma configured_cong:
  "profile s' = profile s \<Longrightarrow> MaxRounds s' = MaxRounds s \<Longrightarrow> configured f rnd s' = configured f rnd s"
  by (simp add: configured_def)

lemma configured_lookup:
  assumes "configured f rnd s" and "flags_ok f" and "0 \<le> i" and "i < numGenerals f"
  obtains g where "map_of (Generals s) i = Some g" and "g_ID g = i"
    and "g_Role g = (if i = 0 then COMMANDER else LIEUTENANT)" and "g_IsTraitor g = traitor f rnd i"
proof -
  have "map_of (map client_profile (all_clients f rnd)) i
      = Some (snd (client_profile (client_of f rnd i)))"
  proof (rule map_of_is_SomeI)
    show "distinct (map fst (map client_profile (all_clients f rnd)))"
      by (simp add: all_clients_eq [OF assms(2)] client_profile_def client_of_def o_def)
    show "(i, snd (client_profile (client_of f rnd i))) \<in> set (map client_profile (all_clients f rnd))"
      using assms(3,4)
      by (auto simp: all_clients_eq [OF assms(2)] client_profile_def client_of_def)
  qed
  with assms(1) have "map_of (profile s) i = Some (snd (client_profile (client_of f rnd i)))"
    by (simp add: configured_def)
  then show ?thesis
    using that by (auto simp: profile_lookup client_profile_def client_of_def)
qed

lemma configured_registered:
  "configured f rnd s \<Longrightarrow> flags_ok f \<Longrightarrow> 0 \<le> i \<Longrightarrow> i < numGenerals f \<Longrightarrow> registered s i"
  by (metis configured_lookup registered_def option.distinct(1))

subsection \<open>Registration\<close>

lemma RegisterGeneral_new:
  assumes "\<not> registered s (reg_Id req)"
  shows "regr_Success (snd (RegisterGeneral s req))"
    and "profile (fst (RegisterGeneral s req)) =
           profile s @ [(reg_Id req, reg_Id req, reg_Role req, reg_IsTraitor req)]"
    and "held (fst (RegisterGeneral s req)) = held s"
    and "NumTraitors (fst (RegisterGeneral s req)) =
           (if reg_IsTraitor req then i32 (NumTraitors s + 1) else NumTraitors s)"
    and "MaxRounds (fst (RegisterGeneral s req)) =
           i32 (NumTraitors (fst (RegisterGeneral s req)) + 1)"
    and "CurrentRound (fst (RegisterGeneral s req)) = CurrentRound s"
  using assms
  by (auto simp: RegisterGeneral_def registered_def profile_def Let_def gput_absent held_def
      round_values_def fun_eq_iff map_add_def split: option.split)

lemma RegisterGeneral_registered:
  assumes "\<not> registered s (reg_Id req)"
  shows "registered (fst (RegisterGeneral s req)) j \<longleftrightarrow> j = reg_Id req \<or> registered s j"
  unfolding registered_profile RegisterGeneral_new(2) [OF assms]
  by (auto simp: map_add_def split: option.split)

lemma register_lieutenants_ok:
  assumes "distinct is" and "\<forall>i \<in> set is. i32 i = i \<and> \<not> registered s i"
    and "0 \<le> NumTraitors s"
    and "NumTraitors s + int (length (filter (\<lambda>i. i \<in> set (traitorIndices f rnd)) is)) < 4"
    and "MaxRounds s = NumTraitors s + 1"
  shows "\<exists>s'. register_lieutenants f rnd s is = Inr s'
     \<and> profile s' = profile s @ map (client_profile \<circ> lieutenant_client f rnd) is
     \<and> held s' = held s \<and> CurrentRound s' = CurrentRound s
     \<and> NumTraitors s' = NumTraitors s
          + int (length (filter (\<lambda>i. i \<in> set (traitorIndices f rnd)) is))
     \<and> MaxRounds s' = NumTraitors s' + 1"
  using assms
proof (induction "is" arbitrary: s)
  case Nil
  then show ?case by simp
next
  case (Cons i "is")
  define req where "req = register_request (lieutenant_client f rnd i)"
  have req: "reg_Id req = i" "reg_IsTraitor req = (i \<in> set (traitorIndices f rnd))"
    "reg_Role req = LIEUTENANT"
    using Cons.prems by (simp_all add: req_def register_request_def lieutenant_client_def)
  define s1 where "s1 = fst (RegisterGeneral s req)"
  have new: "\<not> registered s (reg_Id req)" using Cons.prems req by simp
  note r = RegisterGeneral_new [OF new, folded s1_def]
  have num: "NumTraitors s1 = NumTraitors s + (if i \<in> set (traitorIndices f rnd) then 1 else 0)"
    using r(4) Cons.prems by (auto simp: req i32_simps)
  moreover from num have "MaxRounds s1 = NumTraitors s1 + 1"
    using r(5) Cons.prems by (auto simp: i32_simps split: if_splits)
  moreover have "\<forall>j \<in> set is. i32 j = j \<and> \<not> registered s1 j"
    using Cons.prems RegisterGeneral_registered [OF new] by (auto simp: s1_def req(1))
  ultimately have "\<exists>s'. register_lieutenants f rnd s1 is = Inr s'
     \<and> profile s' = profile s1 @ map (client_profile \<circ> lieutenant_client f rnd) is
     \<and> held s' = held s1 \<and> CurrentRound s' = CurrentRound s1
     \<and> NumTraitors s' = NumTraitors s1
          + int (length (filter (\<lambda>i. i \<in> set (traitorIndices f rnd)) is))
     \<and> MaxRounds s' = NumTraitors s' + 1"
    using Cons.prems by (intro Cons.IH) (auto split: if_splits)
  moreover have "register_lieutenants f rnd s (i # is) = register_lieutenants f rnd s1 is"
    using r(1) by (simp add: s1_def req_def case_prod_beta)
  moreover have "client_profile (lieutenant_client f rnd i) = (i, i, LIEUTENANT, i \<in> set (traitorIndices f rnd))"
    using Cons.prems by (simp add: client_profile_def lieutenant_client_def)
  ultimately show ?case
    using r(2,3,6) req num by auto
qed


lemma NewByzantineServer_simps [simp]:
  "profile NewByzantineServer = []" "held NewByzantineServer j r = {#}"
  "\<not> registered NewByzantineServer i" "NumTraitors NewByzantineServer = 0"
  "CurrentRound NewByzantineServer = 0"
  by (simp_all add: NewByzantineServer_def profile_def held_def registered_def)

lemma register_generals_ok:
  assumes f: "flags_ok f" and rnd: "sim_rnd_ok f rnd"
  obtains s where "register_generals f rnd NewByzantineServer = Inr s"
    and "configured f rnd s" and "\<forall>j r. held s j r = {#}" and "CurrentRound s = 0"
proof -
  define req where "req = register_request (commander_client f)"
  define s0 where "s0 = fst (RegisterGeneral NewByzantineServer req)"
  have new: "\<not> registered NewByzantineServer (reg_Id req)" by simp
  note r = RegisterGeneral_new [OF new, folded s0_def]
  have req: "reg_Id req = 0" "reg_IsTraitor req = commanderTraitor f" "reg_Role req = COMMANDER"
    by (simp_all add: req_def register_request_def commander_client_def)
  let ?ls = "[1..numGenerals f - 1]" and ?c = "if commanderTraitor f then 1 else 0 :: int"
  let ?n = "int (length (filter (\<lambda>i. i \<in> set (traitorIndices f rnd)) ?ls))"
  have tr: "int (traitor_count f rnd) = ?c + ?n"
  proof -
    have "filter (\<lambda>i. gc_IsTraitor (lieutenant_client f rnd i)) ?ls
        = filter (\<lambda>i. i \<in> set (traitorIndices f rnd)) ?ls"
      by (rule filter_cong) (simp_all add: lieutenant_client_def)
    then show ?thesis
      by (simp add: traitor_count_def all_clients_def commander_client_def filter_map o_def)
  qed
  have n0: "NumTraitors s0 = ?c" and m0: "MaxRounds s0 = ?c + 1"
    using r(4,5) by (simp_all add: req i32_simps)
  have "int (traitor_count f rnd) < 4"
    using card_traitors_le [OF f rnd] f by (simp add: traitor_count_eq [OF f] flags_ok_def)
  moreover have "\<forall>i \<in> set ?ls. i32 i = i \<and> \<not> registered s0 i"
    using RegisterGeneral_registered [OF new] flags_ok_i32 [OF f] by (auto simp: s0_def req(1))
  ultimately have "\<exists>s. register_lieutenants f rnd s0 ?ls = Inr s
      \<and> profile s = profile s0 @ map (client_profile \<circ> lieutenant_client f rnd) ?ls
      \<and> held s = held s0 \<and> CurrentRound s = CurrentRound s0
      \<and> NumTraitors s = NumTraitors s0 + ?n \<and> MaxRounds s = NumTraitors s + 1"
    using n0 m0 tr by (intro register_lieutenants_ok) simp_all
  then obtain s where s: "register_lieutenants f rnd s0 ?ls = Inr s"
      "profile s = profile s0 @ map (client_profile \<circ> lieutenant_client f rnd) ?ls"
      "held s = held s0" "CurrentRound s = CurrentRound s0" "NumTraitors s = NumTraitors s0 + ?n"
      "MaxRounds s = NumTraitors s + 1"
    by blast
  show ?thesis
  proof (rule that)
    show "register_generals f rnd NewByzantineServer = Inr s"
      using s(1) r(1) by (simp add: register_generals_def case_prod_beta s0_def req_def)
    show "configured f rnd s"
      using s(2,5,6) r(2) n0 tr
      by (simp add: configured_def all_clients_def req client_profile_def commander_client_def)
    show "\<forall>j r. held s j r = {#}" using s(3) r(3) by simp
    show "CurrentRound s = 0" using s(4) r(6) by simp
  qed
qed

subsection \<open>Phase 1\<close>

lemma initialOrder_cases: "initialOrder f = ATTACK \<or> initialOrder f = RETREAT"
  by (simp add: initialOrder_def)

definition order_value :: "sim_flags \<Rightarrow> sim_rnd \<Rightarrow> int \<Rightarrow> Decision" where
  "order_value f rnd l =
     relay_value (commanderTraitor f) (sr_order_coin rnd l) (initialOrder f)"

lemma send_one_order_step:
  assumes s: "configured f rnd s" and f: "flags_ok f" and l: "1 \<le> l" "l < numGenerals f"
    and "\<not> sr_order_lost rnd l" and "CurrentRound s \<le> 1"
  shows "configured f rnd (send_one_order f rnd l s)"
    and "CurrentRound (send_one_order f rnd l s) \<le> 1"
    and "held (send_one_order f rnd l s) j r =
      held s j r + (if r = 1 then
          (if j = 0 then {#initialOrder f#} else {#})
          + (if j = l then {#order_value f rnd l#} else {#}) else {#})"
proof -
  obtain g where g: "map_of (Generals s) 0 = Some g" "g_Role g = COMMANDER"
      "g_IsTraitor g = commanderTraitor f"
    by (rule configured_lookup [OF s f, of 0]) (use f in \<open>auto simp: flags_ok_def traitor_def\<close>)
  have reg: "registered s l" "registered s 0"
    using configured_registered [OF s f] l f by (auto simp: flags_ok_def)
  have l32: "i32 l = l" using flags_ok_i32 [OF f] l by simp
  define s' where "s' = deliver 1 0 l (order_value f rnd l) (deliver 1 0 0 (initialOrder f) s)"
  have eq: "send_one_order f rnd l s
      = s'\<lparr>CurrentRound := (if CurrentRound s = 0 then 1 else CurrentRound s)\<rparr>"
    using SendOrder_accepts [of s "order_request f l" g "sr_order_coin rnd l"] g reg assms(5)
    by (simp add: send_one_order_def order_request_def l32 s'_def order_value_def)
  show "configured f rnd (send_one_order f rnd l s)"
    using s by (simp add: eq configured_def s'_def)
  show "CurrentRound (send_one_order f rnd l s) \<le> 1" using assms(6) by (simp add: eq)
  show "held (send_one_order f rnd l s) j r =
      held s j r + (if r = 1 then
          (if j = 0 then {#initialOrder f#} else {#})
          + (if j = l then {#order_value f rnd l#} else {#}) else {#})"
    using reg by (simp add: eq s'_def held_deliver)
qed


lemma sum_upto_singleton:
  fixes w :: "int \<Rightarrow> 'a"
  shows "(\<Sum>l\<in>{a..b}. if j = l then {#w l#} else {#}) = (if a \<le> j \<and> j \<le> b then {#w j#} else {#})"
  by (simp add: sum.delta)

lemma mset_upto_sum: "(\<Sum>l\<in>#mset [a..b]. F l) = (\<Sum>l\<in>{a..b::int}. F l :: 'a::comm_monoid_add)"
proof -
  have "(\<Sum>l\<in>#mset [a..b]. F l) = sum_list (map F [a..b])"
    by (simp add: sum_mset_sum_list flip: mset_map)
  also have "\<dots> = (\<Sum>l\<in>set [a..b]. F l)"
    by (rule sum_list_distinct_conv_sum_set) simp
  finally show ?thesis by simp
qed

definition round1_values :: "sim_flags \<Rightarrow> sim_rnd \<Rightarrow> int \<Rightarrow> Decision multiset" where
  "round1_values f rnd j =
     (if j = 0 then (\<Sum>l\<in>{1..numGenerals f - 1}. {#initialOrder f#}) else {#order_value f rnd j#})"

text \<open>What the orders to all lieutenants leave with general \<open>j\<close>.\<close>

lemma order_values_sum:
  assumes "0 \<le> j" and "j < numGenerals f"
  shows "(\<Sum>l\<in>#mset [1..numGenerals f - 1]. if r = (1::int) then
          (if j = 0 then {#initialOrder f#} else {#})
          + (if j = l then {#order_value f rnd l#} else {#}) else {#})
    = (if r = 1 then round1_values f rnd j else {#})"
  unfolding mset_upto_sum using assms
  by (auto simp: round1_values_def sum.distrib sum_upto_singleton simp del: sum_constant)

lemma send_orders_effect:
  assumes s: "configured f rnd s" and f: "flags_ok f" and rnd: "sim_rnd_ok f rnd"
    and nl: "nothing_lost rnd" and "CurrentRound s \<le> 1"
  shows "configured f rnd (send_orders f rnd s) \<and> CurrentRound (send_orders f rnd s) \<le> 1"
    and "0 \<le> j \<Longrightarrow> j < numGenerals f \<Longrightarrow>
      held (send_orders f rnd s) j r = held s j r + (if r = 1 then round1_values f rnd j else {#})"
proof -
  define I where "I s \<longleftrightarrow> configured f rnd s \<and> CurrentRound s \<le> 1" for s
  define d where "d j r l = (if r = 1 then
          (if j = 0 then {#initialOrder f#} else {#})
          + (if j = l then {#order_value f rnd l#} else {#}) else {#})" for j r l :: int
  have sched: "mset (sr_order_sched rnd) = mset [1..numGenerals f - 1]"
    using rnd by (simp add: sim_rnd_ok_def)
  then have "set (sr_order_sched rnd) = {1..numGenerals f - 1}"
    by (metis set_mset_mset set_upto)
  then have step: "I (send_one_order f rnd l s)
      \<and> held (send_one_order f rnd l s) j r = held s j r + d j r l"
    if "l \<in> set (sr_order_sched rnd)" "I s" for l s j r
    using that nl send_one_order_step [OF _ f, of rnd s l]
    by (auto simp: I_def d_def nothing_lost_def)
  have fold: "I (send_orders f rnd s) \<and>
      held (send_orders f rnd s) j r = held s j r + (\<Sum>l\<in>#mset (sr_order_sched rnd). d j r l)" for j r
    unfolding send_orders_def
    using fold_additive [where I = I and h = "\<lambda>s. held s j r" and d = "d j r"] step s assms(5)
    by (auto simp: I_def)
  then show "configured f rnd (send_orders f rnd s) \<and> CurrentRound (send_orders f rnd s) \<le> 1"
    by (simp add: I_def)
  assume j: "0 \<le> j" "j < numGenerals f"
  have "(\<Sum>l\<in>#mset (sr_order_sched rnd). d j r l) = (if r = 1 then round1_values f rnd j else {#})"
    unfolding sched d_def by (rule order_values_sum [OF j])
  with fold show "held (send_orders f rnd s) j r =
      held s j r + (if r = 1 then round1_values f rnd j else {#})" by metis
qed

subsection \<open>The exchange rounds\<close>

definition sent_value :: "sim_flags \<Rightarrow> sim_rnd \<Rightarrow> int \<Rightarrow> int \<Rightarrow> int \<Rightarrow> Decision" where
  "sent_value f rnd r i j =
     relay_value (traitor f rnd i) (sr_server_coin rnd r i j)
       (forwarded_value f (traitor f rnd i) (sr_client_coin rnd r i j))"

lemma sent_value_loyal: "\<not> traitor f rnd i \<Longrightarrow> sent_value f rnd r i j = initialOrder f"
  by (simp add: sent_value_def relay_value_def forwarded_value_def)

lemma send_one_message_step:
  assumes s: "configured f rnd s" and f: "flags_ok f"
    and i: "0 \<le> i" "i < numGenerals f" and k: "0 \<le> k" "k < numGenerals f" and "i \<noteq> k"
    and "\<not> sr_msg_lost rnd r i k" and "CurrentRound s \<le> r" and "2 \<le> r" "r < 2 ^ 31"
  shows "configured f rnd (send_one_message f rnd r (i, k) s)"
    and "CurrentRound (send_one_message f rnd r (i, k) s) \<le> r"
    and "held (send_one_message f rnd r (i, k) s) j r' =
      held s j r' + (if j = k \<and> r' = r then {#sent_value f rnd r i j#} else {#})"
proof -
  obtain g where g: "map_of (Generals s) i = Some g" "g_IsTraitor g = traitor f rnd i"
    by (rule configured_lookup [OF s f i])
  have reg: "registered s k" by (rule configured_registered [OF s f k])
  have r32: "i32 r = r" using assms(10,11) by (simp add: i32_simps)
  have eq: "send_one_message f rnd r (i, k) s
      = deliver r i k (sent_value f rnd r i k) (s\<lparr>CurrentRound := r\<rparr>)"
    using ExchangeMessage_accepts [of s "message_request f rnd r i k" g "sr_server_coin rnd r i k"]
      g reg assms(7,8,9)
    by (simp add: send_one_message_def message_request_def r32 client_at_eq [OF f i]
        client_at_eq [OF f k] client_of_def sent_value_def)
  show "configured f rnd (send_one_message f rnd r (i, k) s)"
    using s by (simp add: eq configured_def)
  show "CurrentRound (send_one_message f rnd r (i, k) s) \<le> r" by (simp add: eq)
  show "held (send_one_message f rnd r (i, k) s) j r' =
      held s j r' + (if j = k \<and> r' = r then {#sent_value f rnd r i j#} else {#})"
    using reg by (auto simp: eq held_deliver)
qed


definition round_values_of :: "sim_flags \<Rightarrow> sim_rnd \<Rightarrow> int \<Rightarrow> int \<Rightarrow> Decision multiset" where
  "round_values_of f rnd r j =
     (\<Sum>i\<in>{0..numGenerals f - 1} - {j}. {#sent_value f rnd r i j#})"

lemma pairs_product:
  "[(i, k). i \<leftarrow> xs, k \<leftarrow> ys, i \<noteq> k] = filter (\<lambda>(i, k). i \<noteq> k) (List.product xs ys)"
proof -
  have inner: "concat (map (\<lambda>k. if i \<noteq> k then [(i, k)] else []) zs)
      = filter (\<lambda>(i, k). i \<noteq> k) (map (Pair i) zs)" for i :: 'a and zs
    by (induction zs) auto
  show ?thesis by (induction xs) (simp_all add: inner)
qed

lemma mset_pairs_sum:
  fixes w :: "int \<Rightarrow> 'a"
  assumes "a \<le> j" and "j \<le> b"
  shows "(\<Sum>p\<in>#mset [(i, k). i \<leftarrow> [a..b], k \<leftarrow> [a..b], i \<noteq> k].
            if j = snd p then {#w (fst p)#} else {#}) = (\<Sum>i\<in>{a..b} - {j}. {#w i#})"
proof -
  let ?ps = "[(i, k). i \<leftarrow> [a..b], k \<leftarrow> [a..b], i \<noteq> k]"
  let ?S = "{(i, k). i \<in> {a..b} \<and> k \<in> {a..b} \<and> i \<noteq> k}"
  have set: "set ?ps = ?S" by auto
  have dist: "distinct ?ps"
    unfolding pairs_product by (intro distinct_filter distinct_product) simp_all
  have fin: "finite ?S" unfolding set [symmetric] by simp
  have "(\<Sum>p\<in>#mset ?ps. if j = snd p then {#w (fst p)#} else {#})
      = (\<Sum>p\<in>?S. if j = snd p then {#w (fst p)#} else {#})"
    using sum_list_distinct_conv_sum_set [OF dist] set
    by (simp add: sum_mset_sum_list flip: mset_map)
  also have "\<dots> = (\<Sum>p\<in>{p \<in> ?S. j = snd p}. {#w (fst p)#})"
    by (rule sum.inter_filter [OF fin, symmetric])
  also have "{p \<in> ?S. j = snd p} = (\<lambda>i. (i, j)) ` ({a..b} - {j})"
    using assms by auto
  also have "(\<Sum>p\<in>(\<lambda>i. (i, j)) ` ({a..b} - {j}). {#w (fst p)#}) = (\<Sum>i\<in>{a..b} - {j}. {#w i#})"
    by (subst sum.reindex) (auto simp: inj_on_def)
  finally show ?thesis .
qed

text \<open>What the messages of a round leave with general \<open>j\<close>.\<close>

lemma round_values_sum:
  assumes "0 \<le> j" and "j < numGenerals f"
  shows "(\<Sum>p\<in>#mset [(i, k). i \<leftarrow> [0..numGenerals f - 1], k \<leftarrow> [0..numGenerals f - 1], i \<noteq> k].
      if r' = (r::int) then (if j = snd p then {#sent_value f rnd r (fst p) j#} else {#}) else {#})
    = (if r' = r then round_values_of f rnd r j else {#})"
  using mset_pairs_sum [of 0 j "numGenerals f - 1" "\<lambda>i. sent_value f rnd r i j"] assms
  by (simp add: round_values_of_def)

lemma exchange_round_effect:
  assumes s: "configured f rnd s" and f: "flags_ok f" and rnd: "sim_rnd_ok f rnd"
    and nl: "nothing_lost rnd" and "CurrentRound s \<le> r" and "2 \<le> r" "r < 2 ^ 31"
  shows "configured f rnd (exchange_round f rnd r s) \<and> CurrentRound (exchange_round f rnd r s) \<le> r"
    and "0 \<le> j \<Longrightarrow> j < numGenerals f \<Longrightarrow>
      held (exchange_round f rnd r s) j r' =
        held s j r' + (if r' = r then round_values_of f rnd r j else {#})"
proof -
  define I where "I s \<longleftrightarrow> configured f rnd s \<and> CurrentRound s \<le> r" for s
  define d where "d j r' p = (if r' = r then
      (if j = snd p then {#sent_value f rnd r (fst p) j#} else {#}) else {#})"
    for j r' :: int and p :: "int \<times> int"
  have sched: "mset (sr_round_sched rnd r) =
      mset [(i, k). i \<leftarrow> [0..numGenerals f - 1], k \<leftarrow> [0..numGenerals f - 1], i \<noteq> k]"
    using rnd unfolding sim_rnd_ok_def by blast
  have "set (sr_round_sched rnd r) =
      set [(i, k). i \<leftarrow> [0..numGenerals f - 1], k \<leftarrow> [0..numGenerals f - 1], i \<noteq> k]"
    using sched by (rule mset_eq_setD)
  then have mem: "0 \<le> i \<and> i < numGenerals f \<and> 0 \<le> k \<and> k < numGenerals f \<and> i \<noteq> k"
    if "(i, k) \<in> set (sr_round_sched rnd r)" for i k
    using that by auto
  have step: "I (send_one_message f rnd r p s)
      \<and> held (send_one_message f rnd r p s) j r' = held s j r' + d j r' p"
    if p: "p \<in> set (sr_round_sched rnd r)" and "I s" for p s j r'
  proof -
    obtain i k where ik: "p = (i, k)" by (cases p)
    then show ?thesis
      using mem [of i k] that nl send_one_message_step [OF _ f, of rnd s i k r] assms(6,7)
      by (auto simp: I_def d_def nothing_lost_def)
  qed
  have fold: "I (exchange_round f rnd r s) \<and> held (exchange_round f rnd r s) j r'
      = held s j r' + (\<Sum>p\<in>#mset (sr_round_sched rnd r). d j r' p)" for j r'
    unfolding exchange_round_def
    using fold_additive [where I = I and h = "\<lambda>s. held s j r'" and d = "d j r'"] step s assms(5)
    by (auto simp: I_def)
  then show "configured f rnd (exchange_round f rnd r s) \<and> CurrentRound (exchange_round f rnd r s) \<le> r"
    by (simp add: I_def)
  assume "0 \<le> j" "j < numGenerals f"
  then have "(\<Sum>p\<in>#mset (sr_round_sched rnd r). d j r' p)
      = (if r' = r then round_values_of f rnd r j else {#})"
    unfolding sched d_def by (rule round_values_sum)
  with fold show "held (exchange_round f rnd r s) j r' =
      held s j r' + (if r' = r then round_values_of f rnd r j else {#})" by metis
qed

lemma exchange_rounds_effect:
  assumes f: "flags_ok f" and rnd: "sim_rnd_ok f rnd" and nl: "nothing_lost rnd"
    and s: "configured f rnd s" and "CurrentRound s \<le> a - 1" and "2 \<le> a" and "b < 2 ^ 31"
  shows "configured f rnd (fold (exchange_round f rnd) [a..b] s)
    \<and> (\<forall>j r. 0 \<le> j \<and> j < numGenerals f \<longrightarrow>
         held (fold (exchange_round f rnd) [a..b] s) j r =
           held s j r + (if a \<le> r \<and> r \<le> b then round_values_of f rnd r j else {#}))"
  using s assms(5,6)
proof (induction "nat (b - a + 1)" arbitrary: a s)
  case 0
  then show ?case by auto
next
  case (Suc n)
  then have ab: "a \<le> b" by simp
  have cr: "CurrentRound s \<le> a" "a < 2 ^ 31" using Suc.prems ab assms(7) by simp_all
  note e = exchange_round_effect [OF Suc.prems(1) f rnd nl cr(1) Suc.prems(3) cr(2)]
  have "configured f rnd (fold (exchange_round f rnd) [a + 1..b] (exchange_round f rnd a s))
    \<and> (\<forall>j r. 0 \<le> j \<and> j < numGenerals f \<longrightarrow>
         held (fold (exchange_round f rnd) [a + 1..b] (exchange_round f rnd a s)) j r =
           held (exchange_round f rnd a s) j r
           + (if a + 1 \<le> r \<and> r \<le> b then round_values_of f rnd r j else {#}))"
    using Suc.hyps(2) Suc.prems e(1) by (intro Suc.hyps(1)) auto
  then show ?case using e(2) ab by (auto simp: upto_rec1)
qed


subsection \<open>What a loyal general has counted\<close>

text \<open>The one configuration in which a tie can break the agreement.\<close>

definition tie_possible :: "sim_flags \<Rightarrow> bool" where
  "tie_possible f \<longleftrightarrow> commanderTraitor f \<and> numGenerals f = 4 \<and> initialOrder f = ATTACK"

lemma traitors_finite [simp]: "finite (traitors f rnd)"
  by (rule finite_subset [of _ "{0..<numGenerals f}"]) (auto simp: traitors_def)

lemma loyal_others:
  assumes "flags_ok f" and "0 \<le> j" and "j < numGenerals f" and "\<not> traitor f rnd j"
  shows "int (card ({0..numGenerals f - 1} - {j} - traitors f rnd))
           = numGenerals f - 1 - int (card (traitors f rnd))"
    and "({0..numGenerals f - 1} - {j}) \<inter> traitors f rnd = traitors f rnd"
proof -
  show eq: "({0..numGenerals f - 1} - {j}) \<inter> traitors f rnd = traitors f rnd"
    using assms by (auto simp: traitors_def)
  let ?A = "{0..numGenerals f - 1} - {j}"
  have "card (?A - traitors f rnd) = card ?A - card (traitors f rnd)"
    using card_Diff_subset_Int [of ?A "traitors f rnd"] eq by simp
  moreover have "card (traitors f rnd) \<le> card ?A"
    using eq by (metis Int_lower1 card_mono finite_Diff finite_atLeastAtMost_int)
  moreover have "int (card ?A) = numGenerals f - 1"
    using assms by (simp add: of_nat_diff)
  ultimately show "int (card (?A - traitors f rnd)) = numGenerals f - 1 - int (card (traitors f rnd))"
    by simp
qed

lemma round_votes:
  assumes "flags_ok f" and "0 \<le> j" and "j < numGenerals f" and "\<not> traitor f rnd j"
  shows "numGenerals f - 1 - int (card (traitors f rnd))
           \<le> int (votes (initialOrder f) (round_values_of f rnd r j))"
    and "votes (flip_value (initialOrder f)) (round_values_of f rnd r j) \<le> card (traitors f rnd)"
proof -
  let ?A = "{0..numGenerals f - 1} - {j}"
  have loyal: "sent_value f rnd r i j = initialOrder f" if "i \<in> ?A - traitors f rnd" for i
    using that by (intro sent_value_loyal) (auto simp: traitors_def)
  note k = votes_known [of ?A "traitors f rnd" "\<lambda>i. sent_value f rnd r i j", OF _ loyal initialOrder_cases]
  show "numGenerals f - 1 - int (card (traitors f rnd))
           \<le> int (votes (initialOrder f) (round_values_of f rnd r j))"
    using k(1) loyal_others(1) [OF assms] by (simp add: round_values_of_def)
  show "votes (flip_value (initialOrder f)) (round_values_of f rnd r j) \<le> card (traitors f rnd)"
    using k(2) loyal_others(2) [OF assms] by (simp add: round_values_of_def)
qed

lemma sum_list_lower_int:
  fixes F :: "'a \<Rightarrow> nat"
  assumes "\<And>x. x \<in> set xs \<Longrightarrow> lo \<le> int (F x)"
  shows "int (length xs) * lo \<le> int (\<Sum>x\<leftarrow>xs. F x)"
  using assms by (induction xs) (auto simp: algebra_simps add_mono)

lemma sum_list_upper_nat:
  fixes F :: "'a \<Rightarrow> nat"
  assumes "\<And>x. x \<in> set xs \<Longrightarrow> F x \<le> hi"
  shows "(\<Sum>x\<leftarrow>xs. F x) \<le> length xs * hi"
  using assms by (induction xs) (auto simp: add_mono)

definition counted :: "sim_flags \<Rightarrow> sim_rnd \<Rightarrow> int \<Rightarrow> Decision multiset" where
  "counted f rnd j =
     round1_values f rnd j
     + (\<Sum>r\<leftarrow>[2..int (card (traitors f rnd)) + 1]. round_values_of f rnd r j)"

lemma counted_votes:
  assumes "flags_ok f" and "0 \<le> j" and "j < numGenerals f" and "\<not> traitor f rnd j"
  defines "k \<equiv> int (card (traitors f rnd))" and "d \<equiv> initialOrder f"
  shows "int (votes d (round1_values f rnd j)) + k * (numGenerals f - 1 - k)
           \<le> int (votes d (counted f rnd j))"
    and "int (votes (flip_value d) (counted f rnd j))
           \<le> int (votes (flip_value d) (round1_values f rnd j)) + k * k"
proof -
  have len: "length [2..k + 1] = card (traitors f rnd)" and "0 \<le> k" by (simp_all add: k_def)
  have "int (length [2..k + 1]) * (numGenerals f - 1 - k)
      \<le> int (\<Sum>r\<leftarrow>[2..k + 1]. votes d (round_values_of f rnd r j))"
    using round_votes(1) [OF assms(1-4)] unfolding k_def d_def
    by (intro sum_list_lower_int) auto
  then show "int (votes d (round1_values f rnd j)) + k * (numGenerals f - 1 - k)
           \<le> int (votes d (counted f rnd j))"
    using \<open>0 \<le> k\<close> by (simp add: counted_def votes_sum_list flip: k_def)
  have "(\<Sum>r\<leftarrow>[2..k + 1]. votes (flip_value d) (round_values_of f rnd r j))
      \<le> length [2..k + 1] * card (traitors f rnd)"
    using round_votes(2) [OF assms(1-4)] unfolding d_def
    by (intro sum_list_upper_nat) auto
  then have "int (\<Sum>r\<leftarrow>[2..k + 1]. votes (flip_value d) (round_values_of f rnd r j)) \<le> k * k"
    unfolding len by (metis k_def of_nat_mono of_nat_mult)
  then show "int (votes (flip_value d) (counted f rnd j))
           \<le> int (votes (flip_value d) (round1_values f rnd j)) + k * k"
    by (simp add: counted_def votes_sum_list flip: k_def)
qed


lemma flip_initialOrder [simp]: "flip_value (initialOrder f) \<noteq> initialOrder f"
  by (auto simp: flip_value_def initialOrder_def)

lemma votes_const:
  assumes "finite A"
  shows "votes d (\<Sum>i\<in>A. {#v#}) = (if (v = ATTACK) = (d = ATTACK) then card A else 0)"
  by (simp add: votes_sum [OF assms])

lemma round1_votes_loyal:
  assumes "flags_ok f" and "2 \<le> numGenerals f" and "\<not> commanderTraitor f"
  shows "1 \<le> votes (initialOrder f) (round1_values f rnd j)"
    and "votes (flip_value (initialOrder f)) (round1_values f rnd j) = 0"
  using assms initialOrder_cases [of f]
  by (auto simp: round1_values_def votes_const order_value_def relay_value_def flip_value_def
      simp del: sum_constant)

lemma round1_votes_lieutenant:
  assumes "j \<noteq> 0"
  shows "votes (initialOrder f) (round1_values f rnd j)
      + votes (flip_value (initialOrder f)) (round1_values f rnd j) = 1"
  using assms initialOrder_cases [of f]
  by (auto simp: round1_values_def flip_value_def)

lemma vote_arith_loyal:
  fixes k n a b u v :: int
  assumes "0 \<le> k" and "3 * k < n" and "1 \<le> u" and "v = 0"
    and "u + k * (n - 1 - k) \<le> a" and "b \<le> v + k * k"
  shows "b < a"
proof -
  have "k * k \<le> k * (n - 1 - k)" using assms(1,2) by (intro mult_left_mono) auto
  with assms show ?thesis by linarith
qed

lemma vote_arith_traitor:
  fixes k n a b u v :: int
  assumes "1 \<le> k" and "k < 4" and "3 * k < n" and "0 \<le> u" and "u + v = 1"
    and "u + k * (n - 1 - k) \<le> a" and "b \<le> v + k * k"
  shows "b \<le> a" and "n \<noteq> 4 \<Longrightarrow> b < a"
proof -
  consider "k = 1" | "k = 2" | "k = 3" using assms(1,2) by linarith
  then have "b \<le> a \<and> (n \<noteq> 4 \<longrightarrow> b < a)"
  proof cases
    case 1
    have "u + (n - 2) \<le> a" "b \<le> v + 1" using assms(6,7) 1 by simp_all
    with assms(3-5) 1 show ?thesis by presburger
  next
    case 2
    have "u + 2 * (n - 3) \<le> a" "b \<le> v + 4" using assms(6,7) 2 by simp_all
    with assms(3-5) 2 show ?thesis by presburger
  next
    case 3
    have "u + 3 * (n - 4) \<le> a" "b \<le> v + 9" using assms(6,7) 3 by simp_all
    with assms(3-5) 3 show ?thesis by presburger
  qed
  then show "b \<le> a" and "n \<noteq> 4 \<Longrightarrow> b < a" by auto
qed

text \<open>Loyal generals count a majority for the initial order.\<close>

lemma counted_majority:
  assumes f: "flags_ok f" and rnd: "sim_rnd_ok f rnd" and n: "2 \<le> numGenerals f"
    and j: "0 \<le> j" "j < numGenerals f" "\<not> traitor f rnd j" and "\<not> tie_possible f"
  shows "majority (attacks (counted f rnd j), retreats (counted f rnd j)) = initialOrder f"
    and "j = 0 \<Longrightarrow> counted f rnd j \<noteq> {#}"
proof -
  define k where "k = int (card (traitors f rnd))"
  have k: "0 \<le> k" "k < 4" "3 * k < numGenerals f"
    using card_traitors_le [OF f rnd] f by (auto simp: k_def flags_ok_def)
  let ?d = "initialOrder f"
  note c = counted_votes [OF f j, folded k_def]
  have "votes (flip_value ?d) (counted f rnd j) < votes ?d (counted f rnd j)
      \<or> ?d = RETREAT \<and> votes (flip_value ?d) (counted f rnd j) \<le> votes ?d (counted f rnd j)"
  proof (cases "commanderTraitor f")
    case False
    have "int (votes (flip_value ?d) (counted f rnd j)) < int (votes ?d (counted f rnd j))"
      using round1_votes_loyal [OF f n False, of rnd j]
      by (intro vote_arith_loyal [OF k(1,3) _ _ c]) simp_all
    then show ?thesis by simp
  next
    case True
    then have "0 \<in> traitors f rnd"
      using f by (auto simp: traitors_def traitor_def flags_ok_def)
    then have k1: "1 \<le> k" by (auto simp: k_def card_gt_0_iff Suc_le_eq)
    have "j \<noteq> 0" using True j(3) by (auto simp: traitor_def)
    note r1 = round1_votes_lieutenant [OF this, of f rnd]
    have uv: "int (votes ?d (round1_values f rnd j))
        + int (votes (flip_value ?d) (round1_values f rnd j)) = 1"
      using r1 by linarith
    note arith = vote_arith_traitor [OF k1 k(2,3) _ uv c]
    show ?thesis
      using arith True assms(7) initialOrder_cases [of f] by (auto simp: tie_possible_def)
  qed
  then show "majority (attacks (counted f rnd j), retreats (counted f rnd j)) = ?d"
    using initialOrder_cases [of f] by (intro majority_votes) auto
  assume "j = 0"
  with j(3) have "\<not> commanderTraitor f" by (simp add: traitor_def)
  from round1_votes_loyal(1) [OF f n this, of rnd j] show "counted f rnd j \<noteq> {#}"
    by (auto simp: counted_def)
qed


subsection \<open>The state after all phases\<close>

lemma run_phases_effect:
  assumes f: "flags_ok f" and rnd: "sim_rnd_ok f rnd" and nl: "nothing_lost rnd"
    and s: "configured f rnd s" and empty: "\<forall>j r. held s j r = {#}" and "CurrentRound s = 0"
  shows "configured f rnd (run_phases f rnd s)"
    and "0 \<le> j \<Longrightarrow> j < numGenerals f \<Longrightarrow>
      held (run_phases f rnd s) j r =
        (if r = 1 then round1_values f rnd j else {#})
        + (if 2 \<le> r \<and> r \<le> numTraitors f + 1 then round_values_of f rnd r j else {#})"
proof -
  have c1: "CurrentRound s \<le> 1" using assms(6) by simp
  note o = send_orders_effect [OF s f rnd nl c1]
  have b: "numTraitors f + 1 < 2 ^ 31" using f by (simp add: flags_ok_def)
  have "CurrentRound (send_orders f rnd s) \<le> 2 - 1" using o(1) by simp
  note e = exchange_rounds_effect [OF f rnd nl conjunct1 [OF o(1)] this _ b]
  from e show "configured f rnd (run_phases f rnd s)"
    by (simp add: run_phases_def exchange_rounds_def)
  assume "0 \<le> j" "j < numGenerals f"
  with e o(2) empty show "held (run_phases f rnd s) j r =
        (if r = 1 then round1_values f rnd j else {#})
        + (if 2 \<le> r \<and> r \<le> numTraitors f + 1 then round_values_of f rnd r j else {#})"
    by (simp add: run_phases_def exchange_rounds_def)
qed

text \<open>The state in which the phases leave the server when nothing is lost.\<close>

definition all_heard :: "sim_flags \<Rightarrow> sim_rnd \<Rightarrow> ByzantineServer \<Rightarrow> bool" where
  "all_heard f rnd s \<longleftrightarrow> configured f rnd s
     \<and> (\<forall>j r. 0 \<le> j \<and> j < numGenerals f \<longrightarrow> held s j r =
          (if r = 1 then round1_values f rnd j else {#})
          + (if 2 \<le> r \<and> r \<le> numTraitors f + 1 then round_values_of f rnd r j else {#}))"

lemma run_phases_heard:
  assumes "flags_ok f" and "sim_rnd_ok f rnd" and "nothing_lost rnd"
    and "configured f rnd s" and "\<forall>j r. held s j r = {#}" and "CurrentRound s = 0"
  shows "all_heard f rnd (run_phases f rnd s)"
  using run_phases_effect [OF assms] by (simp add: all_heard_def)

text \<open>A loyal general counts exactly the values of rounds 1 to MaxRounds.\<close>

lemma counted_is_log:
  assumes "map_of (Generals s) j = Some g"
    and held: "\<And>r. held s j r =
        (if r = 1 then round1_values f rnd j else {#})
        + (if 2 \<le> r \<and> r \<le> T then round_values_of f rnd r j else {#})"
    and "int (card (traitors f rnd)) + 1 \<le> T"
  shows "values_upto (g_Messages g) (int (card (traitors f rnd)) + 1) = counted f rnd j"
proof -
  let ?k = "int (card (traitors f rnd)) + 1"
  have rv: "round_values (g_Messages g) r = held s j r" for r
    using assms(1) by (simp add: held_def)
  have "[1..?k] = 1 # [2..?k]" by (simp add: upto_rec1)
  moreover have "(\<Sum>r\<leftarrow>[2..?k]. held s j r) = (\<Sum>r\<leftarrow>[2..?k]. round_values_of f rnd r j)"
    using assms(3) by (intro arg_cong [where f = sum_list] map_cong) (auto simp: held)
  ultimately show ?thesis
    by (simp add: values_upto_def rv counted_def held [of 1])
qed

lemma makeDecision_loyal:
  assumes "\<not> g_IsTraitor g" and "values_upto (g_Messages g) R = M"
    and "majority (attacks M, retreats M) = d" and "g_Role g = COMMANDER \<Longrightarrow> M \<noteq> {#}"
  shows "makeDecision gs order coin g R = d"
proof -
  have "\<not> (g_Role g = COMMANDER \<and> attacks M = 0 \<and> retreats M = 0)"
    using assms(4) attacks_plus_retreats [of M] by (auto simp: nonempty_has_size)
  then show ?thesis
    using assms(1-3) by (auto simp: makeDecision_def count_rounds_values Let_def)
qed

text \<open>After the phases a loyal general decides by the majority of what it has counted.\<close>

lemma loyal_counts:
  assumes f: "flags_ok f" and rnd: "sim_rnd_ok f rnd" and heard: "all_heard f rnd s"
    and g: "map_of (Generals s) j = Some g" "\<not> g_IsTraitor g"
  shows "0 \<le> j \<and> j < numGenerals f \<and> \<not> traitor f rnd j"
    and "(j = 0 \<Longrightarrow> counted f rnd j \<noteq> {#}) \<Longrightarrow>
      decide_at s crnd k g = majority (attacks (counted f rnd j), retreats (counted f rnd j))"
proof -
  have conf: "configured f rnd s" using heard by (simp add: all_heard_def)
  have "map_of (profile s) j \<noteq> None" using g by (simp add: profile_lookup)
  then have j: "0 \<le> j" "j < numGenerals f"
    using conf
    by (auto simp: configured_def all_clients_eq [OF f] client_profile_def client_of_def
        dest!: map_of_SomeD)
  have role: "g_Role g = (if j = 0 then COMMANDER else LIEUTENANT)" "\<not> traitor f rnd j"
    using configured_lookup [OF conf f j] g by (metis option.inject)+
  then show "0 \<le> j \<and> j < numGenerals f \<and> \<not> traitor f rnd j" using j by simp
  have max: "MaxRounds s = int (card (traitors f rnd)) + 1"
    using conf by (simp add: configured_def traitor_count_eq [OF f])
  have log: "values_upto (g_Messages g) (MaxRounds s) = counted f rnd j"
    unfolding max
    by (rule counted_is_log [OF g(1), where T = "numTraitors f + 1"])
       (use heard j card_traitors_le [OF f rnd] in \<open>simp_all add: all_heard_def\<close>)
  assume "j = 0 \<Longrightarrow> counted f rnd j \<noteq> {#}"
  then show "decide_at s crnd k g = majority (attacks (counted f rnd j), retreats (counted f rnd j))"
    unfolding decide_at_def
    using role(1) by (intro makeDecision_loyal [OF g(2) log refl]) (auto split: if_splits)
qed

lemma loyal_decision:
  assumes f: "flags_ok f" and rnd: "sim_rnd_ok f rnd"
    and n: "2 \<le> numGenerals f" and tie: "\<not> tie_possible f" and heard: "all_heard f rnd s"
    and g: "map_of (Generals s) j = Some g" "\<not> g_IsTraitor g"
  shows "decide_at s crnd k g = initialOrder f"
proof -
  have j: "0 \<le> j" "j < numGenerals f" "\<not> traitor f rnd j" using loyal_counts(1) [OF f rnd heard g] by simp_all
  note m = counted_majority [OF f rnd n j tie]
  show ?thesis using loyal_counts(2) [OF f rnd heard g, of crnd k] m by metis
qed

subsection \<open>GetConsensus when the loyal generals agree\<close>

lemma count_vote_loyal:
  "fst (snd (snd (count_vote c v))) =
     fst (snd (snd c)) + (if \<not> fst v \<and> snd v = ATTACK then 1 else 0)"
  "snd (snd (snd (count_vote c v))) =
     snd (snd (snd c)) + (if \<not> fst v \<and> snd v \<noteq> ATTACK then 1 else 0)"
  by (auto simp: count_vote_def split: prod.split)

lemma count_votes_loyal:
  assumes "\<forall>v \<in> set vs. \<not> fst v \<longrightarrow> snd v = d"
  shows "snd (snd (foldl count_vote c vs)) =
    (fst (snd (snd c)) + (if d = ATTACK then length (filter (\<lambda>v. \<not> fst v) vs) else 0),
     snd (snd (snd c)) + (if d = ATTACK then 0 else length (filter (\<lambda>v. \<not> fst v) vs)))"
  using assms
proof (induction vs arbitrary: c)
  case Nil
  then show ?case by simp
next
  case (Cons v vs)
  then have "snd (snd (foldl count_vote (count_vote c v) vs)) =
    (fst (snd (snd (count_vote c v))) + (if d = ATTACK then length (filter (\<lambda>v. \<not> fst v) vs) else 0),
     snd (snd (snd (count_vote c v))) + (if d = ATTACK then 0 else length (filter (\<lambda>v. \<not> fst v) vs)))"
    by simp
  with Cons.prems show ?case by (auto simp: count_vote_loyal)
qed

lemma GetConsensus_agreed:
  assumes loyal: "\<And>i g k. (i, g) \<in> set (Generals s) \<Longrightarrow> \<not> g_IsTraitor g \<Longrightarrow> decide_at s crnd k g = d"
    and "d = ATTACK \<or> d = RETREAT"
    and some: "(i, g) \<in> set (Generals s)" "\<not> g_IsTraitor g"
    and "registered s me"
  shows "con_ConsensusReached (GetConsensus s crnd me)"
proof -
  let ?vs = "map (\<lambda>(_, g). (g_IsTraitor g, decide_at s crnd 1 g)) (Generals s)"
  let ?l = "length (filter (\<lambda>v. \<not> fst v) ?vs)"
  have "\<forall>v \<in> set ?vs. \<not> fst v \<longrightarrow> snd v = d" using loyal by auto
  from count_votes_loyal [OF this, of "(0, 0, 0, 0)"] obtain a r where
    c: "count_votes s crnd = (a, r, if d = ATTACK then ?l else 0, if d = ATTACK then 0 else ?l)"
    unfolding count_votes_def by (cases "foldl count_vote (0, 0, 0, 0) ?vs") auto
  have "(g_IsTraitor g, decide_at s crnd 1 g) \<in> set (filter (\<lambda>v. \<not> fst v) ?vs)"
    using some by force
  then have "0 < ?l" using length_pos_if_in_set by fast
  then have "(if (if d = ATTACK then ?l else 0) > (if d = ATTACK then 0 else ?l) then ATTACK else RETREAT) = d"
    using assms(2) by auto
  moreover have "all_loyal_agree s crnd d"
    using loyal by (auto simp: all_loyal_agree_def list_all_iff)
  ultimately show ?thesis
    using assms(5) by (auto simp: GetConsensus_def registered_def c Let_def split: option.split)
qed

end
