(* ===== verification/Byz_Theorems.thy ===== *)
theory Byz_Theorems
  imports Byz_Consensus
begin

text \<open>
  The properties of the Byzantine simulation: the invariant of the server's state, the
  specification of its handlers, agreement and validity of a run, and the two configurations
  in which the program does not do what its README promises.
\<close>

subsection \<open>Reachable states of the server\<close>

inductive server_step :: "ByzantineServer \<Rightarrow> ByzantineServer \<Rightarrow> bool" where
  register: "server_step s (fst (RegisterGeneral s req))"
| order: "server_step s (fst (SendOrder coin s oreq))"
| exchange: "server_step s (fst (ExchangeMessage coin s mreq))"

inductive server_reachable :: "ByzantineServer \<Rightarrow> bool" where
  start: "server_reachable NewByzantineServer"
| step: "server_reachable s \<Longrightarrow> server_step s s' \<Longrightarrow> server_reachable s'"

definition server_wf :: "ByzantineServer \<Rightarrow> bool" where
  "server_wf s \<longleftrightarrow>
     gmap_ok (Generals s) \<and> (\<forall>(i, g) \<in> set (Generals s). g_ID g = i)
     \<and> NumGenerals s = i32 (int (length (Generals s)))
     \<and> NumTraitors s = i32 (int (length (filter (\<lambda>(_, g). g_IsTraitor g) (Generals s))))
     \<and> MaxRounds s = (if Generals s = [] then 0 else i32 (NumTraitors s + 1))"

definition counters :: "ByzantineServer \<Rightarrow> int \<times> int \<times> int" where
  "counters s = (NumGenerals s, NumTraitors s, MaxRounds s)"

lemma i32_i32_plus: "i32 (i32 x + 1) = i32 (x + 1)"
proof -
  have "((x + 2 ^ 31) mod 2 ^ 32 + 1) mod 2 ^ 32 = (x + 2 ^ 31 + 1) mod (2 ^ 32 :: int)"
    by (simp add: mod_simps)
  then show ?thesis by (simp add: i32_def algebra_simps)
qed

lemma i32_succ: "i32 (i32 x + 1) = i32 (1 + x)"
  using i32_i32_plus [of x] by (simp add: add.commute)

lemma server_wf_profile:
  assumes "profile s' = profile s" and "counters s' = counters s"
  shows "server_wf s' = server_wf s"
proof -
  have keys: "map fst (Generals t) = map fst (profile t)" for t
    by (simp add: profile_def case_prod_unfold)
  have ids: "(\<forall>(i, g) \<in> set (Generals t). g_ID g = i) \<longleftrightarrow> (\<forall>(i, p) \<in> set (profile t). fst p = i)" for t
    by (auto simp: profile_def)
  have len: "length (Generals t) = length (profile t)" for t by (simp add: profile_def)
  have tr: "length (filter (\<lambda>(_, g). g_IsTraitor g) (Generals t))
      = length (filter (\<lambda>(_, p). snd (snd p)) (profile t))" for t
    by (simp add: profile_def filter_map o_def case_prod_unfold)
  have nil: "(Generals t = []) = (profile t = [])" for t by (simp add: profile_def)
  show ?thesis
    using assms unfolding server_wf_def gmap_ok_def keys ids len tr nil
    by (simp add: counters_def)
qed

lemma handler_frame:
  "profile (fst (SendOrder coin s req)) = profile s"
  "counters (fst (SendOrder coin s req)) = counters s"
  "profile (fst (ExchangeMessage coin s mreq)) = profile s"
  "counters (fst (ExchangeMessage coin s mreq)) = counters s"
proof -
  have upd: "profile (update_general i (store_message r k v) t) = profile t"
    "counters (update_general i (store_message r k v) t) = counters t" for i r k v t
    using deliver_frame(1) [of r k i v t] by (simp_all add: deliver_def counters_def)
  have rnd: "counters (t\<lparr>CurrentRound := c\<rparr>) = counters t" for t c by (simp add: counters_def)
  show "profile (fst (SendOrder coin s req)) = profile s"
    "counters (fst (SendOrder coin s req)) = counters s"
    by (simp_all add: SendOrder_def Let_def upd rnd split: option.split)
  show "profile (fst (ExchangeMessage coin s mreq)) = profile s"
    "counters (fst (ExchangeMessage coin s mreq)) = counters s"
    by (simp_all add: ExchangeMessage_def Let_def upd rnd split: option.split)
qed

lemma RegisterGeneral_wf:
  assumes "server_wf s"
  shows "server_wf (fst (RegisterGeneral s req))"
proof (cases "map_of (Generals s) (reg_Id req)")
  case (Some g)
  with assms show ?thesis by (simp add: RegisterGeneral_def)
next
  case None
  then have "reg_Id req \<notin> set (map fst (Generals s))"
    by (simp add: map_of_eq_None_iff)
  with assms None show ?thesis
    by (auto simp: server_wf_def RegisterGeneral_def Let_def gput_absent gmap_ok_def
        i32_succ)
qed

lemma server_step_wf: "server_step s s' \<Longrightarrow> server_wf s \<Longrightarrow> server_wf s'"
  using RegisterGeneral_wf server_wf_profile [OF handler_frame(1,2)]
    server_wf_profile [OF handler_frame(3,4)]
  by (auto elim!: server_step.cases)

text \<open>In every state the server can reach, each general is stored under its own id and no
  id twice, NumGenerals and NumTraitors count the generals and the traitors (as int32), and
  MaxRounds is one more than the number of traitors.\<close>

lemma server_invariant: "server_reachable s \<Longrightarrow> server_wf s"
proof (induction rule: server_reachable.induct)
  case start
  show ?case by (simp add: server_wf_def NewByzantineServer_def i32_def)
next
  case (step s s')
  then show ?case by (blast intro: server_step_wf)
qed

lemma server_invariant_witness:
  "server_wf (fst (RegisterGeneral NewByzantineServer
     \<lparr>reg_Id = 7, reg_Role = COMMANDER, reg_IsTraitor = True\<rparr>))"
  by (rule server_invariant, rule server_reachable.step [OF server_reachable.start])
     (rule server_step.register)

subsection \<open>Logs only grow\<close>

lemma update_general_held:
  "held s j r' \<subseteq># held (update_general i (store_message r k v) s) j r'"
proof (cases "registered s i")
  case True
  from held_deliver [OF this, of r k v j r'] show ?thesis by (simp add: deliver_def)
next
  case False
  then show ?thesis by (simp add: update_general_def registered_def)
qed

lemma update_general_held2:
  "held s j r' \<subseteq>#
     held (update_general i (store_message r k v) (update_general i' (store_message q k' v') s)) j r'"
  by (rule subset_mset.order_trans [OF update_general_held update_general_held])

lemma RegisterGeneral_frame:
  "held (fst (RegisterGeneral s req)) = held s"
  "CurrentRound (fst (RegisterGeneral s req)) = CurrentRound s"
proof -
  have "held (fst (RegisterGeneral s req)) = held s
      \<and> CurrentRound (fst (RegisterGeneral s req)) = CurrentRound s"
    using RegisterGeneral_new(3,6) [of s req]
    by (cases "registered s (reg_Id req)") (auto simp: RegisterGeneral_def registered_def)
  then show "held (fst (RegisterGeneral s req)) = held s"
    "CurrentRound (fst (RegisterGeneral s req)) = CurrentRound s" by auto
qed

text \<open>Over any step of the server, whatever request arrives, CurrentRound never decreases
  (starting from a round that is not negative) and no general loses a value it holds.\<close>

lemma server_step_monotone:
  assumes "server_step s s'" and "0 \<le> CurrentRound s"
  shows "CurrentRound s \<le> CurrentRound s' \<and> held s j r \<subseteq># held s' j r"
  using assms
proof (induction rule: server_step.induct)
  case (register s req)
  then show ?case by (simp add: RegisterGeneral_frame)
next
  case (order s coin req)
  then show ?case
    by (auto simp: SendOrder_def Let_def update_general_held2 split: option.split)
next
  case (exchange s coin req)
  then show ?case
    using update_general_held [of "s\<lparr>CurrentRound := msg_Round req\<rparr>"]
    by (auto simp: ExchangeMessage_def Let_def update_general_held split: option.split)
qed

subsection \<open>makeDecision and ExchangeMessage against their specification\<close>

text \<open>C23. A loyal lieutenant decides by the majority over all values of rounds 1 to MaxRounds,
  with RETREAT on a tie: only how often ATTACK and anything else occurs counts, not the
  order in which Go visits rounds, senders or generals.\<close>

theorem makeDecision_is_majority:
  assumes "\<not> g_IsTraitor g" and "g_Role g \<noteq> COMMANDER"
  shows "makeDecision gs order coin g R =
    (if size (filter_mset (\<lambda>d. d = ATTACK) (values_upto (g_Messages g) R))
        > size (filter_mset (\<lambda>d. d \<noteq> ATTACK) (values_upto (g_Messages g) R))
     then ATTACK else RETREAT)"
  using assms
  by (simp add: makeDecision_def count_rounds_values majority_def Let_def attacks_def retreats_def)

theorem makeDecision_is_majority_witness:
  "makeDecision [] [] True
     \<lparr>g_ID = 3, g_Role = LIEUTENANT, g_IsTraitor = False,
      g_Messages = [(1, [(0, [ATTACK])]), (2, [(0, [RETREAT]), (2, [ATTACK])])],
      g_FinalDecision = ATTACK\<rparr> 2 = ATTACK"
proof -
  let ?g = "\<lparr>g_ID = 3, g_Role = LIEUTENANT, g_IsTraitor = False,
      g_Messages = [(1, [(0, [ATTACK])]), (2, [(0, [RETREAT]), (2, [ATTACK])])],
      g_FinalDecision = ATTACK\<rparr>"
  have "values_upto (g_Messages ?g) 2 = {#ATTACK, RETREAT, ATTACK#}"
    by (simp add: values_upto_def round_values_def sender_values_def upto_rec1)
  with makeDecision_is_majority [of ?g "[]" "[]" True 2] show ?thesis by simp
qed

text \<open>When ExchangeMessage accepts a request.\<close>

definition acceptable :: "ByzantineServer \<Rightarrow> MessageRequest \<Rightarrow> bool" where
  "acceptable s req \<longleftrightarrow>
     registered s (msg_SenderId req) \<and> registered s (msg_ReceiverId req)
     \<and> CurrentRound s \<le> msg_Round req \<and> msg_ReceiverId req \<notin> set (msg_Path req)"

text \<open>C22. ExchangeMessage answers Received = true exactly when both ends are registered, the
  round is not over and the receiver is not on the path. Then exactly one value, turned round
  by a traitor whose coin says so, is added to the receiver's log for that round; otherwise all
  generals stay as they were.\<close>

theorem ExchangeMessage_spec:
  "(rcv_Received (snd (ExchangeMessage coin s req)) \<longleftrightarrow> acceptable s req)
   \<and> (if acceptable s req
      then held (fst (ExchangeMessage coin s req)) j r = held s j r
        + (if j = msg_ReceiverId req \<and> r = msg_Round req
           then {#relay_value (g_IsTraitor (the (map_of (Generals s) (msg_SenderId req)))) coin
                    (msg_Value req)#} else {#})
      else Generals (fst (ExchangeMessage coin s req)) = Generals s)"
proof (cases "acceptable s req")
  case True
  then obtain g where g: "map_of (Generals s) (msg_SenderId req) = Some g"
    by (auto simp: acceptable_def registered_def)
  with True show ?thesis
    using ExchangeMessage_accepts [OF g, of coin] by (simp add: acceptable_def held_deliver)
next
  case False
  then show ?thesis
    by (auto simp: acceptable_def ExchangeMessage_def registered_def Let_def split: option.split)
qed

subsection \<open>Agreement of a run\<close>

lemma validate_inputs_ok: "flags_ok f \<Longrightarrow> validate_inputs f = None"
  by (simp add: flags_ok_def validate_inputs_def i32_simps)

lemma collect_keeps: "d \<noteq> '''' \<Longrightarrow> collect s rnd (b, d) cs = (b, d)"
  by (induction cs) (simp_all add: Let_def)

lemma GetConsensus_details:
  "registered s i \<Longrightarrow> con_Details (GetConsensus s crnd i) \<noteq> ''''"
  by (auto simp: GetConsensus_def registered_def consensus_details_def Let_def
      split: option.split prod.split)

lemma run_simulation_finishes:
  assumes f: "flags_ok f" and rnd: "sim_rnd_ok f rnd"
  obtains s0 where "configured f rnd s0" and "\<forall>j r. held s0 j r = {#}" and "CurrentRound s0 = 0"
    and "run_simulation f rnd NewByzantineServer =
      (run_phases f rnd s0,
       Finished (fst (collect (run_phases f rnd s0) rnd (False, '''') (all_clients f rnd)))
                (snd (collect (run_phases f rnd s0) rnd (False, '''') (all_clients f rnd))))"
proof -
  obtain s0 where s0: "register_generals f rnd NewByzantineServer = Inr s0" "configured f rnd s0"
      "\<forall>j r. held s0 j r = {#}" "CurrentRound s0 = 0"
    by (rule register_generals_ok [OF f rnd])
  have "\<not> int (traitor_count f rnd) > numTraitors f"
    using card_traitors_le [OF f rnd] by (simp add: traitor_count_eq [OF f])
  moreover have "\<not> (numGenerals f < 0 \<or> numTraitors f < 0)" using f by (simp add: flags_ok_def)
  ultimately have "run_simulation f rnd NewByzantineServer =
      (run_phases f rnd s0,
       Finished (fst (collect (run_phases f rnd s0) rnd (False, '''') (all_clients f rnd)))
                (snd (collect (run_phases f rnd s0) rnd (False, '''') (all_clients f rnd))))"
    using s0(1) by (simp add: run_simulation_def validate_inputs_ok [OF f] Let_def)
  with s0 show ?thesis by (intro that) auto
qed

text \<open>The state after the phases: which generals are loyal, and what they decide.\<close>

lemma heard_generals:
  assumes f: "flags_ok f" and rnd: "sim_rnd_ok f rnd" and heard: "all_heard f rnd s"
  shows "distinct (map fst (Generals s))" and "registered s 0"
    and "0 \<le> j \<Longrightarrow> j < numGenerals f \<Longrightarrow> \<not> traitor f rnd j \<Longrightarrow> \<exists>g. (j, g) \<in> set (Generals s) \<and> \<not> g_IsTraitor g"
proof -
  have conf: "configured f rnd s" using heard by (simp add: all_heard_def)
  have "distinct (map fst (profile s))"
    using conf by (simp add: configured_def all_clients_eq [OF f] client_profile_def client_of_def o_def)
  then show "distinct (map fst (Generals s))"
    by (simp add: profile_def case_prod_unfold o_def)
  show "registered s 0"
    using configured_registered [OF conf f, of 0] f by (simp add: flags_ok_def)
  assume "0 \<le> j" "j < numGenerals f" "\<not> traitor f rnd j"
  moreover from this obtain g where "map_of (Generals s) j = Some g" "g_IsTraitor g = traitor f rnd j"
    using configured_lookup [OF conf f, of j] by metis
  ultimately show "\<exists>g. (j, g) \<in> set (Generals s) \<and> \<not> g_IsTraitor g"
    by (blast dest: map_of_SomeD)
qed

lemma heard_loyal:
  assumes f: "flags_ok f" and n: "2 \<le> numGenerals f" and rnd: "sim_rnd_ok f rnd"
    and tie: "\<not> tie_possible f" and heard: "all_heard f rnd s"
  shows "(j, g) \<in> set (Generals s) \<Longrightarrow> \<not> g_IsTraitor g \<Longrightarrow> decide_at s crnd k g = initialOrder f"
    and "\<exists>j g. (j, g) \<in> set (Generals s) \<and> \<not> g_IsTraitor g"
    and "registered s 0"
proof -
  note gs = heard_generals [OF f rnd heard]
  show "decide_at s crnd k g = initialOrder f"
    if "(j, g) \<in> set (Generals s)" "\<not> g_IsTraitor g"
    using that gs(1) loyal_decision [OF f rnd n tie heard] by auto
  have "card (traitors f rnd) < card {0..<numGenerals f}"
    using card_traitors_le [OF f rnd] f by (auto simp: flags_ok_def)
  then have "\<not> {0..<numGenerals f} \<subseteq> traitors f rnd"
    using card_mono [OF traitors_finite] by (meson leD)
  then have "\<exists>j. 0 \<le> j \<and> j < numGenerals f \<and> \<not> traitor f rnd j"
    by (auto simp: traitors_def)
  then show "\<exists>j g. (j, g) \<in> set (Generals s) \<and> \<not> g_IsTraitor g" using gs(3) by blast
  show "registered s 0" by (rule gs(2))
qed

text \<open>The collection takes over what the first answer of GetConsensus says.\<close>

lemma collect_first:
  assumes "registered s 0"
  shows "fst (collect s rnd (False, '''') (all_clients f rnd)) = con_ConsensusReached (GetConsensus s (sr_consensus rnd 0) 0)"
  by (simp add: all_clients_def commander_client_def Let_def collect_keeps [OF GetConsensus_details [OF assms]])

text \<open>The collection of the decisions reports consensus.\<close>

lemma heard_collect:
  assumes "flags_ok f" and "2 \<le> numGenerals f" and "sim_rnd_ok f rnd"
    and "\<not> tie_possible f" and "all_heard f rnd s"
  shows "fst (collect s rnd (False, '''') (all_clients f rnd))"
proof -
  note l = heard_loyal [OF assms]
  obtain j g where "(j, g) \<in> set (Generals s)" "\<not> g_IsTraitor g" using l(2) by blast
  then have "con_ConsensusReached (GetConsensus s (sr_consensus rnd 0) 0)"
    by (intro GetConsensus_agreed [OF l(1) initialOrder_cases _ _ l(3)])
  then show ?thesis by (simp add: collect_first [OF l(3)])
qed

text \<open>C5. Agreement and validity. On a fresh server, for every choice of traitors, coins and
  message order in which nothing is lost, a run with at least two generals and flags that
  pass the checks finishes with consensus reached, and every loyal general decides the commander's
  initial order, loyal commander or not, except for four generals whose one traitor is the commander with order ATTACK.\<close>

theorem simulation_consensus:
  assumes f: "flags_ok f" and n: "2 \<le> numGenerals f" and rnd: "sim_rnd_ok f rnd"
    and nl: "nothing_lost rnd" and tie: "\<not> tie_possible f"
  shows "\<exists>s details. run_simulation f rnd NewByzantineServer = (s, Finished True details)
     \<and> (\<forall>(j, g) \<in> set (Generals s). \<not> g_IsTraitor g \<longrightarrow>
          (\<forall>crnd k. decide_at s crnd k g = initialOrder f))"
proof -
  obtain s0 where s0: "configured f rnd s0" "\<forall>j r. held s0 j r = {#}" "CurrentRound s0 = 0"
    and run: "run_simulation f rnd NewByzantineServer =
      (run_phases f rnd s0,
       Finished (fst (collect (run_phases f rnd s0) rnd (False, '''') (all_clients f rnd)))
                (snd (collect (run_phases f rnd s0) rnd (False, '''') (all_clients f rnd))))"
    by (rule run_simulation_finishes [OF f rnd])
  have heard: "all_heard f rnd (run_phases f rnd s0)" by (rule run_phases_heard [OF f rnd nl s0])
  from run heard_loyal(1) [OF f n rnd tie heard] heard_collect [OF f n rnd tie heard]
  show ?thesis by auto
qed

text \<open>Runs to evaluate: \<open>n\<close> generals, the given coins, everything in numerical order.\<close>

definition example_flags :: "int \<Rightarrow> int \<Rightarrow> bool \<Rightarrow> sim_flags" where
  "example_flags n t c =
     \<lparr>numGenerals = n, numTraitors = t, decision_flag = ''ATTACK'', commanderTraitor = c\<rparr>"

definition example_rnd ::
  "int \<Rightarrow> int \<Rightarrow> (int \<Rightarrow> bool) \<Rightarrow> (int \<Rightarrow> int \<Rightarrow> int \<Rightarrow> bool) \<Rightarrow> sim_rnd" where
  "example_rnd n a oc sc =
     \<lparr>sr_actual = a, sr_shuffled = [1..n - 1], sr_order_sched = [1..n - 1], sr_order_coin = oc,
      sr_order_lost = (\<lambda>_. False),
      sr_round_sched = (\<lambda>_. [(i, j). i \<leftarrow> [0..n - 1], j \<leftarrow> [0..n - 1], i \<noteq> j]),
      sr_client_coin = (\<lambda>_ _ _. False), sr_server_coin = sc, sr_msg_lost = (\<lambda>_ _ _. False),
      sr_consensus = (\<lambda>_. \<lparr>rnd_coin = (\<lambda>_ _. True), rnd_order = (\<lambda>_ _. [])\<rparr>)\<rparr>"

fun outcome_reached :: "sim_outcome \<Rightarrow> bool option" where
  "outcome_reached (Finished b _) = Some b"
| "outcome_reached _ = None"

lemma example_rnd_ok:
  "0 \<le> a \<Longrightarrow> a \<le> t \<Longrightarrow> sim_rnd_ok (example_flags n t c) (example_rnd n a oc sc)"
  by (simp add: sim_rnd_ok_def example_flags_def example_rnd_def)

lemma example_rnd_delivers: "nothing_lost (example_rnd n a oc sc)"
  by (simp add: nothing_lost_def example_rnd_def)

theorem simulation_consensus_witness:
  "\<exists>s details. run_simulation (example_flags 7 2 True) (example_rnd 7 2 (\<lambda>_. True) (\<lambda>_ _ _. True))
     NewByzantineServer = (s, Finished True details)"
proof -
  have "flags_ok (example_flags 7 2 True)" "2 \<le> numGenerals (example_flags 7 2 True)"
    "\<not> tie_possible (example_flags 7 2 True)"
    by (simp_all add: flags_ok_def example_flags_def tie_possible_def)
  then show ?thesis
    using simulation_consensus [of "example_flags 7 2 True"
        "example_rnd 7 2 (\<lambda>_. True) (\<lambda>_ _ _. True)"] example_rnd_ok [of 2 2]
      example_rnd_delivers
    by auto
qed

subsection \<open>The configuration with ties\<close>

text \<open>The lieutenants to which the traitorous commander's coins send RETREAT both as the order and in round 2.\<close>

definition deceived :: "sim_flags \<Rightarrow> sim_rnd \<Rightarrow> int set" where
  "deceived f rnd = {j \<in> {1, 2, 3}. order_value f rnd j = RETREAT \<and> sent_value f rnd 2 0 j = RETREAT}"

lemma tie_traitors:
  assumes f: "flags_ok f" and rnd: "sim_rnd_ok f rnd" and tie: "tie_possible f"
  shows "traitors f rnd = {0}"
proof -
  have "0 \<in> traitors f rnd" using tie by (simp add: tie_possible_def traitors_def traitor_def)
  moreover have "card (traitors f rnd) \<le> 1"
    using card_traitors_le [OF f rnd] f tie by (simp add: tie_possible_def flags_ok_def)
  ultimately show ?thesis using card_le_Suc0_iff_eq [OF traitors_finite, of f rnd] by auto
qed

lemma tie_lieutenant:
  assumes f: "flags_ok f" and rnd: "sim_rnd_ok f rnd" and tie: "tie_possible f" and j: "1 \<le> j" "j \<le> 3"
  shows "\<not> traitor f rnd j"
proof -
  have "j \<notin> traitors f rnd" using j by (simp add: tie_traitors [OF f rnd tie])
  moreover have "j < numGenerals f" using j tie by (simp add: tie_possible_def)
  ultimately show ?thesis using j by (simp add: traitors_def)
qed

text \<open>A loyal lieutenant has counted the order, the commander's relay and two relays of loyal lieutenants.\<close>

lemma tie_counted:
  assumes f: "flags_ok f" and rnd: "sim_rnd_ok f rnd" and tie: "tie_possible f" and j: "1 \<le> j" "j \<le> 3"
  shows "counted f rnd j = {#order_value f rnd j, sent_value f rnd 2 0 j, ATTACK, ATTACK#}"
proof -
  have n: "numGenerals f = 4" and order: "initialOrder f = ATTACK" using tie by (simp_all add: tie_possible_def)
  have loyal: "sent_value f rnd 2 i j = ATTACK" if "1 \<le> i" "i \<le> 3" for i
    using sent_value_loyal [OF tie_lieutenant [OF f rnd tie that]] order by simp
  have "{0..3} - {j} = insert 0 ({1, 2, 3} - {j :: int})" using j by auto
  moreover have "j = 1 \<or> j = 2 \<or> j = 3" using j by linarith
  then have "(\<Sum>i \<in> {1, 2, 3} - {j}. {#ATTACK#}) = {#ATTACK, ATTACK#}"
    by (elim disjE) (simp_all add: insert_Diff_if del: sum_constant)
  moreover have "(\<Sum>i \<in> {1, 2, 3} - {j}. {#sent_value f rnd 2 i j#}) = (\<Sum>i \<in> {1, 2, 3} - {j}. {#ATTACK#})"
    using loyal by (intro sum.cong) auto
  ultimately have "round_values_of f rnd 2 j = {#sent_value f rnd 2 0 j, ATTACK, ATTACK#}"
    by (simp add: round_values_of_def n del: sum_constant)
  then show ?thesis
    using j by (simp add: counted_def round1_values_def tie_traitors [OF f rnd tie] upto.simps)
qed

lemma tie_decision:
  assumes f: "flags_ok f" and rnd: "sim_rnd_ok f rnd" and tie: "tie_possible f" and heard: "all_heard f rnd s"
    and g: "(j, g) \<in> set (Generals s)" "\<not> g_IsTraitor g"
  shows "j \<in> {1, 2, 3}" and "decide_at s crnd k g = (if j \<in> deceived f rnd then RETREAT else ATTACK)"
proof -
  have g': "map_of (Generals s) j = Some g" using g(1) heard_generals(1) [OF f rnd heard] by simp
  have "numGenerals f = 4" "traitor f rnd 0" using tie by (simp_all add: tie_possible_def traitor_def)
  then have j: "1 \<le> j" "j \<le> 3" using loyal_counts(1) [OF f rnd heard g' g(2)] by (cases "j = 0"; auto)+
  then show "j \<in> {1, 2, 3}" by auto
  have "order_value f rnd j \<in> {ATTACK, RETREAT}" "sent_value f rnd 2 0 j \<in> {ATTACK, RETREAT}"
    using tie by (auto simp: tie_possible_def order_value_def sent_value_def relay_value_def forwarded_value_def flip_value_def)
  then show "decide_at s crnd k g = (if j \<in> deceived f rnd then RETREAT else ATTACK)"
    using loyal_counts(2) [OF f rnd heard g' g(2), of crnd k] j \<open>j \<in> {1, 2, 3}\<close>
    by (auto simp: tie_counted [OF f rnd tie j] majority_def deceived_def)
qed

lemma reached_agree: "con_ConsensusReached (GetConsensus s crnd i) \<Longrightarrow> \<exists>d. all_loyal_agree s crnd d"
  by (auto simp: GetConsensus_def Let_def split: option.splits prod.splits)

text \<open>C38. What happens in the configuration that the last property leaves out: four generals, the commander a traitor, the
  order ATTACK. For all coins and message orders, when nothing is lost, the run finishes, and a loyal
  lieutenant decides RETREAT exactly when the commander's coins have sent it RETREAT twice, as the order and
  in round 2: it then counts two values for each side, and the tie goes to RETREAT. Consensus is reached exactly
  when this has happened to none of the three lieutenants or to all of them. So whenever it happens to one or to
  two, the loyal generals disagree although n > 3t.\<close>

theorem agreement_on_a_tie:
  assumes f: "flags_ok f" and tie: "tie_possible f" and rnd: "sim_rnd_ok f rnd" and nl: "nothing_lost rnd"
  shows "\<exists>s details. run_simulation f rnd NewByzantineServer =
       (s, Finished (deceived f rnd = {} \<or> deceived f rnd = {1, 2, 3}) details)
     \<and> (\<forall>(j, g) \<in> set (Generals s). \<not> g_IsTraitor g \<longrightarrow>
          (\<forall>crnd k. decide_at s crnd k g = (if j \<in> deceived f rnd then RETREAT else ATTACK)))"
proof -
  obtain s0 where s0: "configured f rnd s0" "\<forall>j r. held s0 j r = {#}" "CurrentRound s0 = 0"
    and run: "run_simulation f rnd NewByzantineServer =
      (run_phases f rnd s0,
       Finished (fst (collect (run_phases f rnd s0) rnd (False, '''') (all_clients f rnd)))
                (snd (collect (run_phases f rnd s0) rnd (False, '''') (all_clients f rnd))))"
    by (rule run_simulation_finishes [OF f rnd])
  let ?s = "run_phases f rnd s0" and ?D = "deceived f rnd" and ?crnd = "sr_consensus rnd 0"
  have heard: "all_heard f rnd ?s" by (rule run_phases_heard [OF f rnd nl s0])
  note gs = heard_generals [OF f rnd heard] and decision = tie_decision [OF f rnd tie heard]
  have loyal: "\<exists>g. (j, g) \<in> set (Generals ?s) \<and> \<not> g_IsTraitor g" if "j \<in> {1, 2, 3}" for j
  proof (rule gs(3))
    have j: "1 \<le> j" "j \<le> 3" using that by auto
    then show "0 \<le> j" "j < numGenerals f" using tie by (simp_all add: tie_possible_def)
    show "\<not> traitor f rnd j" by (rule tie_lieutenant [OF f rnd tie j])
  qed
  have "con_ConsensusReached (GetConsensus ?s ?crnd 0) \<longleftrightarrow> ?D = {} \<or> ?D = {1, 2, 3}"
  proof
    assume "con_ConsensusReached (GetConsensus ?s ?crnd 0)"
    then obtain d where "all_loyal_agree ?s ?crnd d" using reached_agree by blast
    then have all: "(if j \<in> ?D then RETREAT else ATTACK) = d" if "j \<in> {1, 2, 3}" for j
      using loyal [OF that] decision(2) [of j] by (fastforce simp: all_loyal_agree_def list_all_iff)
    have "?D \<subseteq> {1, 2, 3}" by (auto simp: deceived_def)
    then show "?D = {} \<or> ?D = {1, 2, 3}" using all [of 1] all [of 2] all [of 3] by (auto split: if_splits)
  next
    assume D: "?D = {} \<or> ?D = {1, 2, 3}"
    let ?d = "if ?D = {} then ATTACK else RETREAT"
    have same: "decide_at ?s crnd k g = ?d" if "(j, g) \<in> set (Generals ?s)" "\<not> g_IsTraitor g" for j g crnd k
      using D decision(1) [OF that] decision(2) [OF that, of crnd k] by auto
    obtain g where g: "(1, g) \<in> set (Generals ?s)" "\<not> g_IsTraitor g" using loyal [of 1] by auto
    show "con_ConsensusReached (GetConsensus ?s ?crnd 0)"
      by (rule GetConsensus_agreed [OF same _ g gs(2)]) auto
  qed
  with run collect_first [OF gs(2), of rnd f] decision(2) show ?thesis by auto
qed

text \<open>The coins send RETREAT to the first lieutenant only.\<close>

theorem agreement_on_a_tie_witness:
  "\<exists>s details. run_simulation (example_flags 4 1 True) (example_rnd 4 1 (\<lambda>l. l = 1) (\<lambda>r i j. j = 1))
     NewByzantineServer = (s, Finished False details)"
proof -
  let ?f = "example_flags 4 1 True" and ?rnd = "example_rnd 4 1 (\<lambda>l. l = 1) (\<lambda>r i j. j = 1)"
  have "flags_ok ?f" "tie_possible ?f"
    by (simp_all add: flags_ok_def tie_possible_def example_flags_def initialOrder_def)
  moreover have "deceived ?f ?rnd = {1}"
    by (auto simp: deceived_def order_value_def sent_value_def relay_value_def forwarded_value_def flip_value_def
        traitor_def example_flags_def example_rnd_def initialOrder_def)
  moreover have "{1} \<noteq> {1, 2, 3 :: int}" by (simp add: set_eq_iff exI [of _ 2])
  ultimately show ?thesis
    using agreement_on_a_tie [of ?f ?rnd] example_rnd_ok [of 1 1] example_rnd_delivers by auto
qed

text \<open>A lone commander ordered to ATTACK (n = 1, t = 0 pass the checks) never stores its
  own order, so it decides RETREAT and the run still reports consensus reached.\<close>

lemma lone_commander_retreats:
  "validate_inputs (example_flags 1 0 False) = None
   \<and> initialOrder (example_flags 1 0 False) = ATTACK
   \<and> (let (s, out) = run_simulation (example_flags 1 0 False)
             (example_rnd 1 0 (\<lambda>_. False) (\<lambda>_ _ _. False)) NewByzantineServer
      in outcome_reached out = Some True
         \<and> map (\<lambda>(i, g). makeDecision (Generals s) [] False g (MaxRounds s)) (Generals s) = [RETREAT])"
  by code_simp

text \<open>The server keeps its generals for ever: after one run of the client, every further
  run against the same server ends with log.Fatalf at the registration of the commander and changes
  nothing.\<close>

lemma second_run_is_fatal:
  assumes f: "flags_ok f" and rnd: "sim_rnd_ok f rnd" and nl: "nothing_lost rnd"
    and "run_simulation f rnd NewByzantineServer = (s, out)" and f': "flags_ok f'"
  shows "run_simulation f' rnd' s = (s, Fatal ''Failed to register commander: <nil>'')"
proof -
  obtain s0 where s0: "configured f rnd s0" "\<forall>j r. held s0 j r = {#}" "CurrentRound s0 = 0"
    and "s = run_phases f rnd s0"
    using run_simulation_finishes [OF f rnd] assms(4) by (metis prod.inject)
  then have "configured f rnd s" using run_phases_effect(1) [OF f rnd nl s0] by simp
  then have "registered s 0"
    using configured_registered [OF _ f, of rnd s 0] f by (simp add: flags_ok_def)
  then have "register_generals f' rnd' s = Inl (''Failed to register commander: <nil>'', s)"
    by (auto simp: register_generals_def RegisterGeneral_def registered_def register_request_def
        commander_client_def)
  moreover have "\<not> (numGenerals f' < 0 \<or> numTraitors f' < 0)" using f' by (simp add: flags_ok_def)
  ultimately show ?thesis
    by (simp add: run_simulation_def validate_inputs_ok [OF f'])
qed

lemma second_run_is_fatal_witness:
  "run_simulation (example_flags 7 2 True) (example_rnd 7 2 (\<lambda>_. True) (\<lambda>_ _ _. False))
     (fst (run_simulation (example_flags 4 1 False)
        (example_rnd 4 1 (\<lambda>_. False) (\<lambda>_ _ _. False)) NewByzantineServer))
   = (fst (run_simulation (example_flags 4 1 False)
        (example_rnd 4 1 (\<lambda>_. False) (\<lambda>_ _ _. False)) NewByzantineServer),
      Fatal ''Failed to register commander: <nil>'')"
proof -
  have "flags_ok (example_flags 4 1 False)" "flags_ok (example_flags 7 2 True)" by (simp_all add: flags_ok_def example_flags_def)
  then show ?thesis
    using second_run_is_fatal [OF _ example_rnd_ok [of 1 1] example_rnd_delivers surjective_pairing]
    by simp
qed

end
