(* ===== verification/Byz_Concurrent.thy ===== *)
theory Byz_Concurrent
  imports Byz_Consensus
begin

text \<open>
  The handlers of the Byzantine server (P4-ByzantineConsensus/server/main.go) once more, now with the locks
  they take. gRPC runs every call in a goroutine of its own, so where \<open>Byz_Server\<close> runs a handler
  as one step, here each section between a Lock and its Unlock is a step, and a list of events is an interleaving of
  any number of calls. The server has one \<open>sync.RWMutex\<close>, each general a \<open>sync.Mutex\<close>.

  A mutex is held by the call that stands between its Lock and its Unlock, so the state of the mutexes is
  read off the places where the calls stand. Lock on the RWMutex is two steps, as in Go: a writer first announces
  itself, which keeps new readers and other writers out, and then waits until the readers that are inside have left.
\<close>

subsection \<open>Calls\<close>

datatype handler_call =
    Registering RegisterRequest
  | Ordering OrderRequest bool
  | Exchanging MessageRequest bool
  | Asking int consensus_rnd

datatype handler_answer =
    RegisterAnswer RegisterResponse
  | ReceivedAnswer Received
  | ConsensusAnswer ConsensusResponse

text \<open>
  Where GetConsensus calls makeDecision: for the general asked for, in the loop that counts the votes, in
  the loop that compares the loyal generals with the majority. The loops carry the decision for the general asked for,
  the votes, and the ids of the generals that the loop still has to visit.
\<close>

type_synonym vote_counts = "nat \<times> nat \<times> nat \<times> nat"

datatype con_place =
    Own
  | Count Decision vote_counts "int list"
  | Agree Decision vote_counts Decision "int list"

text \<open>
  The places where a call can be interrupted. At the places whose name ends in \<open>Locked\<close> the call has announced
  itself as a writer. At \<open>Con\<close> the call is about to run makeDecision (or to leave the loop), at \<open>ConNested\<close> it is
  inside makeDecision, holds the mutex of the general and wants to read-lock the server. The number is the
  \<open>maxRounds\<close> that GetConsensus read.
\<close>

datatype call_pc =
    Arrived
  | RegLocked
  | OrdOwn
  | OrdReceiver
  | OrdRound
  | OrdRoundLocked
  | MsgRaise
  | MsgRaiseLocked
  | MsgStore
  | Con int con_place
  | ConNested int con_place
  | ConLock int Decision
  | Answered handler_answer

record handler =
  hc_call :: handler_call
  hc_pc :: call_pc

record byz_world =
  bw_server :: ByzantineServer
  bw_calls :: "handler list"

subsection \<open>The mutexes\<close>

fun announced :: "call_pc \<Rightarrow> bool" where
  "announced RegLocked = True"
| "announced OrdRoundLocked = True"
| "announced MsgRaiseLocked = True"
| "announced _ = False"

fun in_loop :: "con_place \<Rightarrow> bool" where
  "in_loop Own = False"
| "in_loop _ = True"

text \<open>The loops of GetConsensus run under \<open>s.mutex.RLock()\<close>.\<close>

fun reading :: "call_pc \<Rightarrow> bool" where
  "reading (Con _ p) = in_loop p"
| "reading (ConNested _ p) = in_loop p"
| "reading _ = False"

text \<open>The general that makeDecision is about at this place.\<close>

fun subject_of :: "int \<Rightarrow> con_place \<Rightarrow> int option" where
  "subject_of i Own = Some i"
| "subject_of i (Count _ _ ids) = (case ids of [] \<Rightarrow> None | j # _ \<Rightarrow> Some j)"
| "subject_of i (Agree _ _ _ ids) = (case ids of [] \<Rightarrow> None | j # _ \<Rightarrow> Some j)"

fun owned :: "handler_call \<Rightarrow> call_pc \<Rightarrow> int option" where
  "owned (Asking i _) (ConNested _ p) = subject_of i p"
| "owned _ _ = None"

text \<open>RLock does not wait; Lock may announce a writer; the announced writer may go on; a general is free.\<close>

definition no_writer :: "byz_world \<Rightarrow> bool" where
  "no_writer w = list_all (\<lambda>h. \<not> announced (hc_pc h)) (bw_calls w)"

definition no_reader :: "byz_world \<Rightarrow> bool" where
  "no_reader w = list_all (\<lambda>h. \<not> reading (hc_pc h)) (bw_calls w)"

definition general_free :: "int \<Rightarrow> byz_world \<Rightarrow> bool" where
  "general_free i w = list_all (\<lambda>h. owned (hc_call h) (hc_pc h) \<noteq> Some i) (bw_calls w)"

subsection \<open>The handlers in steps\<close>

text \<open>A step yields the server and the next place of the call, or \<open>None\<close> where the call has to wait.\<close>

definition rejected :: "string \<Rightarrow> call_pc" where
  "rejected m = Answered (ReceivedAnswer \<lparr>rcv_Received = False, rcv_Message = m\<rparr>)"

definition accepted :: "string \<Rightarrow> call_pc" where
  "accepted m = Answered (ReceivedAnswer \<lparr>rcv_Received = True, rcv_Message = m\<rparr>)"

text \<open>RegisterGeneral runs under \<open>s.mutex.Lock()\<close> from its first line to its last.\<close>

fun reg_step ::
  "byz_world \<Rightarrow> RegisterRequest \<Rightarrow> call_pc \<Rightarrow> (ByzantineServer \<times> call_pc) option" where
  "reg_step w req Arrived = (if no_writer w then Some (bw_server w, RegLocked) else None)"
| "reg_step w req RegLocked =
     (if no_reader w
      then (case RegisterGeneral (bw_server w) req of
              (s, a) \<Rightarrow> Some (s, Answered (RegisterAnswer a)))
      else None)"
| "reg_step w req _ = None"

text \<open>The general with this id is a traitor; the flag of a general never changes.\<close>

definition is_traitor :: "ByzantineServer \<Rightarrow> int \<Rightarrow> bool" where
  "is_traitor s i = (case map_of (Generals s) i of None \<Rightarrow> False | Some g \<Rightarrow> g_IsTraitor g)"

fun ord_step ::
  "byz_world \<Rightarrow> OrderRequest \<Rightarrow> bool \<Rightarrow> call_pc \<Rightarrow> (ByzantineServer \<times> call_pc) option" where
  "ord_step w req coin Arrived =
     (if \<not> no_writer w then None
      else let s = bw_server w in
        Some (s,
          case map_of (Generals s) (ord_SenderId req) of
            None \<Rightarrow> rejected (''Sender General '' @ itoa (ord_SenderId req) @ '' does not exist'')
          | Some general \<Rightarrow>
              if map_of (Generals s) (ord_ReceiverId req) = None
              then rejected (''Receiver General '' @ itoa (ord_ReceiverId req) @ '' does not exist'')
              else if g_Role general \<noteq> COMMANDER
              then rejected ''Only commander can send initial orders''
              else OrdOwn))"
| "ord_step w req coin OrdOwn =
     (if general_free (ord_SenderId req) w
      then Some (update_general (ord_SenderId req)
                   (store_message 1 (ord_SenderId req) (ord_Order req)) (bw_server w), OrdReceiver)
      else None)"
| "ord_step w req coin OrdReceiver =
     (if general_free (ord_ReceiverId req) w
      then Some (update_general (ord_ReceiverId req)
                   (store_message 1 (ord_SenderId req)
                      (relay_value (is_traitor (bw_server w) (ord_SenderId req)) coin (ord_Order req)))
                   (bw_server w), OrdRound)
      else None)"
| "ord_step w req coin OrdRound =
     (if no_writer w then Some (bw_server w, OrdRoundLocked) else None)"
| "ord_step w req coin OrdRoundLocked =
     (if no_reader w
      then let s = bw_server w in
        Some (if CurrentRound s = 0 then s\<lparr>CurrentRound := 1\<rparr> else s, accepted ''Order received'')
      else None)"
| "ord_step w req coin _ = None"

text \<open>The check of the path, which touches nothing that is shared.\<close>

definition after_round :: "MessageRequest \<Rightarrow> call_pc" where
  "after_round req =
     (if msg_ReceiverId req \<in> set (msg_Path req)
      then rejected ''Message would create a cycle, rejected'' else MsgStore)"

fun msg_step ::
  "byz_world \<Rightarrow> MessageRequest \<Rightarrow> bool \<Rightarrow> call_pc \<Rightarrow> (ByzantineServer \<times> call_pc) option" where
  "msg_step w req coin Arrived =
     (if \<not> no_writer w then None
      else let s = bw_server w; currentRound = CurrentRound s in
        Some (s,
          if map_of (Generals s) (msg_SenderId req) = None
             \<or> map_of (Generals s) (msg_ReceiverId req) = None
          then rejected ''Sender or receiver does not exist''
          else if msg_Round req < currentRound
          then rejected (''Message for previous round '' @ itoa (msg_Round req)
                         @ '' rejected, current round is '' @ itoa currentRound)
          else if msg_Round req > currentRound then MsgRaise
          else after_round req))"
| "msg_step w req coin MsgRaise =
     (if no_writer w then Some (bw_server w, MsgRaiseLocked) else None)"
| "msg_step w req coin MsgRaiseLocked =
     (if no_reader w
      then let s = bw_server w in
        Some (if msg_Round req > CurrentRound s then s\<lparr>CurrentRound := msg_Round req\<rparr> else s,
              after_round req)
      else None)"
| "msg_step w req coin MsgStore =
     (if general_free (msg_ReceiverId req) w
      then Some (update_general (msg_ReceiverId req)
                   (store_message (msg_Round req) (msg_SenderId req)
                      (relay_value (is_traitor (bw_server w) (msg_SenderId req)) coin (msg_Value req)))
                   (bw_server w), accepted ''Message received'')
      else None)"
| "msg_step w req coin _ = None"

subsection \<open>GetConsensus in steps\<close>

definition consensus_answer ::
  "int \<Rightarrow> Decision \<Rightarrow> vote_counts \<Rightarrow> Decision \<Rightarrow> bool \<Rightarrow> handler_answer" where
  "consensus_answer i decision v m agree =
     (case v of (a, r, la, lr) \<Rightarrow> ConsensusAnswer
        \<lparr>con_Decision = decision, con_ConsensusReached = agree,
         con_Details = consensus_details i decision v agree m,
         con_VoteCounts = [(''ATTACK'', i32 (int a)), (''RETREAT'', i32 (int r)),
           (''LOYAL_ATTACK'', i32 (int la)), (''LOYAL_RETREAT'', i32 (int lr))]\<rparr>)"

definition loyal_majority :: "vote_counts \<Rightarrow> Decision" where
  "loyal_majority v = (case v of (a, r, la, lr) \<Rightarrow> if la > lr then ATTACK else RETREAT)"

fun place_no :: "con_place \<Rightarrow> nat" where
  "place_no Own = 0"
| "place_no (Count _ _ _) = 1"
| "place_no (Agree _ _ _ _) = 2"

text \<open>
  A loyal commander without messages: makeDecision wants to look into the logs of the lieutenants, for
  which it takes the read lock of the server, with the mutex of the general in its hands.
\<close>

definition infers :: "General \<Rightarrow> int \<Rightarrow> bool" where
  "infers g maxRounds \<longleftrightarrow>
     \<not> g_IsTraitor g \<and> g_Role g = COMMANDER
     \<and> count_rounds (g_Messages g) (0, 0) [1..maxRounds] = (0, 0)"

definition inferred_order :: "ByzantineServer \<Rightarrow> int list \<Rightarrow> General \<Rightarrow> Decision" where
  "inferred_order s order g =
     (case infer_order (Generals s) (g_ID g) order of
        Some d \<Rightarrow> d
      | None \<Rightarrow> majority (0, 0))"

text \<open>How the caller of makeDecision goes on with the decision. The second loop stops at the first disagreement.\<close>

fun decided :: "int \<Rightarrow> int \<Rightarrow> General \<Rightarrow> con_place \<Rightarrow> Decision \<Rightarrow> call_pc" where
  "decided i mr g Own d = ConLock mr d"
| "decided i mr g (Count dec v ids) d =
     Con mr (Count dec (count_vote v (g_IsTraitor g, d)) (tl ids))"
| "decided i mr g (Agree dec v m ids) d =
     (if \<not> g_IsTraitor g \<and> d \<noteq> m then Answered (consensus_answer i dec v m False)
      else Con mr (Agree dec v m (tl ids)))"

text \<open>
  The list \<open>ids\<close> is the order in which the loop that starts with this step visits the generals.
  A traitor decides by its coin and takes no lock.
\<close>

fun con_step ::
  "byz_world \<Rightarrow> int list \<Rightarrow> int \<Rightarrow> consensus_rnd \<Rightarrow> call_pc \<Rightarrow> (ByzantineServer \<times> call_pc) option" where
  "con_step w ids i rnd Arrived =
     (if \<not> no_writer w then None
      else let s = bw_server w in
        Some (s,
          case map_of (Generals s) i of
            None \<Rightarrow> Answered (ConsensusAnswer
              \<lparr>con_Decision = RETREAT, con_ConsensusReached = False,
               con_Details = ''General '' @ itoa i @ '' does not exist'', con_VoteCounts = []\<rparr>)
          | Some _ \<Rightarrow> Con (MaxRounds s) Own))"
| "con_step w ids i rnd (ConLock mr dec) =
     (if no_writer w \<and> enumerates (Generals (bw_server w)) ids
      then Some (bw_server w, Con mr (Count dec (0, 0, 0, 0) ids)) else None)"
| "con_step w ids i rnd (Con mr (Count dec v [])) =
     (if enumerates (Generals (bw_server w)) ids
      then Some (bw_server w, Con mr (Agree dec v (loyal_majority v) ids)) else None)"
| "con_step w ids i rnd (Con mr (Agree dec v m [])) =
     Some (bw_server w, Answered (consensus_answer i dec v m True))"
| "con_step w ids i rnd (Con mr p) =
     (case subject_of i p of
        None \<Rightarrow> None
      | Some j \<Rightarrow>
       (case map_of (Generals (bw_server w)) j of
          None \<Rightarrow> None
        | Some g \<Rightarrow>
            if g_IsTraitor g \<or> general_free j w
            then Some (bw_server w,
              if infers g mr then ConNested mr p
              else decided i mr g p
                (makeDecision (Generals (bw_server w)) [] (rnd_coin rnd (place_no p) j) g mr))
            else None))"
| "con_step w ids i rnd (ConNested mr p) =
     (case subject_of i p of
        None \<Rightarrow> None
      | Some j \<Rightarrow>
       (case map_of (Generals (bw_server w)) j of
          None \<Rightarrow> None
        | Some g \<Rightarrow>
            if no_writer w
            then Some (bw_server w,
              decided i mr g p (inferred_order (bw_server w) (rnd_order rnd (place_no p) j) g))
            else None))"
| "con_step w ids i rnd _ = None"

subsection \<open>Interleavings\<close>

fun call_step ::
  "byz_world \<Rightarrow> int list \<Rightarrow> handler_call \<Rightarrow> call_pc \<Rightarrow> (ByzantineServer \<times> call_pc) option" where
  "call_step w ids (Registering req) pc = reg_step w req pc"
| "call_step w ids (Ordering req coin) pc = ord_step w req coin pc"
| "call_step w ids (Exchanging req coin) pc = msg_step w req coin pc"
| "call_step w ids (Asking i rnd) pc = con_step w ids i rnd pc"

text \<open>The call with number \<open>k\<close> does its next step.\<close>

definition world_step :: "nat \<Rightarrow> int list \<Rightarrow> byz_world \<Rightarrow> byz_world option" where
  "world_step k ids w =
     (if k < length (bw_calls w)
      then (let h = bw_calls w ! k in
        case call_step w ids (hc_call h) (hc_pc h) of
          None \<Rightarrow> None
        | Some (s, pc) \<Rightarrow>
            Some \<lparr>bw_server = s, bw_calls = (bw_calls w)[k := h\<lparr>hc_pc := pc\<rparr>]\<rparr>)
      else None)"

fun run_world :: "(nat \<times> int list) list \<Rightarrow> byz_world \<Rightarrow> byz_world option" where
  "run_world [] w = Some w"
| "run_world ((k, ids) # es) w =
     (case world_step k ids w of None \<Rightarrow> None | Some w' \<Rightarrow> run_world es w')"

text \<open>Calls that arrive at a new server, in any order and at any time.\<close>

definition byz_arrivals :: "handler_call list \<Rightarrow> byz_world" where
  "byz_arrivals cs =
     \<lparr>bw_server = NewByzantineServer, bw_calls = map (\<lambda>c. \<lparr>hc_call = c, hc_pc = Arrived\<rparr>) cs\<rparr>"

definition answered :: "handler \<Rightarrow> bool" where
  "answered h = (case hc_pc h of Answered _ \<Rightarrow> True | _ \<Rightarrow> False)"

definition blocked :: "byz_world \<Rightarrow> bool" where
  "blocked w \<longleftrightarrow> (\<forall>k ids. world_step k ids w = None)"

subsection \<open>The program\<close>

text \<open>
  What main serves, if it comes that far, the lines it logs and the text of log.Fatalf. The errors of
  net.Listen and of Serve are arguments; without an error Serve does not return.
\<close>

record byz_program =
  bpr_serves :: "ByzantineServer option"
  bpr_log :: "string list"
  bpr_fatal :: "string option"

definition byz_server_main :: "int \<Rightarrow> string option \<Rightarrow> string option \<Rightarrow> byz_program" where
  "byz_server_main port listen serve =
     (let byzantineServer = NewByzantineServer
      in case listen of
           Some err \<Rightarrow>
             \<lparr>bpr_serves = None, bpr_log = [], bpr_fatal = Some (''Failed to listen: '' @ err)\<rparr>
         | None \<Rightarrow>
             \<lparr>bpr_serves = Some byzantineServer,
              bpr_log = [''Byzantine Generals server listening on port '' @ itoa port],
              bpr_fatal = map_option (\<lambda>err. ''Failed to serve: '' @ err) serve\<rparr>)"

end
