(* ===== verification/Byz_Concurrent_Laws.thy ===== *)
theory Byz_Concurrent_Laws
  imports Byz_Concurrent Byz_Theorems
begin

text \<open>
  What every interleaving of the handlers of the Byzantine server keeps: the state of the server is
  well formed, every call stands at a place of its handler and works on registered generals, the logs hold what the
  calls have stored so far, and a measure falls with every step. The properties are in
  \<open>Byz_Concurrent_Theorems\<close>.
\<close>

subsection \<open>One step of the world\<close>

lemma world_stepE:
  assumes "world_step k ids w = Some w'"
  obtains h s' pc' where "k < length (bw_calls w)" and "h = bw_calls w ! k"
    and "call_step w ids (hc_call h) (hc_pc h) = Some (s', pc')"
    and "w' = \<lparr>bw_server = s', bw_calls = (bw_calls w)[k := h\<lparr>hc_pc := pc'\<rparr>]\<rparr>"
  using assms by (auto simp: world_step_def Let_def split: if_splits option.splits)

lemma run_world_induct [consumes 1, case_names start step]:
  assumes "run_world es w0 = Some w" and "P w0"
    and "\<And>k ids w w'. P w \<Longrightarrow> world_step k ids w = Some w' \<Longrightarrow> P w'"
  shows "P w"
  using assms(1,2)
proof (induction es arbitrary: w0)
  case Nil
  then show ?case by simp
next
  case (Cons e es)
  then show ?case
    by (cases e) (auto split: option.splits intro: assms(3))
qed

lemma sum_list_change:
  fixes f :: "'a \<Rightarrow> 'b::comm_monoid_add"
  assumes "k < length xs"
  shows "(\<Sum>x\<leftarrow>xs[k := y]. f x) + f (xs ! k) = (\<Sum>x\<leftarrow>xs. f x) + f y"
  using assms
proof (induction xs arbitrary: k)
  case (Cons x xs)
  then show ?case by (cases k) (auto simp: ac_simps)
qed simp

lemma new_server_wf [simp]: "server_wf NewByzantineServer"
  by (simp add: server_wf_def NewByzantineServer_def i32_def)

subsection \<open>What a step does to the server\<close>

text \<open>The effect of a step on the server: it registers a general, stores a value, sets the round, or nothing.\<close>

inductive touches :: "handler_call \<Rightarrow> ByzantineServer \<Rightarrow> ByzantineServer \<Rightarrow> bool" where
  same: "touches c s s"
| register: "touches (Registering req) s (fst (RegisterGeneral s req))"
| store: "touches c s (deliver r i j v s)"
| round: "CurrentRound s \<le> n \<Longrightarrow> touches c s (s\<lparr>CurrentRound := n\<rparr>)"

lemma deliver_fold: "update_general j (store_message r i v) s = deliver r i j v s"
  by (simp add: deliver_def)

lemma call_step_touches:
  assumes "call_step w ids c pc = Some (s', pc')"
  shows "touches c (bw_server w) s'"
proof (cases c)
  case (Registering req)
  with assms show ?thesis
    by (cases pc)
       (auto split: if_splits prod.splits intro: touches.same dest!: arg_cong [where f = fst]
         intro!: touches.register)
next
  case (Ordering req coin)
  with assms show ?thesis
    by (cases pc)
       (auto simp: Let_def deliver_fold split: if_splits intro: touches.intros)
next
  case (Exchanging req coin)
  with assms show ?thesis
    by (cases pc)
       (auto simp: Let_def deliver_fold split: if_splits intro: touches.intros)
next
  case (Asking i rnd)
  have "con_step w ids i rnd pc = Some (s', pc') \<Longrightarrow> s' = bw_server w"
    by (cases "(w, ids, i, rnd, pc)" rule: con_step.cases)
       (auto simp: Let_def split: if_splits option.splits)
  with assms Asking show ?thesis by (auto intro: touches.same)
qed

lemma RegisterGeneral_old:
  "registered s (reg_Id req) \<Longrightarrow> fst (RegisterGeneral s req) = s"
  by (auto simp: RegisterGeneral_def registered_def)

lemma RegisterGeneral_lookup:
  "registered s j \<Longrightarrow>
     map_of (Generals (fst (RegisterGeneral s req))) j = map_of (Generals s) j"
  by (auto simp: RegisterGeneral_def registered_def Let_def split: option.split)

lemma deliver_lookup:
  "map_of (Generals (deliver r i j v s)) k =
     (if k = j then map_option (store_message r i v) (map_of (Generals s) k)
      else map_of (Generals s) k)"
  by (simp add: deliver_def update_general_lookup)

text \<open>A general keeps its id, its role and its loyalty for ever.\<close>

lemma touches_keeps:
  assumes "touches c s s'" and "map_of (Generals s) j = Some g"
  obtains g' where "map_of (Generals s') j = Some g'"
    and "g_ID g' = g_ID g" and "g_Role g' = g_Role g" and "g_IsTraitor g' = g_IsTraitor g"
  using assms(1)
proof (cases rule: touches.cases)
  case (store r i k v)
  with assms(2) that show ?thesis
    by (cases "j = k") (simp_all add: deliver_lookup)
qed (use assms(2) that in \<open>simp_all add: RegisterGeneral_lookup registered_def\<close>)

lemma touches_registered: "touches c s s' \<Longrightarrow> registered s j \<Longrightarrow> registered s' j"
  unfolding registered_def by (metis touches_keeps option.distinct(1) option.exhaust)

lemma touches_traitor:
  assumes "touches c s s'" and "registered s j"
  shows "is_traitor s' j = is_traitor s j"
proof -
  from assms(2) obtain g where g: "map_of (Generals s) j = Some g"
    by (auto simp: registered_def)
  from touches_keeps [OF assms(1) g] obtain g' where "map_of (Generals s') j = Some g'"
    and "g_IsTraitor g' = g_IsTraitor g" by blast
  with g show ?thesis by (simp add: is_traitor_def)
qed

lemma touches_wf:
  assumes "touches c s s'" and "server_wf s"
  shows "server_wf s'"
  using assms(1)
proof (cases rule: touches.cases)
  case (store r i j v)
  have "server_wf s' = server_wf s"
    by (rule server_wf_profile) (simp_all add: store counters_def, simp_all add: deliver_def)
  with assms(2) show ?thesis by simp
next
  case (round n)
  have "server_wf s' = server_wf s"
    by (rule server_wf_profile) (simp_all add: round counters_def)
  with assms(2) show ?thesis by simp
qed (use assms(2) in \<open>simp_all add: RegisterGeneral_wf\<close>)

lemma deliver_length [simp]: "length (Generals (deliver r i j v s)) = length (Generals s)"
proof -
  have "length (profile (deliver r i j v s)) = length (profile s)" by simp
  then show ?thesis unfolding profile_def length_map .
qed

lemma RegisterGeneral_length:
  "length (Generals s) \<le> length (Generals (fst (RegisterGeneral s req)))"
  "length (Generals (fst (RegisterGeneral s req))) \<le> Suc (length (Generals s))"
  by (auto simp: RegisterGeneral_def Let_def gput_absent split: option.split)

lemma touches_length:
  assumes "touches c s s'"
  shows "length (Generals s) \<le> length (Generals s')"
    and "length (Generals s') \<le> length (Generals s)
           + (case c of Registering _ \<Rightarrow> 1 | _ \<Rightarrow> 0)"
  using assms
  by (cases rule: touches.cases; simp add: RegisterGeneral_length split: handler_call.split)+

lemma touches_round: "touches c s s' \<Longrightarrow> CurrentRound s \<le> CurrentRound s'"
  by (cases rule: touches.cases) (auto simp: RegisterGeneral_frame)

text \<open>While a call holds the mutex of a general, no step of another call changes that general.\<close>

lemma call_step_owned:
  assumes "call_step w ids c pc = Some (s', pc')" and "\<not> general_free j w"
    and "map_of (Generals (bw_server w)) j = Some g"
  shows "map_of (Generals s') j = Some g"
proof (cases c)
  case (Registering req)
  with assms show ?thesis
    by (cases pc) (auto simp: RegisterGeneral_lookup registered_def split: if_splits prod.splits
        dest!: arg_cong [where f = fst])
next
  case (Ordering req coin)
  with assms show ?thesis
    by (cases pc) (auto simp: Let_def deliver_fold deliver_lookup split: if_splits)
next
  case (Exchanging req coin)
  with assms show ?thesis
    by (cases pc) (auto simp: Let_def deliver_fold deliver_lookup split: if_splits)
next
  case (Asking i rnd)
  have "con_step w ids i rnd pc = Some (s', pc') \<Longrightarrow> s' = bw_server w"
    by (cases "(w, ids, i, rnd, pc)" rule: con_step.cases)
       (auto simp: Let_def split: if_splits option.splits)
  with assms Asking show ?thesis by auto
qed

subsection \<open>Where a call can stand\<close>

fun is_accepted :: "call_pc \<Rightarrow> bool" where
  "is_accepted (Answered (ReceivedAnswer a)) = rcv_Received a"
| "is_accepted _ = False"

fun refused :: "call_pc \<Rightarrow> bool" where
  "refused (Answered (ReceivedAnswer a)) = (\<not> rcv_Received a)"
| "refused (Answered _) = True"
| "refused _ = False"

fun place_ok :: "ByzantineServer \<Rightarrow> int \<Rightarrow> con_place \<Rightarrow> bool" where
  "place_ok s i Own = registered s i"
| "place_ok s i (Count _ _ ids) =
     ((\<forall>j \<in> set ids. registered s j) \<and> length ids \<le> length (Generals s))"
| "place_ok s i (Agree _ _ _ ids) =
     ((\<forall>j \<in> set ids. registered s j) \<and> length ids \<le> length (Generals s))"

text \<open>A call waits inside makeDecision only for a loyal commander whose log is empty.\<close>

definition nested_ok :: "ByzantineServer \<Rightarrow> int \<Rightarrow> int option \<Rightarrow> bool" where
  "nested_ok s mr j \<longleftrightarrow>
     (case j of None \<Rightarrow> False
      | Some i \<Rightarrow> (case map_of (Generals s) i of None \<Rightarrow> False | Some g \<Rightarrow> infers g mr))"

fun asking_ok :: "ByzantineServer \<Rightarrow> int \<Rightarrow> call_pc \<Rightarrow> bool" where
  "asking_ok s i Arrived = True"
| "asking_ok s i (ConLock mr _) = (1 \<le> mr)"
| "asking_ok s i (Con mr p) = (1 \<le> mr \<and> place_ok s i p)"
| "asking_ok s i (ConNested mr p) =
     (1 \<le> mr \<and> place_ok s i p \<and> nested_ok s mr (subject_of i p))"
| "asking_ok s i pc = refused pc"

fun call_ok :: "ByzantineServer \<Rightarrow> handler_call \<Rightarrow> call_pc \<Rightarrow> bool" where
  "call_ok s (Registering req) pc = (pc \<in> {Arrived, RegLocked} \<or> refused pc)"
| "call_ok s (Ordering req coin) pc =
     (pc = Arrived \<or> refused pc
      \<or> (pc \<in> {OrdOwn, OrdReceiver, OrdRound, OrdRoundLocked} \<or> is_accepted pc)
        \<and> registered s (ord_SenderId req) \<and> registered s (ord_ReceiverId req))"
| "call_ok s (Exchanging req coin) pc =
     (pc = Arrived \<or> refused pc
      \<or> (pc \<in> {MsgRaise, MsgRaiseLocked, MsgStore} \<or> is_accepted pc)
        \<and> registered s (msg_SenderId req) \<and> registered s (msg_ReceiverId req))"
| "call_ok s (Asking i rnd) pc = asking_ok s i pc"

lemma answer_kinds [simp]:
  "refused (rejected m)" "\<not> is_accepted (rejected m)" "is_accepted (accepted m)" "\<not> refused (accepted m)"
  "refused (Answered (consensus_answer i d v m' a))" "rejected m \<noteq> Arrived"
  by (simp_all add: rejected_def accepted_def consensus_answer_def split: prod.split)

lemma MaxRounds_positive:
  assumes "server_wf s" and "length (Generals s) < 2147483647" and "registered s i"
  shows "1 \<le> MaxRounds s"
proof -
  let ?t = "length (filter (\<lambda>(_, g). g_IsTraitor g) (Generals s))"
  have "int ?t \<le> int (length (Generals s))" by simp
  with assms(2) have t: "int ?t < 2147483647" by linarith
  from assms(3) have "Generals s \<noteq> []" by (auto simp: registered_def)
  with assms(1) have "MaxRounds s = i32 (i32 (int ?t) + 1)" by (simp add: server_wf_def)
  also have "\<dots> = int ?t + 1" using t by (simp add: i32_i32_plus i32_id)
  finally show ?thesis by simp
qed

lemma place_ok_mono:
  assumes "touches c s s'" and "place_ok s i p"
  shows "place_ok s' i p"
  using assms touches_length(1) [OF assms(1)] touches_registered [OF assms(1)]
  by (cases p) auto

lemma enumerates_ids:
  assumes "enumerates gs ids" and "gs = Generals s" and "server_wf s"
  shows "(\<forall>j \<in> set ids. registered s j) \<and> length ids \<le> length (Generals s)"
proof -
  have "length ids = card (set ids)" using assms(1) distinct_card [of ids] by (simp add: enumerates_def)
  also have "\<dots> \<le> length (Generals s)"
    using assms(1,2) card_length [of "map fst gs"] by (simp add: enumerates_def)
  finally have "length ids \<le> length (Generals s)" .
  moreover have "\<forall>j \<in> set ids. registered s j"
    using assms(1,2) by (auto simp: enumerates_def registered_def dest: weak_map_of_SomeI)
  ultimately show ?thesis by simp
qed

lemma decided_ok:
  assumes "place_ok s i p" and "1 \<le> mr"
  shows "asking_ok s i (decided i mr g p d)"
proof (cases p)
  case (Count dec v ids)
  with assms show ?thesis by (cases ids) auto
next
  case (Agree dec v m ids)
  with assms show ?thesis by (cases ids) auto
qed (use assms in simp)

text \<open>What GetConsensus does where it is about to run makeDecision for the general \<open>j\<close>.\<close>

lemma con_step_at:
  assumes "subject_of i p = Some j"
  shows "con_step w ids i rnd (Con mr p) =
    (case map_of (Generals (bw_server w)) j of
       None \<Rightarrow> None
     | Some g \<Rightarrow>
         if g_IsTraitor g \<or> general_free j w
         then Some (bw_server w,
           if infers g mr then ConNested mr p
           else decided i mr g p
             (makeDecision (Generals (bw_server w)) [] (rnd_coin rnd (place_no p) j) g mr))
         else None)"
proof (cases p)
  case (Count dec v ids)
  with assms obtain rest where "ids = j # rest" by (cases ids) simp_all
  with Count show ?thesis by (simp split: option.split)
next
  case (Agree dec v m ids)
  with assms obtain rest where "ids = j # rest" by (cases ids) simp_all
  with Agree show ?thesis by (simp split: option.split)
next
  case Own
  with assms show ?thesis by (simp split: option.split)
qed

text \<open>A step of GetConsensus keeps the call at a proper place.\<close>

lemma con_step_ok:
  assumes "con_step w ids i rnd pc = Some (s', pc')" and "asking_ok (bw_server w) i pc"
    and "server_wf (bw_server w)" and "length (Generals (bw_server w)) < 2147483647"
  shows "asking_ok (bw_server w) i pc'"
proof (cases pc)
  case Arrived
  with assms(1) show ?thesis
    using MaxRounds_positive [OF assms(3,4), of i]
    by (auto simp: Let_def registered_def split: if_splits option.splits)
next
  case (ConLock mr dec)
  with assms show ?thesis
    using enumerates_ids [OF _ refl assms(3), of ids] by (auto split: if_splits)
next
  case (Con mr p)
  have ask: "place_ok (bw_server w) i p" "1 \<le> mr" using assms(2) Con by auto
  show ?thesis
  proof (cases "subject_of i p")
    case None
    with assms(1) Con ask show ?thesis
      using enumerates_ids [OF _ refl assms(3), of ids]
      by (cases p) (auto split: if_splits list.splits)
  next
    case (Some j)
    obtain g where g: "map_of (Generals (bw_server w)) j = Some g"
      and pc': "pc' = (if infers g mr then ConNested mr p
              else decided i mr g p
                (makeDecision (Generals (bw_server w)) [] (rnd_coin rnd (place_no p) j) g mr))"
      using assms(1) unfolding Con con_step_at [OF Some] by (auto split: if_splits option.splits)
    from ask g Some decided_ok [OF ask] show ?thesis
      unfolding pc' by (auto simp: nested_ok_def)
  qed
next
  case (ConNested mr p)
  with assms decided_ok [of "bw_server w" i p mr] show ?thesis
    by (auto split: if_splits option.splits)
qed (use assms in simp_all)

text \<open>The step of any call keeps its own place proper, and the places of the other calls.\<close>

fun asks :: "handler_call \<Rightarrow> bool" where
  "asks (Asking _ _) = True"
| "asks _ = False"

lemma call_step_ok:
  assumes "call_step w ids c pc = Some (s', pc')" and "call_ok (bw_server w) c pc"
    and "server_wf (bw_server w)" and "asks c \<Longrightarrow> length (Generals (bw_server w)) < 2147483647"
  shows "call_ok s' c pc'"
proof (cases c)
  case (Registering req)
  with assms(1) show ?thesis by (cases pc) (auto split: if_splits prod.splits)
next
  case (Ordering req coin)
  have "registered (bw_server w) j \<Longrightarrow> registered s' j" for j
    by (rule touches_registered [OF call_step_touches [OF assms(1)]])
  with assms(1,2) Ordering show ?thesis
    by (cases pc) (auto simp: Let_def registered_def split: if_splits option.splits)
next
  case (Exchanging req coin)
  have "registered (bw_server w) j \<Longrightarrow> registered s' j" for j
    by (rule touches_registered [OF call_step_touches [OF assms(1)]])
  with assms(1,2) Exchanging show ?thesis
    by (cases pc) (auto simp: Let_def after_round_def registered_def split: if_splits)
next
  case (Asking i rnd)
  have "con_step w ids i rnd pc = Some (s', pc') \<Longrightarrow> s' = bw_server w"
    by (cases "(w, ids, i, rnd, pc)" rule: con_step.cases)
       (auto simp: Let_def split: if_splits option.splits)
  with assms Asking con_step_ok [of w ids i rnd pc s' pc'] show ?thesis by auto
qed

lemma call_ok_others:
  assumes "call_step w ids c pc = Some (s', pc')" and "call_ok (bw_server w) c2 pc2"
    and "\<And>i. owned c2 pc2 = Some i \<Longrightarrow> \<not> general_free i w"
  shows "call_ok s' c2 pc2"
proof -
  have t: "touches c (bw_server w) s'" by (rule call_step_touches [OF assms(1)])
  have reg: "registered (bw_server w) j \<Longrightarrow> registered s' j" for j
    by (rule touches_registered [OF t])
  show ?thesis
  proof (cases c2)
    case (Asking i rnd)
    show ?thesis
    proof (cases pc2)
      case (ConNested mr p)
      with assms(2) Asking obtain j g where j: "subject_of i p = Some j"
        and g: "map_of (Generals (bw_server w)) j = Some g" and inf: "infers g mr"
        by (auto simp: nested_ok_def split: option.splits)
      have "\<not> general_free j w" by (rule assms(3)) (simp add: Asking ConNested j)
      from call_step_owned [OF assms(1) this g] have "nested_ok s' mr (Some j)"
        by (simp add: nested_ok_def inf)
      with assms(2) Asking ConNested j place_ok_mono [OF t] show ?thesis by simp
    qed (use assms(2) Asking place_ok_mono [OF t] in auto)
  qed (use assms(2) reg in auto)
qed

subsection \<open>The invariant of the world\<close>

text \<open>
  The generals and the registrations that are still under way are together less than the largest int32, if
  anybody asks for the consensus.
\<close>

fun pending :: "handler_call \<Rightarrow> call_pc \<Rightarrow> nat" where
  "pending (Registering _) Arrived = 1"
| "pending (Registering _) RegLocked = 1"
| "pending _ _ = 0"

definition room :: "byz_world \<Rightarrow> nat" where
  "room w = length (Generals (bw_server w)) + (\<Sum>h\<leftarrow>bw_calls w. pending (hc_call h) (hc_pc h))"

definition world_ok :: "byz_world \<Rightarrow> bool" where
  "world_ok w \<longleftrightarrow> server_wf (bw_server w)
     \<and> ((\<exists>h \<in> set (bw_calls w). asks (hc_call h)) \<longrightarrow> room w < 2147483647)
     \<and> (\<forall>h \<in> set (bw_calls w). call_ok (bw_server w) (hc_call h) (hc_pc h))"

lemma call_step_pending:
  assumes "call_step w ids c pc = Some (s', pc')"
  shows "length (Generals s') + pending c pc' \<le> length (Generals (bw_server w)) + pending c pc"
proof (cases c)
  case (Registering req)
  with assms show ?thesis
    using RegisterGeneral_length(2) [of "bw_server w" req]
    by (cases pc) (auto split: if_splits prod.splits)
next
  case (Ordering req coin)
  with assms touches_length(2) [OF call_step_touches [OF assms]] show ?thesis by simp
next
  case (Exchanging req coin)
  with assms touches_length(2) [OF call_step_touches [OF assms]] show ?thesis by simp
next
  case (Asking i rnd)
  with assms touches_length(2) [OF call_step_touches [OF assms]] show ?thesis by simp
qed

lemma world_step_room:
  assumes "world_step k ids w = Some w'"
  shows "room w' \<le> room w"
proof -
  from assms obtain h s' pc' where k: "k < length (bw_calls w)" and h: "h = bw_calls w ! k"
    and st: "call_step w ids (hc_call h) (hc_pc h) = Some (s', pc')"
    and w': "w' = \<lparr>bw_server = s', bw_calls = (bw_calls w)[k := h\<lparr>hc_pc := pc'\<rparr>]\<rparr>"
    by (rule world_stepE)
  from call_step_pending [OF st]
    sum_list_change [OF k, of "\<lambda>h. pending (hc_call h) (hc_pc h)" "h\<lparr>hc_pc := pc'\<rparr>"]
  show ?thesis by (simp add: room_def w' h)
qed

lemma not_free: "h \<in> set (bw_calls w) \<Longrightarrow> owned (hc_call h) (hc_pc h) = Some i \<Longrightarrow> \<not> general_free i w"
  by (auto simp: general_free_def list_all_iff)

lemma world_step_ok:
  assumes "world_step k ids w = Some w'" and "world_ok w"
  shows "world_ok w'"
proof -
  from assms(1) obtain h s' pc' where k: "k < length (bw_calls w)" and h: "h = bw_calls w ! k"
    and st: "call_step w ids (hc_call h) (hc_pc h) = Some (s', pc')"
    and w': "w' = \<lparr>bw_server = s', bw_calls = (bw_calls w)[k := h\<lparr>hc_pc := pc'\<rparr>]\<rparr>"
    by (rule world_stepE)
  have hin: "h \<in> set (bw_calls w)" using k h by simp
  have wf: "server_wf (bw_server w)"
    and few: "asks (hc_call h) \<Longrightarrow> length (Generals (bw_server w)) < 2147483647"
    and ok: "\<And>h. h \<in> set (bw_calls w) \<Longrightarrow> call_ok (bw_server w) (hc_call h) (hc_pc h)"
    using assms(2) hin by (auto simp: world_ok_def room_def)
  have "call_ok s' (hc_call x) (hc_pc x)" if "x \<in> set (bw_calls w')" for x
  proof -
    from that consider "x = h\<lparr>hc_pc := pc'\<rparr>" | "x \<in> set (bw_calls w)"
      using set_update_subset_insert [of "bw_calls w" k] by (auto simp: w')
    then show ?thesis
    proof cases
      case 1
      with call_step_ok [OF st ok [OF hin] wf few] show ?thesis by simp
    next
      case 2
      show ?thesis by (rule call_ok_others [OF st ok [OF 2]]) (rule not_free [OF 2])
    qed
  qed
  moreover have "server_wf s'" by (rule touches_wf [OF call_step_touches [OF st] wf])
  moreover have "\<exists>h \<in> set (bw_calls w). asks (hc_call h)" if "\<exists>h \<in> set (bw_calls w'). asks (hc_call h)"
  proof -
    from that obtain x where x: "x \<in> set ((bw_calls w)[k := h\<lparr>hc_pc := pc'\<rparr>])" "asks (hc_call x)"
      by (auto simp: w')
    from subsetD [OF set_update_subset_insert x(1)] x(2) hin show ?thesis by auto
  qed
  ultimately show ?thesis
    using world_step_room [OF assms(1)] assms(2) by (auto simp: world_ok_def w')
qed

subsection \<open>What the calls have stored\<close>

definition spot :: "int \<Rightarrow> int \<Rightarrow> int \<Rightarrow> int \<Rightarrow> Decision \<Rightarrow> Decision multiset" where
  "spot j r j' r' v = (if j' = j \<and> r' = r then {#v#} else {#})"

text \<open>The value SendOrder stores with the commander itself, and the one a call passes to the receiver.\<close>

fun own_value :: "handler_call \<Rightarrow> int \<Rightarrow> int \<Rightarrow> Decision multiset" where
  "own_value (Ordering req coin) j r = spot j r (ord_SenderId req) 1 (ord_Order req)"
| "own_value _ j r = {#}"

fun passed_value :: "ByzantineServer \<Rightarrow> handler_call \<Rightarrow> int \<Rightarrow> int \<Rightarrow> Decision multiset" where
  "passed_value s (Ordering req coin) j r =
     spot j r (ord_ReceiverId req) 1
       (relay_value (is_traitor s (ord_SenderId req)) coin (ord_Order req))"
| "passed_value s (Exchanging req coin) j r =
     spot j r (msg_ReceiverId req) (msg_Round req)
       (relay_value (is_traitor s (msg_SenderId req)) coin (msg_Value req))"
| "passed_value s _ j r = {#}"

fun own_done :: "call_pc \<Rightarrow> bool" where
  "own_done OrdReceiver = True"
| "own_done OrdRound = True"
| "own_done OrdRoundLocked = True"
| "own_done pc = is_accepted pc"

fun passed_done :: "call_pc \<Rightarrow> bool" where
  "passed_done OrdRound = True"
| "passed_done OrdRoundLocked = True"
| "passed_done pc = is_accepted pc"

definition delivered :: "ByzantineServer \<Rightarrow> handler_call \<Rightarrow> call_pc \<Rightarrow> int \<Rightarrow> int \<Rightarrow> Decision multiset" where
  "delivered s c pc j r =
     (if own_done pc then own_value c j r else {#})
     + (if passed_done pc then passed_value s c j r else {#})"

lemma answers_done [simp]:
  "\<not> own_done (rejected m)" "\<not> passed_done (rejected m)" "own_done (accepted m)" "passed_done (accepted m)"
  by (simp_all add: rejected_def accepted_def)

lemma refused_done: "refused pc \<Longrightarrow> \<not> own_done pc \<and> \<not> passed_done pc"
  by (cases pc rule: refused.cases) auto

lemma accepted_done: "is_accepted pc \<Longrightarrow> own_done pc \<and> passed_done pc"
  by (cases pc rule: is_accepted.cases) auto

lemma held_store:
  "registered s i \<Longrightarrow> held (deliver r k i v s) j r' = held s j r' + spot j r' i r v"
  by (auto simp: held_deliver spot_def)

lemma traitor_frame [simp]:
  "is_traitor (deliver r i j v s) k = is_traitor s k"
  "is_traitor (s\<lparr>CurrentRound := n\<rparr>) k = is_traitor s k"
  by (auto simp: is_traitor_def deliver_lookup split: option.split)

lemma own_delivered:
  assumes "call_step w ids c pc = Some (s', pc')" and "call_ok (bw_server w) c pc"
  shows "held s' j r + delivered s' c pc j r = held (bw_server w) j r + delivered s' c pc' j r"
proof (cases c)
  case (Registering req)
  with assms show ?thesis
    by (cases pc) (auto simp: delivered_def RegisterGeneral_frame
        split: if_splits prod.splits dest!: arg_cong [where f = fst])
next
  case (Ordering req coin)
  with assms show ?thesis
    by (cases pc) (auto simp: Let_def delivered_def deliver_fold held_store
        dest: refused_done split: if_splits option.splits)
next
  case (Exchanging req coin)
  with assms show ?thesis
    by (cases pc) (auto simp: Let_def delivered_def deliver_fold held_store after_round_def
        split: if_splits)
next
  case (Asking i rnd)
  have "con_step w ids i rnd pc = Some (s', pc') \<Longrightarrow> s' = bw_server w"
    by (cases "(w, ids, i, rnd, pc)" rule: con_step.cases)
       (auto simp: Let_def split: if_splits option.splits)
  moreover have "delivered s' c p j r = {#}" for p by (simp add: delivered_def Asking)
  ultimately show ?thesis using assms Asking by simp
qed

lemma delivered_kept:
  assumes "touches c s s'" and "call_ok s c2 pc2"
  shows "delivered s' c2 pc2 j r = delivered s c2 pc2 j r"
  using assms(2) touches_traitor [OF assms(1)]
  by (cases c2) (auto simp: delivered_def dest: refused_done)

text \<open>\<open>base\<close> is what the logs held when the calls arrived.\<close>

definition books :: "(int \<Rightarrow> int \<Rightarrow> Decision multiset) \<Rightarrow> byz_world \<Rightarrow> bool" where
  "books base w \<longleftrightarrow> (\<forall>j r. held (bw_server w) j r = base j r +
     (\<Sum>h\<leftarrow>bw_calls w. delivered (bw_server w) (hc_call h) (hc_pc h) j r))"

lemma world_step_books:
  assumes "world_step k ids w = Some w'" and "world_ok w" and "books base w"
  shows "books base w'"
  unfolding books_def
proof (intro allI)
  fix j r
  from assms(1) obtain h s' pc' where k: "k < length (bw_calls w)" and h: "h = bw_calls w ! k"
    and st: "call_step w ids (hc_call h) (hc_pc h) = Some (s', pc')"
    and w': "w' = \<lparr>bw_server = s', bw_calls = (bw_calls w)[k := h\<lparr>hc_pc := pc'\<rparr>]\<rparr>"
    by (rule world_stepE)
  let ?f = "\<lambda>h. delivered s' (hc_call h) (hc_pc h) j r"
  have ok: "call_ok (bw_server w) (hc_call x) (hc_pc x)" if "x \<in> set (bw_calls w)" for x
    using assms(2) that by (simp add: world_ok_def)
  have hin: "h \<in> set (bw_calls w)" using k h by simp
  have old: "held (bw_server w) j r = base j r + (\<Sum>h\<leftarrow>bw_calls w. ?f h)"
    using assms(3) delivered_kept [OF call_step_touches [OF st] ok]
    by (simp add: books_def cong: map_cong)
  have "(\<Sum>x\<leftarrow>bw_calls w'. ?f x) + ?f h = (\<Sum>h\<leftarrow>bw_calls w. ?f h) + ?f (h\<lparr>hc_pc := pc'\<rparr>)"
    using sum_list_change [OF k, of ?f "h\<lparr>hc_pc := pc'\<rparr>"] by (simp add: w' h)
  then have "base j r + (\<Sum>x\<leftarrow>bw_calls w'. ?f x) + ?f h = held (bw_server w) j r + ?f (h\<lparr>hc_pc := pc'\<rparr>)"
    using old by (simp add: add.assoc)
  also have "\<dots> = held s' j r + ?f h"
    using own_delivered [OF st ok [OF hin], of j r] by simp
  finally show "held (bw_server w') j r = base j r +
      (\<Sum>h\<leftarrow>bw_calls w'. delivered (bw_server w') (hc_call h) (hc_pc h) j r)"
    by (simp add: w')
qed

subsection \<open>Every call takes a bounded number of steps\<close>

fun effort :: "nat \<Rightarrow> call_pc \<Rightarrow> nat" where
  "effort n Arrived = 4 * n + 6"
| "effort n RegLocked = 1"
| "effort n OrdOwn = 4"
| "effort n OrdReceiver = 3"
| "effort n OrdRound = 2"
| "effort n OrdRoundLocked = 1"
| "effort n MsgRaise = 3"
| "effort n MsgRaiseLocked = 2"
| "effort n MsgStore = 1"
| "effort n (Con mr Own) = 4 * n + 5"
| "effort n (ConNested mr Own) = 4 * n + 4"
| "effort n (ConLock mr dec) = 4 * n + 3"
| "effort n (Con mr (Count dec v ids)) = 2 * length ids + 2 * n + 2"
| "effort n (ConNested mr (Count dec v ids)) = 2 * length ids + 2 * n + 1"
| "effort n (Con mr (Agree dec v m ids)) = 2 * length ids + 1"
| "effort n (ConNested mr (Agree dec v m ids)) = 2 * length ids"
| "effort n (Answered a) = 0"

definition total_effort :: "nat \<Rightarrow> byz_world \<Rightarrow> nat" where
  "total_effort n w = (\<Sum>h\<leftarrow>bw_calls w. effort n (hc_pc h))"

lemma answers_effort [simp]: "effort n (rejected m) = 0" "effort n (accepted m) = 0"
  by (simp_all add: rejected_def accepted_def)

lemma decided_effort:
  assumes "subject_of i p = Some j"
  shows "effort n (decided i mr g p d) < effort n (ConNested mr p)"
  using assms by (cases p) (auto split: list.splits)

lemma nested_effort: "effort n (ConNested mr p) < effort n (Con mr p)"
  by (cases p) auto

lemma con_step_effort:
  assumes "con_step w ids i rnd pc = Some (s', pc')" and "server_wf (bw_server w)"
    and "length (Generals (bw_server w)) \<le> n"
  shows "effort n pc' < effort n pc"
proof (cases pc)
  case Arrived
  with assms(1) show ?thesis by (auto simp: Let_def split: if_splits option.splits)
next
  case (ConLock mr dec)
  with assms show ?thesis
    using enumerates_ids [OF _ refl assms(2), of ids] by (auto split: if_splits)
next
  case (Con mr p)
  show ?thesis
  proof (cases "subject_of i p")
    case None
    with assms Con show ?thesis
      using enumerates_ids [OF _ refl assms(2), of ids]
      by (cases p) (auto split: if_splits list.splits)
  next
    case (Some j)
    have "pc' = ConNested mr p \<or> (\<exists>g d. pc' = decided i mr g p d)"
      using assms(1) unfolding Con con_step_at [OF Some] by (auto split: option.splits if_split_asm)
    with decided_effort [OF Some, of n mr] nested_effort [of n mr p] Con show ?thesis
      by (metis order.strict_trans)
  qed
next
  case (ConNested mr p)
  with assms(1) obtain j g d where "subject_of i p = Some j" "pc' = decided i mr g p d"
    by (auto split: if_splits option.splits)
  with decided_effort [of i p j n mr g d] ConNested show ?thesis by simp
qed (use assms in simp_all)

lemma call_step_effort:
  assumes "call_step w ids c pc = Some (s', pc')" and "server_wf (bw_server w)"
    and "length (Generals (bw_server w)) \<le> n"
  shows "effort n pc' < effort n pc"
proof (cases c)
  case (Registering req)
  with assms show ?thesis by (cases pc) (auto split: if_splits prod.splits)
next
  case (Ordering req coin)
  with assms show ?thesis by (cases pc) (auto simp: Let_def split: if_splits option.splits)
next
  case (Exchanging req coin)
  with assms show ?thesis by (cases pc) (auto simp: Let_def after_round_def split: if_splits)
next
  case (Asking i rnd)
  with assms con_step_effort show ?thesis by auto
qed

lemma world_step_effort:
  assumes "world_step k ids w = Some w'" and "world_ok w" and "room w \<le> n"
  shows "total_effort n w' < total_effort n w"
proof -
  from assms(1) obtain h s' pc' where k: "k < length (bw_calls w)" and h: "h = bw_calls w ! k"
    and st: "call_step w ids (hc_call h) (hc_pc h) = Some (s', pc')"
    and w': "w' = \<lparr>bw_server = s', bw_calls = (bw_calls w)[k := h\<lparr>hc_pc := pc'\<rparr>]\<rparr>"
    by (rule world_stepE)
  have "effort n pc' < effort n (hc_pc h)"
    by (rule call_step_effort [OF st]) (use assms in \<open>auto simp: world_ok_def room_def\<close>)
  with sum_list_change [OF k, of "\<lambda>h. effort n (hc_pc h)" "h\<lparr>hc_pc := pc'\<rparr>"] show ?thesis
    by (simp add: total_effort_def w' h)
qed

lemma run_world_effort:
  assumes "run_world es w = Some w'" and "world_ok w" and "room w \<le> n"
  shows "length es + total_effort n w' \<le> total_effort n w"
  using assms
proof (induction es arbitrary: w)
  case Nil
  then show ?case by simp
next
  case (Cons e es)
  obtain k ids where e: "e = (k, ids)" by (cases e)
  from Cons.prems(1) obtain w1 where st: "world_step k ids w = Some w1"
    and rest: "run_world es w1 = Some w'"
    by (auto simp: e split: option.splits)
  have "room w1 \<le> n" using world_step_room [OF st] Cons.prems(3) by simp
  from Cons.IH [OF rest world_step_ok [OF st Cons.prems(2)] this]
    world_step_effort [OF st Cons.prems(2,3)] show ?case by simp
qed

subsection \<open>When calls have to wait\<close>

lemma blocked_call:
  assumes "blocked w" and "h \<in> set (bw_calls w)"
  shows "call_step w ids (hc_call h) (hc_pc h) = None"
proof (rule ccontr)
  assume "call_step w ids (hc_call h) (hc_pc h) \<noteq> None"
  then obtain s pc where st: "call_step w ids (hc_call h) (hc_pc h) = Some (s, pc)" by auto
  from assms(2) obtain k where "k < length (bw_calls w)" "bw_calls w ! k = h"
    by (auto simp: in_set_conv_nth)
  with st have "world_step k ids w \<noteq> None" by (simp add: world_step_def)
  with assms(1) show False by (simp add: blocked_def)
qed

fun is_nested :: "call_pc \<Rightarrow> bool" where
  "is_nested (ConNested _ _) = True"
| "is_nested _ = False"

lemma owned_nested: "owned c pc = Some i \<Longrightarrow> is_nested pc"
  by (cases "(c, pc)" rule: owned.cases) auto

lemma busy_nested:
  assumes "\<not> general_free i w"
  obtains h where "h \<in> set (bw_calls w)" and "is_nested (hc_pc h)"
  using assms by (auto simp: general_free_def list_all_iff dest: owned_nested)

lemma nested_goes_on:
  assumes "call_ok (bw_server w) c pc" and "is_nested pc" and "no_writer w"
  shows "call_step w ids c pc \<noteq> None"
  using assms
  by (cases c; cases pc) (auto simp: nested_ok_def split: option.splits)

text \<open>Without an announced writer, a call that is not inside makeDecision waits only for a general.\<close>

lemma goes_on:
  assumes "call_ok (bw_server w) c pc" and "no_writer w" and "server_wf (bw_server w)"
    and "\<And>i. general_free i w" and "\<And>a. pc \<noteq> Answered a" and "\<not> announced pc"
    and "\<not> is_nested pc"
  shows "\<exists>ids. call_step w ids c pc \<noteq> None"
proof (cases c)
  case (Asking i rnd)
  have all: "enumerates (Generals (bw_server w)) (map fst (Generals (bw_server w)))"
    using assms(3) by (auto simp: server_wf_def enumerates_self)
  show ?thesis
  proof (cases pc)
    case (Con mr p)
    show ?thesis
    proof (cases "subject_of i p")
      case None
      with Con Asking all show ?thesis by (cases p) (auto split: list.splits)
    next
      case (Some j)
      with assms(1) Con Asking have "registered (bw_server w) j"
        by (cases p) (auto split: list.splits)
      then show ?thesis
        unfolding Asking Con call_step.simps con_step_at [OF Some]
        by (auto simp: registered_def assms(4))
    qed
  next
    case (ConLock mr dec)
    with Asking all assms(2) show ?thesis by auto
  qed (use Asking assms in \<open>auto simp: Let_def\<close>)
next
  case (Registering req)
  with assms show ?thesis by (cases pc) auto
next
  case (Ordering req coin)
  with assms show ?thesis by (cases pc) (auto simp: Let_def)
next
  case (Exchanging req coin)
  with assms show ?thesis by (cases pc) (auto simp: Let_def)
qed

lemma announced_goes_on:
  assumes "call_ok (bw_server w) c pc" and "announced pc" and "no_reader w"
  shows "call_step w ids c pc \<noteq> None"
  using assms by (cases c; cases pc) (auto simp: Let_def split: prod.split)

lemma reader_goes_on:
  assumes "call_ok (bw_server w) c pc" and "reading pc" and "\<not> is_nested pc"
    and "server_wf (bw_server w)" and "\<And>i. general_free i w"
  shows "\<exists>ids. call_step w ids c pc \<noteq> None"
proof -
  from assms(1-3) obtain i rnd mr p where c: "c = Asking i rnd" and pc: "pc = Con mr p"
    by (cases pc; cases c) auto
  have all: "enumerates (Generals (bw_server w)) (map fst (Generals (bw_server w)))"
    using assms(4) by (auto simp: server_wf_def enumerates_self)
  show ?thesis
  proof (cases "subject_of i p")
    case None
    with c pc all show ?thesis by (cases p) (auto split: list.splits)
  next
    case (Some j)
    with assms(1) c pc have "registered (bw_server w) j"
      by (cases p) (auto split: list.splits)
    then show ?thesis
      unfolding c pc call_step.simps con_step_at [OF Some]
      by (auto simp: registered_def assms(5))
  qed
qed

text \<open>
  A deadlock needs three calls: one inside makeDecision that waits for the read lock, a writer that waits
  for the readers to leave, and a reader that cannot leave.
\<close>

lemma blocked_shape:
  assumes "world_ok w" and "blocked w" and "\<exists>h \<in> set (bw_calls w). \<not> answered h"
  shows "(\<exists>h \<in> set (bw_calls w). is_nested (hc_pc h))
    \<and> (\<exists>h \<in> set (bw_calls w). announced (hc_pc h)) \<and> (\<exists>h \<in> set (bw_calls w). reading (hc_pc h))"
proof -
  have ok: "call_ok (bw_server w) (hc_call h) (hc_pc h)" if "h \<in> set (bw_calls w)" for h
    using assms(1) that by (simp add: world_ok_def)
  have wf: "server_wf (bw_server w)" using assms(1) by (simp add: world_ok_def)
  have stop: "call_step w ids (hc_call h) (hc_pc h) = None" if "h \<in> set (bw_calls w)" for h ids
    by (rule blocked_call [OF assms(2) that])
  have writer: "\<not> no_writer w"
  proof
    assume now: "no_writer w"
    have none: "\<not> is_nested (hc_pc h)" if "h \<in> set (bw_calls w)" for h
      using nested_goes_on [OF ok [OF that] _ now] stop [OF that] by blast
    have free: "general_free i w" for i by (rule ccontr, erule busy_nested) (simp add: none)
    from assms(3) obtain h where h: "h \<in> set (bw_calls w)" "\<not> answered h" by blast
    have "\<exists>ids. call_step w ids (hc_call h) (hc_pc h) \<noteq> None"
      by (rule goes_on [OF ok [OF h(1)] now wf free])
        (use h now none in \<open>auto simp: answered_def no_writer_def list_all_iff\<close>)
    with stop [OF h(1)] show False by simp
  qed
  then obtain hw where hw: "hw \<in> set (bw_calls w)" "announced (hc_pc hw)"
    by (auto simp: no_writer_def list_all_iff)
  have "\<not> no_reader w"
    using announced_goes_on [OF ok [OF hw(1)] hw(2)] stop [OF hw(1)] by blast
  then obtain hr where hr: "hr \<in> set (bw_calls w)" "reading (hc_pc hr)"
    by (auto simp: no_reader_def list_all_iff)
  have "\<exists>h \<in> set (bw_calls w). is_nested (hc_pc h)"
  proof (rule ccontr)
    assume none: "\<not> ?thesis"
    have free: "general_free i w" for i by (rule ccontr, erule busy_nested) (use none in blast)
    have "\<exists>ids. call_step w ids (hc_call hr) (hc_pc hr) \<noteq> None"
      by (rule reader_goes_on [OF ok [OF hr(1)] hr(2) _ wf free]) (use none hr(1) in blast)
    with stop [OF hr(1)] show False by simp
  qed
  with hw hr show ?thesis by blast
qed

lemma nested_commander:
  assumes "world_ok w" and "h \<in> set (bw_calls w)" and "is_nested (hc_pc h)"
  obtains i g where "map_of (Generals (bw_server w)) i = Some g" and "\<not> g_IsTraitor g"
    and "g_Role g = COMMANDER" and "held (bw_server w) i 1 = {#}"
proof -
  from assms have "call_ok (bw_server w) (hc_call h) (hc_pc h)" by (simp add: world_ok_def)
  with assms(3) obtain i p g mr where g: "map_of (Generals (bw_server w)) i = Some g"
    and inf: "infers g mr" and mr: "1 \<le> mr"
    by (cases "hc_call h"; cases "hc_pc h") (auto simp: nested_ok_def split: option.splits)
  have "size (values_upto (g_Messages g) mr) = 0"
    using inf attacks_plus_retreats [of "values_upto (g_Messages g) mr"]
    by (simp add: infers_def count_rounds_values)
  then have "values_upto (g_Messages g) mr = {#}" by simp
  moreover have "[1..mr] = 1 # [2..mr]" using mr by (simp add: upto_rec1)
  ultimately have "round_values (g_Messages g) 1 = {#}" by (simp add: values_upto_def)
  with g have "held (bw_server w) i 1 = {#}" by (simp add: held_def)
  with g inf that show ?thesis by (auto simp: infers_def)
qed

end
