(* ===== verification/Byz_Concurrent_Theorems.thy ===== *)
theory Byz_Concurrent_Theorems
  imports Byz_Concurrent_Laws
begin

text \<open>
  The properties of the Byzantine server under concurrent calls: an uninterrupted call does what its
  handler in \<open>Byz_Server\<close> does in one step; no stored value is lost and none is stored twice, however the
  calls interleave; all calls are answered as long as every loyal commander has sent an order; and the
  one constellation in which the server stops for ever.
\<close>

subsection \<open>A call that is not interrupted\<close>

fun idle :: "call_pc \<Rightarrow> bool" where
  "idle Arrived = True"
| "idle (Answered _) = True"
| "idle _ = False"

text \<open>Call \<open>k\<close> stands at a place, the other calls have not begun or are over.\<close>

definition at_place :: "nat \<Rightarrow> byz_world \<Rightarrow> handler_call \<Rightarrow> ByzantineServer \<Rightarrow> call_pc \<Rightarrow> byz_world" where
  "at_place k w c s pc =
     \<lparr>bw_server = s, bw_calls = (bw_calls w)[k := \<lparr>hc_call = c, hc_pc = pc\<rparr>]\<rparr>"

definition others_idle :: "nat \<Rightarrow> byz_world \<Rightarrow> bool" where
  "others_idle k w \<longleftrightarrow> k < length (bw_calls w)
     \<and> (\<forall>l < length (bw_calls w). l \<noteq> k \<longrightarrow> idle (hc_pc (bw_calls w ! l)))"

lemma idle_free: "idle pc \<Longrightarrow> \<not> announced pc \<and> \<not> reading pc \<and> owned c pc = None"
  by (cases pc) auto

lemma list_all_others:
  assumes "k < length xs" and "\<And>l. l < length xs \<Longrightarrow> l \<noteq> k \<Longrightarrow> P (xs ! l)"
  shows "list_all P (xs[k := x]) \<longleftrightarrow> P x"
proof
  assume "list_all P (xs[k := x])"
  then show "P x" using assms(1) by (metis length_list_update list_all_length nth_list_update_eq)
next
  assume "P x"
  then show "list_all P (xs[k := x])"
    unfolding list_all_length using assms by (auto simp: nth_list_update)
qed

lemma alone_locks:
  assumes "others_idle k w"
  shows "no_writer (at_place k w c s pc) \<longleftrightarrow> \<not> announced pc"
    and "no_reader (at_place k w c s pc) \<longleftrightarrow> \<not> reading pc"
    and "general_free i (at_place k w c s pc) \<longleftrightarrow> owned c pc \<noteq> Some i"
  using assms idle_free
  by (simp_all add: no_writer_def no_reader_def general_free_def at_place_def others_idle_def
      list_all_others)

lemma alone_step:
  assumes "others_idle k w"
  shows "world_step k ids (at_place k w c s pc) =
    (case call_step (at_place k w c s pc) ids c pc of
       None \<Rightarrow> None | Some (s', pc') \<Rightarrow> Some (at_place k w c s' pc'))"
  using assms by (simp add: world_step_def at_place_def others_idle_def split: option.split)

lemma at_place_server [simp]: "bw_server (at_place k w c s pc) = s"
  by (simp add: at_place_def)

text \<open>What the handler does in one step.\<close>

fun atomic :: "handler_call \<Rightarrow> ByzantineServer \<Rightarrow> ByzantineServer \<times> handler_answer" where
  "atomic (Registering req) s = (case RegisterGeneral s req of (s', a) \<Rightarrow> (s', RegisterAnswer a))"
| "atomic (Ordering req coin) s = (case SendOrder coin s req of (s', a) \<Rightarrow> (s', ReceivedAnswer a))"
| "atomic (Exchanging req coin) s =
     (case ExchangeMessage coin s req of (s', a) \<Rightarrow> (s', ReceivedAnswer a))"
| "atomic (Asking i rnd) s = (s, ConsensusAnswer (GetConsensus s rnd i))"

text \<open>The call gets from one place to another by steps of its own.\<close>

inductive gets :: "nat \<Rightarrow> byz_world \<Rightarrow> handler_call
    \<Rightarrow> ByzantineServer \<Rightarrow> call_pc \<Rightarrow> ByzantineServer \<Rightarrow> call_pc \<Rightarrow> bool"
  for k w c where
  here: "gets k w c s pc s pc"
| step: "world_step k ids (at_place k w c s pc) = Some (at_place k w c s1 pc1)
    \<Longrightarrow> gets k w c s1 pc1 s2 pc2 \<Longrightarrow> gets k w c s pc s2 pc2"

lemma gets_run:
  assumes "gets k w c s pc s' pc'"
  shows "\<exists>es. fst ` set es \<subseteq> {k} \<and> run_world es (at_place k w c s pc) = Some (at_place k w c s' pc')"
  using assms
proof (induction rule: gets.induct)
  case (here s pc)
  have "run_world [] (at_place k w c s pc) = Some (at_place k w c s pc)" by simp
  then show ?case by (metis empty_set empty_subsetI image_empty)
next
  case (step ids s pc s1 pc1 s2 pc2)
  then obtain es where "fst ` set es \<subseteq> {k}"
    and "run_world es (at_place k w c s1 pc1) = Some (at_place k w c s2 pc2)" by blast
  with step.hyps(1) show ?case by (intro exI [of _ "(k, ids) # es"]) simp
qed

lemma gets_step:
  assumes "others_idle k w" and "call_step (at_place k w c s pc) ids c pc = Some (s1, pc1)"
    and "gets k w c s1 pc1 s2 pc2"
  shows "gets k w c s pc s2 pc2"
  by (rule gets.step [OF _ assms(3), of ids]) (simp add: alone_step [OF assms(1)] assms(2))

text \<open>A step in front, for backward reasoning.\<close>

lemma gets_first:
  assumes "others_idle k w" and "gets k w c s1 pc1 s2 pc2"
    and "call_step (at_place k w c s pc) [] c pc = Some (s1, pc1)"
  shows "gets k w c s pc s2 pc2"
  by (rule gets_step [OF assms(1) assms(3) assms(2)])

lemma registering_alone:
  assumes "others_idle k w" and "atomic (Registering req) s = (s', a)"
  shows "gets k w (Registering req) s Arrived s' (Answered a)"
proof -
  note free = alone_locks [OF assms(1)]
  have "gets k w (Registering req) s RegLocked s' (Answered a)"
    by (rule gets_first [OF assms(1) gets.here]) (use assms(2) in \<open>auto simp: free split: prod.splits\<close>)
  then show ?thesis by (rule gets_first [OF assms(1)]) (simp add: free)
qed

lemma update_other_traitor:
  "is_traitor (update_general i (store_message r k v) s) j = is_traitor s j"
  using traitor_frame(1) [of r k i v s j] by (simp add: deliver_def)

lemma ordering_alone:
  assumes "others_idle k w" and "atomic (Ordering req coin) s = (s', a)"
  shows "gets k w (Ordering req coin) s Arrived s' (Answered a)"
proof -
  note free = alone_locks [OF assms(1)]
  note first = gets_first [OF assms(1)]
  let ?c = "Ordering req coin"
  show ?thesis
  proof (cases "map_of (Generals s) (ord_SenderId req) \<noteq> None \<and> map_of (Generals s) (ord_ReceiverId req) \<noteq> None
      \<and> g_Role (the (map_of (Generals s) (ord_SenderId req))) = COMMANDER")
    case False
    show ?thesis
      by (rule first [OF gets.here])
        (use False assms(2) in \<open>auto simp: free SendOrder_def rejected_def Let_def split: option.splits\<close>)
  next
    case True
    then obtain g g2 where g: "map_of (Generals s) (ord_SenderId req) = Some g" "g_Role g = COMMANDER"
      "map_of (Generals s) (ord_ReceiverId req) = Some g2" by auto
    let ?s1 = "update_general (ord_SenderId req) (store_message 1 (ord_SenderId req) (ord_Order req)) s"
    let ?s2 = "update_general (ord_ReceiverId req) (store_message 1 (ord_SenderId req)
        (relay_value (g_IsTraitor g) coin (ord_Order req))) ?s1"
    have tr: "is_traitor s (ord_SenderId req) = g_IsTraitor g" by (simp add: is_traitor_def g)
    have res: "s' = (if CurrentRound ?s2 = 0 then ?s2\<lparr>CurrentRound := 1\<rparr> else ?s2)"
      "accepted ''Order received'' = Answered a"
      using assms(2) g by (auto simp: SendOrder_def accepted_def Let_def split: option.splits)
    have "gets k w ?c ?s2 OrdRoundLocked s' (Answered a)"
      by (rule first [OF gets.here]) (simp add: free res(1), simp add: res(2))
    then have "gets k w ?c ?s2 OrdRound s' (Answered a)" by (rule first) (simp add: free)
    then have "gets k w ?c ?s1 OrdReceiver s' (Answered a)"
      by (rule first) (simp add: free update_other_traitor tr)
    then have "gets k w ?c s OrdOwn s' (Answered a)" by (rule first) (simp add: free)
    then show ?thesis by (rule first) (simp add: free Let_def g)
  qed
qed

lemma exchanging_alone:
  assumes "others_idle k w" and "atomic (Exchanging req coin) s = (s', a)"
  shows "gets k w (Exchanging req coin) s Arrived s' (Answered a)"
proof -
  note free = alone_locks [OF assms(1)]
  note first = gets_first [OF assms(1)]
  let ?c = "Exchanging req coin"
  show ?thesis
  proof (cases "map_of (Generals s) (msg_SenderId req) \<noteq> None \<and> map_of (Generals s) (msg_ReceiverId req) \<noteq> None
      \<and> CurrentRound s \<le> msg_Round req")
    case False
    show ?thesis
      by (rule first [OF gets.here])
        (use False assms(2) in \<open>auto simp: free ExchangeMessage_def rejected_def Let_def split: option.splits\<close>)
  next
    case True
    then obtain g g2 where g: "map_of (Generals s) (msg_SenderId req) = Some g"
      "map_of (Generals s) (msg_ReceiverId req) = Some g2" "CurrentRound s \<le> msg_Round req" by auto
    let ?s1 = "if msg_Round req > CurrentRound s then s\<lparr>CurrentRound := msg_Round req\<rparr> else s"
    have tr: "is_traitor ?s1 (msg_SenderId req) = g_IsTraitor g" by (simp add: is_traitor_def g)
    have end_of: "gets k w ?c ?s1 (after_round req) s' (Answered a)"
    proof (cases "msg_ReceiverId req \<in> set (msg_Path req)")
      case True
      then have "s' = ?s1" "after_round req = Answered a"
        using assms(2) g by (auto simp: ExchangeMessage_def rejected_def after_round_def Let_def)
      then show ?thesis by (simp add: gets.here)
    next
      case False
      then have res: "s' = update_general (msg_ReceiverId req) (store_message (msg_Round req) (msg_SenderId req)
            (relay_value (g_IsTraitor g) coin (msg_Value req))) ?s1"
          "accepted ''Message received'' = Answered a"
        using assms(2) g by (auto simp: ExchangeMessage_def accepted_def Let_def)
      have "gets k w ?c ?s1 MsgStore s' (Answered a)"
        by (rule first [OF gets.here]) (simp only: call_step.simps msg_step.simps free res tr at_place_server, simp)
      with False show ?thesis by (simp add: after_round_def)
    qed
    show ?thesis
    proof (cases "msg_Round req > CurrentRound s")
      case True
      from end_of have "gets k w ?c s MsgRaiseLocked s' (Answered a)"
        by (rule first) (simp add: free Let_def)
      then have "gets k w ?c s MsgRaise s' (Answered a)" by (rule first) (simp add: free)
      then show ?thesis by (rule first) (use True in \<open>simp add: free Let_def g\<close>)
    next
      case False
      from end_of show ?thesis
        by (rule first) (use False g in \<open>simp add: free Let_def\<close>)
    qed
  qed
qed

subsection \<open>GetConsensus without interruption\<close>

lemma infers_decision:
  "infers g mr \<Longrightarrow> makeDecision (Generals s) order coin g mr = inferred_order s order g"
  by (simp add: infers_def makeDecision_def inferred_order_def)

lemma counted_decision:
  "\<not> infers g mr \<Longrightarrow> makeDecision gs [] coin g mr = makeDecision gs order coin g mr"
  by (auto simp: infers_def makeDecision_def Let_def prod_eq_iff)

lemma decision_alone:
  assumes "others_idle k w" and "subject_of i p = Some j" and "map_of (Generals s) j = Some g"
    and "g_ID g = j"
    and "gets k w (Asking i rnd) s (decided i (MaxRounds s) g p (decide_at s rnd (place_no p) g)) s' pc'"
  shows "gets k w (Asking i rnd) s (Con (MaxRounds s) p) s' pc'"
proof -
  note free = alone_locks [OF assms(1)]
  note first = gets_first [OF assms(1)]
  let ?mr = "MaxRounds s"
  have at: "call_step (at_place k w (Asking i rnd) s (Con ?mr p)) [] (Asking i rnd) (Con ?mr p) =
      Some (s, if infers g ?mr then ConNested ?mr p
               else decided i ?mr g p (makeDecision (Generals s) [] (rnd_coin rnd (place_no p) j) g ?mr))"
    unfolding call_step.simps con_step_at [OF assms(2)] by (simp add: assms(3) free)
  show ?thesis
  proof (cases "infers g ?mr")
    case True
    have "gets k w (Asking i rnd) s (ConNested ?mr p) s' pc'"
      by (rule first [OF assms(5)])
        (simp add: assms(2-4) free decide_at_def infers_decision [OF True])
    then show ?thesis by (rule first) (simp only: at True if_True)
  next
    case False
    from assms(5) show ?thesis
      by (rule first)
        (simp only: at False if_False decide_at_def assms(4)
          counted_decision [OF False, of _ _ "rnd_order rnd (place_no p) j"])
  qed
qed

lemma count_alone:
  assumes "others_idle k w" and "\<forall>(j, g) \<in> set es. map_of (Generals s) j = Some g \<and> g_ID g = j"
    and "gets k w (Asking i rnd) s (Con (MaxRounds s) (Count dec
           (foldl count_vote v (map (\<lambda>(_, g). (g_IsTraitor g, decide_at s rnd 1 g)) es)) [])) s' pc'"
  shows "gets k w (Asking i rnd) s (Con (MaxRounds s) (Count dec v (map fst es))) s' pc'"
  using assms(2,3)
proof (induction es arbitrary: v)
  case Nil
  then show ?case by simp
next
  case (Cons e es)
  obtain j g where e: "e = (j, g)" by (cases e)
  have "gets k w (Asking i rnd) s (Con (MaxRounds s) (Count dec
      (count_vote v (g_IsTraitor g, decide_at s rnd 1 g)) (map fst es))) s' pc'"
    by (rule Cons.IH) (use Cons.prems in \<open>auto simp: e\<close>)
  then show ?case
    by (intro decision_alone [OF assms(1), where j = j and g = g])
       (use Cons.prems(1) in \<open>auto simp: e\<close>)
qed

lemma agree_alone:
  assumes "others_idle k w" and "\<forall>(j, g) \<in> set es. map_of (Generals s) j = Some g \<and> g_ID g = j"
  shows "gets k w (Asking i rnd) s (Con (MaxRounds s) (Agree dec v m (map fst es))) s
    (Answered (consensus_answer i dec v m
       (list_all (\<lambda>(_, g). g_IsTraitor g \<or> decide_at s rnd 2 g = m) es)))"
  using assms(2)
proof (induction es)
  case Nil
  show ?case by (rule gets_first [OF assms(1) gets.here]) simp
next
  case (Cons e es)
  obtain j g where e: "e = (j, g)" by (cases e)
  from Cons.prems have j: "map_of (Generals s) j = Some g" "g_ID g = j" by (simp_all add: e)
  show ?case
  proof (rule decision_alone [OF assms(1) _ j])
    show "gets k w (Asking i rnd) s (decided i (MaxRounds s) g (Agree dec v m (map fst (e # es)))
        (decide_at s rnd (place_no (Agree dec v m (map fst (e # es)))) g)) s
      (Answered (consensus_answer i dec v m
         (list_all (\<lambda>(_, g). g_IsTraitor g \<or> decide_at s rnd 2 g = m) (e # es))))"
    proof (cases "g_IsTraitor g \<or> decide_at s rnd 2 g = m")
      case True
      with Cons show ?thesis by (auto simp: e)
    next
      case False
      then show ?thesis by (simp add: e gets.here)
    qed
  qed (simp add: e)
qed

lemma asking_alone:
  assumes "others_idle k w" and "server_wf s"
  shows "gets k w (Asking i rnd) s Arrived s (Answered (ConsensusAnswer (GetConsensus s rnd i)))"
proof -
  note free = alone_locks [OF assms(1)]
  note first = gets_first [OF assms(1)]
  let ?c = "Asking i rnd" and ?mr = "MaxRounds s" and ?ids = "map fst (Generals s)"
  let ?a = "Answered (ConsensusAnswer (GetConsensus s rnd i))"
  have es: "\<forall>(j, g) \<in> set (Generals s). map_of (Generals s) j = Some g \<and> g_ID g = j"
    using assms(2) by (auto simp: server_wf_def gmap_ok_def)
  have all: "enumerates (Generals s) ?ids"
    using assms(2) by (simp add: server_wf_def enumerates_self)
  show ?thesis
  proof (cases "map_of (Generals s) i")
    case None
    show ?thesis
      by (rule first [OF gets.here]) (simp add: None free Let_def GetConsensus_def)
  next
    case (Some g)
    let ?dec = "decide_at s rnd 0 g" and ?v = "count_votes s rnd"
    have id: "g_ID g = i" using es Some by (auto dest: map_of_SomeD)
    have ans: "?a = Answered (consensus_answer i ?dec ?v (loyal_majority ?v)
        (list_all (\<lambda>(_, g). g_IsTraitor g \<or> decide_at s rnd 2 g = loyal_majority ?v) (Generals s)))"
      by (simp add: GetConsensus_def Some consensus_answer_def loyal_majority_def Let_def
          all_loyal_agree_def split: prod.split)
    have "gets k w ?c s (Con ?mr (Agree ?dec ?v (loyal_majority ?v) ?ids)) s ?a"
      unfolding ans by (rule agree_alone [OF assms(1) es])
    then have "gets k w ?c s (Con ?mr (Count ?dec ?v [])) s ?a"
      by (rule gets_step [OF assms(1), where ids = ?ids, rotated]) (simp add: all)
    then have "gets k w ?c s (Con ?mr (Count ?dec (0, 0, 0, 0) ?ids)) s ?a"
      by (intro count_alone [OF assms(1) es]) (simp add: count_votes_def)
    then have "gets k w ?c s (ConLock ?mr ?dec) s ?a"
      by (rule gets_step [OF assms(1), where ids = ?ids, rotated]) (simp add: all free)
    then have "gets k w ?c s (Con ?mr Own) s ?a"
      by (intro decision_alone [OF assms(1) _ Some id]) simp_all
    then show ?thesis by (rule first) (simp add: free Let_def Some)
  qed
qed

lemma at_place_same:
  assumes "k < length (bw_calls w)" and "bw_calls w ! k = \<lparr>hc_call = c, hc_pc = pc\<rparr>"
  shows "at_place k w c (bw_server w) pc = w"
proof -
  have "(bw_calls w)[k := \<lparr>hc_call = c, hc_pc = pc\<rparr>] = bw_calls w"
    using assms(2) list_update_id [of "bw_calls w" k] by simp
  then show ?thesis by (simp add: at_place_def)
qed

text \<open>C15. A call that is not interrupted, while the other calls have not begun or are over, gets the
  answer of the one-step handler and leaves the server as the one-step handler does: the step-wise handlers
  refine the atomic ones.\<close>

theorem uninterrupted_call_is_atomic:
  assumes "others_idle k w" and "bw_calls w ! k = \<lparr>hc_call = c, hc_pc = Arrived\<rparr>"
    and "server_wf (bw_server w)"
  shows "\<exists>es. fst ` set es \<subseteq> {k} \<and> run_world es w =
    Some (at_place k w c (fst (atomic c (bw_server w))) (Answered (snd (atomic c (bw_server w)))))"
proof -
  let ?s = "bw_server w"
  have "gets k w c ?s Arrived (fst (atomic c ?s)) (Answered (snd (atomic c ?s)))"
  proof (cases c)
    case (Registering req)
    then show ?thesis using registering_alone [OF assms(1)] by (metis prod.collapse)
  next
    case (Ordering req coin)
    then show ?thesis using ordering_alone [OF assms(1)] by (metis prod.collapse)
  next
    case (Exchanging req coin)
    then show ?thesis using exchanging_alone [OF assms(1)] by (metis prod.collapse)
  next
    case (Asking i rnd)
    with asking_alone [OF assms(1,3)] show ?thesis by simp
  qed
  moreover have "at_place k w c ?s Arrived = w"
    using at_place_same assms(1,2) by (simp add: others_idle_def)
  ultimately show ?thesis by (metis gets_run)
qed

theorem uninterrupted_call_is_atomic_witness:
  "\<exists>es. fst ` set es \<subseteq> {0} \<and> run_world es (byz_arrivals
      [Registering \<lparr>reg_Id = 3, reg_Role = LIEUTENANT, reg_IsTraitor = True\<rparr>]) =
    Some \<lparr>bw_server = fst (RegisterGeneral NewByzantineServer
            \<lparr>reg_Id = 3, reg_Role = LIEUTENANT, reg_IsTraitor = True\<rparr>),
          bw_calls = [\<lparr>hc_call = Registering \<lparr>reg_Id = 3, reg_Role = LIEUTENANT, reg_IsTraitor = True\<rparr>,
            hc_pc = Answered (RegisterAnswer (snd (RegisterGeneral NewByzantineServer
              \<lparr>reg_Id = 3, reg_Role = LIEUTENANT, reg_IsTraitor = True\<rparr>)))\<rparr>]\<rparr>"
  using uninterrupted_call_is_atomic [of 0
      "byz_arrivals [Registering \<lparr>reg_Id = 3, reg_Role = LIEUTENANT, reg_IsTraitor = True\<rparr>]"
      "Registering \<lparr>reg_Id = 3, reg_Role = LIEUTENANT, reg_IsTraitor = True\<rparr>"]
  by (simp add: byz_arrivals_def others_idle_def at_place_def case_prod_beta)

subsection \<open>Calls that interleave\<close>

lemma byz_arrivals_ok:
  assumes "length cs < 2147483647"
  shows "world_ok (byz_arrivals cs)" and "room (byz_arrivals cs) \<le> length cs"
proof -
  have one: "pending c Arrived \<le> 1" for c by (cases c) simp_all
  have "(\<Sum>c\<leftarrow>cs. pending c Arrived) \<le> length cs"
  proof (induction cs)
    case (Cons c cs)
    with one [of c] show ?case by simp
  qed simp
  then show "room (byz_arrivals cs) \<le> length cs"
    by (simp add: room_def byz_arrivals_def o_def NewByzantineServer_def)
  moreover have "call_ok NewByzantineServer c Arrived" for c by (cases c) simp_all
  ultimately show "world_ok (byz_arrivals cs)"
    using assms by (auto simp: world_ok_def byz_arrivals_def)
qed

lemma byz_arrivals_books: "books (\<lambda>_ _. {#}) (byz_arrivals cs)"
  by (simp add: books_def byz_arrivals_def held_def NewByzantineServer_def delivered_def o_def)

lemma reached_ok:
  assumes "length cs < 2147483647" and "run_world es (byz_arrivals cs) = Some w"
  shows "world_ok w" and "books (\<lambda>_ _. {#}) w"
proof -
  have "world_ok w \<and> books (\<lambda>_ _. {#}) w"
    using assms(2)
  proof (induction rule: run_world_induct)
    case start
    show ?case using byz_arrivals_ok(1) [OF assms(1)] byz_arrivals_books by simp
  next
    case (step k ids w w')
    then show ?case using world_step_ok world_step_books by blast
  qed
  then show "world_ok w" "books (\<lambda>_ _. {#}) w" by simp_all
qed

text \<open>What a call that was accepted leaves in the log of general \<open>j\<close> for round \<open>r\<close>.\<close>

definition accepted_values :: "ByzantineServer \<Rightarrow> handler \<Rightarrow> int \<Rightarrow> int \<Rightarrow> Decision multiset" where
  "accepted_values s h j r =
     (if is_accepted (hc_pc h)
      then own_value (hc_call h) j r + passed_value s (hc_call h) j r else {#})"

lemma answered_delivered:
  "answered h \<Longrightarrow> delivered s (hc_call h) (hc_pc h) j r = accepted_values s h j r"
  by (auto simp: answered_def delivered_def accepted_values_def split: call_pc.splits)

text \<open>C7. However the calls of RegisterGeneral, SendOrder, ExchangeMessage and GetConsensus interleave, the
  counters of the server agree with its generals; and when all calls are answered the log of every general holds, for
  every round, exactly the values of the calls that were answered with Received = true (turned round by a
  traitor's coin), each as often as it was sent: calls that were rejected have left nothing.\<close>

theorem concurrent_calls_keep_every_value:
  assumes "length cs < 2147483647" and "run_world es (byz_arrivals cs) = Some w"
    and "\<forall>h \<in> set (bw_calls w). answered h"
  shows "server_wf (bw_server w)
    \<and> held (bw_server w) j r = (\<Sum>h\<leftarrow>bw_calls w. accepted_values (bw_server w) h j r)"
  using reached_ok [OF assms(1,2)] assms(3)
  by (simp add: world_ok_def books_def answered_delivered cong: map_cong)

text \<open>C18. A server that receives less than 2^31 - 1 calls takes at most 4 n + 6 steps for each of
  its n calls, in every interleaving; and as long as every loyal commander holds a value of round 1, as SendOrder
  leaves it there, the server never comes to a state in which nothing can go on before every call is answered.\<close>

theorem every_call_is_answered:
  assumes "length cs < 2147483647" and "run_world es (byz_arrivals cs) = Some w"
    and "\<forall>i g. map_of (Generals (bw_server w)) i = Some g \<and> g_Role g = COMMANDER
           \<and> \<not> g_IsTraitor g \<longrightarrow> held (bw_server w) i 1 \<noteq> {#}"
  shows "length es \<le> length cs * (4 * length cs + 6)
    \<and> (blocked w \<longrightarrow> (\<forall>h \<in> set (bw_calls w). answered h))"
proof (intro conjI impI)
  have "total_effort (length cs) (byz_arrivals cs) = length cs * (4 * length cs + 6)"
    by (simp add: total_effort_def byz_arrivals_def o_def sum_list_triv)
  with run_world_effort [OF assms(2) byz_arrivals_ok [OF assms(1)]]
  show "length es \<le> length cs * (4 * length cs + 6)" by linarith
next
  assume stop: "blocked w"
  have ok: "world_ok w" by (rule reached_ok(1) [OF assms(1,2)])
  show "\<forall>h \<in> set (bw_calls w). answered h"
  proof (rule ccontr)
    assume "\<not> ?thesis"
    with blocked_shape [OF ok stop] obtain h where
      h: "h \<in> set (bw_calls w)" "is_nested (hc_pc h)" by blast
    from nested_commander [OF ok h] assms(3) show False by metis
  qed
qed

subsection \<open>Two small runs\<close>

text \<open>
  In the first one a loyal commander gives its order to itself, and somebody asks for the consensus
  while the order is under way. In the second one somebody asks before the commander has given an order, and a
  registration arrives between the two read locks.
\<close>

definition commander_request :: RegisterRequest where
  "commander_request = \<lparr>reg_Id = 0, reg_Role = COMMANDER, reg_IsTraitor = False\<rparr>"

definition no_luck :: consensus_rnd where
  "no_luck = \<lparr>rnd_coin = (\<lambda>_ _. False), rnd_order = (\<lambda>_ _. [])\<rparr>"

definition order_calls :: "handler_call list" where
  "order_calls = [Registering commander_request,
     Ordering \<lparr>ord_SenderId = 0, ord_ReceiverId = 0, ord_Order = ATTACK\<rparr> False, Asking 0 no_luck]"

definition order_events :: "(nat \<times> int list) list" where
  "order_events = [(0, []), (0, []), (1, []), (2, []), (1, []), (2, []), (1, []), (2, [0]), (1, []), (2, []),
     (2, [0]), (2, []), (2, []), (1, [])]"

definition early_calls :: "handler_call list" where
  "early_calls = [Registering commander_request, Asking 0 no_luck,
     Registering \<lparr>reg_Id = 1, reg_Role = LIEUTENANT, reg_IsTraitor = False\<rparr>]"

definition early_events :: "(nat \<times> int list) list" where
  "early_events = [(0, []), (0, []), (1, []), (1, []), (1, []), (1, [0]), (1, []), (2, [])]"

definition order_world :: byz_world where
  "order_world = the (run_world order_events (byz_arrivals order_calls))"

definition early_world :: byz_world where
  "early_world = the (run_world early_events (byz_arrivals early_calls))"

lemmas small_runs = commander_request_def no_luck_def order_calls_def order_events_def early_calls_def
  early_events_def byz_arrivals_def NewByzantineServer_def world_step_def Let_def no_writer_def
  no_reader_def general_free_def RegisterGeneral_def i32_def update_general_def store_message_def
  relay_value_def is_traitor_def infers_def enumerates_def inferred_order_def majority_def
  makeDecision_def gget_def count_vote_def loyal_majority_def

lemma early_run:
  "run_world early_events (byz_arrivals early_calls) = Some early_world"
  "map hc_call (bw_calls early_world) = early_calls"
  "hc_pc (bw_calls early_world ! 1) = ConNested 1 (Count RETREAT (0, 0, 0, 0) [0])"
  "hc_pc (bw_calls early_world ! 2) = RegLocked"
  "answered (bw_calls early_world ! 0)"
  unfolding early_world_def
  by (simp_all add: small_runs upto_rec1 answered_def)

lemma early_calls_are:
  "\<exists>h. bw_calls early_world = [h,
     \<lparr>hc_call = Asking 0 no_luck, hc_pc = ConNested 1 (Count RETREAT (0, 0, 0, 0) [0])\<rparr>,
     \<lparr>hc_call = Registering \<lparr>reg_Id = 1, reg_Role = LIEUTENANT, reg_IsTraitor = False\<rparr>,
      hc_pc = RegLocked\<rparr>] \<and> hc_call h = Registering commander_request \<and> answered h"
proof -
  from early_run(2) obtain h h1 h2 where cs: "bw_calls early_world = [h, h1, h2]"
    and calls: "hc_call h = Registering commander_request" "hc_call h1 = Asking 0 no_luck"
      "hc_call h2 = Registering \<lparr>reg_Id = 1, reg_Role = LIEUTENANT, reg_IsTraitor = False\<rparr>"
    by (auto simp: early_calls_def)
  with early_run(3-5) show ?thesis by (cases h1; cases h2) simp
qed

lemma answered_stays: "answered h \<Longrightarrow> call_step w ids (hc_call h) (hc_pc h) = None"
  by (cases "hc_call h") (auto simp: answered_def split: call_pc.splits)

lemma early_blocked: "blocked early_world"
  unfolding blocked_def
proof (intro allI)
  fix k ids
  from early_calls_are obtain h where
    cs: "bw_calls early_world = [h,
     \<lparr>hc_call = Asking 0 no_luck, hc_pc = ConNested 1 (Count RETREAT (0, 0, 0, 0) [0])\<rparr>,
     \<lparr>hc_call = Registering \<lparr>reg_Id = 1, reg_Role = LIEUTENANT, reg_IsTraitor = False\<rparr>,
      hc_pc = RegLocked\<rparr>]" and h: "answered h" by blast
  show "world_step k ids early_world = None"
  proof (cases "k < 3")
    case False
    then show ?thesis by (simp add: world_step_def cs)
  next
    case True
    then consider "k = 0" | "k = 1" | "k = 2" by linarith
    then show ?thesis
      by cases (simp_all add: world_step_def cs answered_stays [OF h] no_writer_def no_reader_def
          split: option.split)
  qed
qed

text \<open>C35. The server can come to a stop for ever only in one way: GetConsensus is inside makeDecision for a
  loyal commander who holds no value of round 1 and waits for the read lock there, a call that wants to write has
  announced itself between that call's two read locks, and it waits for a GetConsensus that cannot leave its loop. The
  witness is a run in which this happens: somebody asks before the order is given and a general registers
  meanwhile.\<close>

theorem server_stops_only_on_the_second_read_lock:
  assumes "length cs < 2147483647" and "run_world es (byz_arrivals cs) = Some w"
    and "blocked w" and "\<exists>h \<in> set (bw_calls w). \<not> answered h"
  shows "(\<exists>h \<in> set (bw_calls w). is_nested (hc_pc h))
    \<and> (\<exists>h \<in> set (bw_calls w). announced (hc_pc h)) \<and> (\<exists>h \<in> set (bw_calls w). reading (hc_pc h))
    \<and> (\<exists>i g. map_of (Generals (bw_server w)) i = Some g \<and> g_Role g = COMMANDER
         \<and> \<not> g_IsTraitor g \<and> held (bw_server w) i 1 = {#})"
proof -
  have ok: "world_ok w" by (rule reached_ok(1) [OF assms(1,2)])
  from blocked_shape [OF ok assms(3,4)] nested_commander [OF ok] show ?thesis by metis
qed

theorem server_stops_only_on_the_second_read_lock_witness:
  "run_world early_events (byz_arrivals early_calls) = Some early_world \<and> blocked early_world
   \<and> \<not> answered (bw_calls early_world ! 1) \<and> (\<exists>h \<in> set (bw_calls early_world). announced (hc_pc h))"
proof -
  have open_call: "\<not> answered (bw_calls early_world ! 1)" using early_run(3) by (simp add: answered_def)
  have "1 < length (bw_calls early_world)" using early_calls_are by auto
  with open_call have "\<exists>h \<in> set (bw_calls early_world). \<not> answered h" using nth_mem by blast
  with server_stops_only_on_the_second_read_lock [OF _ early_run(1) early_blocked] open_call
  show ?thesis using early_run(1) early_blocked by (simp add: early_calls_def)
qed

lemma order_run:
  "run_world order_events (byz_arrivals order_calls) = Some order_world"
  "\<forall>h \<in> set (bw_calls order_world). answered h" "map hc_call (bw_calls order_world) = order_calls"
  "map_of (Generals (bw_server order_world)) i = (if i = 0 then
     Some \<lparr>g_ID = 0, g_Role = COMMANDER, g_IsTraitor = False, g_Messages = [(1, [(0, [ATTACK, ATTACK])])],
           g_FinalDecision = ATTACK\<rparr> else None)"
  unfolding order_world_def
  by (simp_all add: small_runs upto_rec1 answered_def accepted_def)

theorem concurrent_calls_keep_every_value_witness:
  "server_wf (bw_server order_world) \<and> held (bw_server order_world) 0 1 = {#ATTACK, ATTACK#}
   \<and> (\<Sum>h\<leftarrow>bw_calls order_world. accepted_values (bw_server order_world) h 0 1) = {#ATTACK, ATTACK#}"
proof -
  have "held (bw_server order_world) 0 1 = {#ATTACK, ATTACK#}"
    by (simp add: held_def order_run(4) round_values_def sender_values_def)
  with concurrent_calls_keep_every_value [OF _ order_run(1,2), of 0 1] show ?thesis
    by (simp add: order_calls_def)
qed

theorem every_call_is_answered_witness:
  "length order_events \<le> 3 * (4 * 3 + 6) \<and> held (bw_server order_world) 0 1 \<noteq> {#}"
proof -
  have held: "held (bw_server order_world) 0 1 \<noteq> {#}"
    by (simp add: held_def order_run(4) round_values_def sender_values_def)
  then have "\<forall>i g. map_of (Generals (bw_server order_world)) i = Some g \<and> g_Role g = COMMANDER
      \<and> \<not> g_IsTraitor g \<longrightarrow> held (bw_server order_world) i 1 \<noteq> {#}"
    by (auto simp: order_run(4) split: if_splits)
  with every_call_is_answered [OF _ order_run(1)] held show ?thesis
    by (simp add: order_calls_def)
qed

end
