(* ===== verification/Byz_Concurrent_Simulation.thy ===== *)
theory Byz_Concurrent_Simulation
  imports Byz_Concurrent_Theorems
begin

text \<open>
  The simulation client (P4-ByzantineConsensus/client/main.go) against the server with its locks: the calls of
  a phase arrive together, interleave in any way, and \<open>wg.Wait()\<close> returns when all of them are answered; then the
  next phase begins. The first theorems say what a phase leaves in the logs and that it always comes to an end; the
  last one that the agreement of the sequential run holds for every interleaving.
\<close>

subsection \<open>Phases with concurrent calls\<close>

definition calls_at :: "ByzantineServer \<Rightarrow> handler_call list \<Rightarrow> byz_world" where
  "calls_at s cs =
     \<lparr>bw_server = s, bw_calls = map (\<lambda>c. \<lparr>hc_call = c, hc_pc = Arrived\<rparr>) cs\<rparr>"

text \<open>The events are a schedule; \<open>None\<close> when it is not one, or leaves a call without an answer.\<close>

definition run_phase ::
  "(nat \<times> int list) list \<Rightarrow> handler_call list \<Rightarrow> ByzantineServer \<Rightarrow> ByzantineServer option" where
  "run_phase es cs s =
     (case run_world es (calls_at s cs) of
        None \<Rightarrow> None
      | Some w \<Rightarrow> if list_all answered (bw_calls w) then Some (bw_server w) else None)"

text \<open>The calls of phase 1 and of a round; a lost call does not reach the server.\<close>

definition order_phase :: "sim_flags \<Rightarrow> sim_rnd \<Rightarrow> handler_call list" where
  "order_phase f rnd =
     map (\<lambda>l. Ordering (order_request f l) (sr_order_coin rnd l))
       (filter (\<lambda>l. \<not> sr_order_lost rnd l) [1..numGenerals f - 1])"

definition round_phase :: "sim_flags \<Rightarrow> sim_rnd \<Rightarrow> int \<Rightarrow> handler_call list" where
  "round_phase f rnd r =
     map (\<lambda>(i, j). Exchanging (message_request f rnd r i j) (sr_server_coin rnd r i j))
       (filter (\<lambda>(i, j). \<not> sr_msg_lost rnd r i j)
         [(i, j). i \<leftarrow> [0..numGenerals f - 1], j \<leftarrow> [0..numGenerals f - 1], i \<noteq> j])"

text \<open>The schedules: number 1 is that of the orders, the others are those of the rounds.\<close>

type_synonym schedules = "int \<Rightarrow> (nat \<times> int list) list"

fun concurrent_rounds ::
  "sim_flags \<Rightarrow> sim_rnd \<Rightarrow> schedules \<Rightarrow> int list \<Rightarrow> ByzantineServer \<Rightarrow> ByzantineServer option" where
  "concurrent_rounds f rnd ev [] s = Some s"
| "concurrent_rounds f rnd ev (r # rs) s =
     (case run_phase (ev r) (round_phase f rnd r) s of
        None \<Rightarrow> None
      | Some s' \<Rightarrow> concurrent_rounds f rnd ev rs s')"

definition concurrent_phases ::
  "sim_flags \<Rightarrow> sim_rnd \<Rightarrow> schedules \<Rightarrow> ByzantineServer \<Rightarrow> ByzantineServer option" where
  "concurrent_phases f rnd ev s =
     (case run_phase (ev 1) (order_phase f rnd) s of
        None \<Rightarrow> None
      | Some s' \<Rightarrow> concurrent_rounds f rnd ev [2..numTraitors f + 1] s')"

text \<open>Registration and collection call the server one call after the other, as in \<open>run_simulation\<close>.\<close>

definition concurrent_simulation ::
  "sim_flags \<Rightarrow> sim_rnd \<Rightarrow> schedules \<Rightarrow> ByzantineServer \<Rightarrow> (ByzantineServer \<times> sim_outcome) option" where
  "concurrent_simulation f rnd ev s =
     (case validate_inputs f of
        Some msg \<Rightarrow> Some (s, Fatal msg)
      | None \<Rightarrow>
          if numGenerals f < 0 \<or> numTraitors f < 0 then Some (s, Panics)
          else
            (case register_generals f rnd s of
               Inl (msg, s1) \<Rightarrow> Some (s1, Fatal msg)
             | Inr s1 \<Rightarrow>
                 if int (traitor_count f rnd) > numTraitors f
                 then Some (s1, Fatal (''Too many traitors created: got ''
                        @ itoa (int (traitor_count f rnd)) @ '', maximum allowed ''
                        @ itoa (numTraitors f)))
                 else
                   (case concurrent_phases f rnd ev s1 of
                      None \<Rightarrow> None
                    | Some s2 \<Rightarrow>
                        let res = collect s2 rnd (False, '''') (all_clients f rnd)
                        in Some (s2, Finished (fst res) (snd res)))))"

subsection \<open>Calls that the server accepts\<close>

text \<open>Calls of one phase: orders of a commander, or messages of the round \<open>R\<close>, between registered generals.\<close>

fun fits :: "ByzantineServer \<Rightarrow> int \<Rightarrow> handler_call \<Rightarrow> bool" where
  "fits s R (Ordering req coin) =
     (1 \<le> R \<and> (\<exists>i t. map_of (profile s) (ord_SenderId req) = Some (i, COMMANDER, t))
      \<and> map_of (profile s) (ord_ReceiverId req) \<noteq> None)"
| "fits s R (Exchanging req coin) =
     (msg_Round req = R \<and> map_of (profile s) (msg_SenderId req) \<noteq> None
      \<and> map_of (profile s) (msg_ReceiverId req) \<noteq> None \<and> msg_ReceiverId req \<notin> set (msg_Path req))"
| "fits s R _ = False"

lemma touches_profile:
  assumes "touches c s s'" and "fits t R c"
  shows "profile s' = profile s \<and> MaxRounds s' = MaxRounds s"
  using assms by (cases rule: touches.cases) auto

lemma fits_step:
  assumes "call_step w ids c pc = Some (s', pc')" and "fits (bw_server w) R c"
    and "CurrentRound (bw_server w) \<le> R" and "\<not> refused pc"
  shows "\<not> refused pc' \<and> CurrentRound s' \<le> R"
proof (cases c)
  case (Ordering req coin)
  with assms show ?thesis
    by (cases pc) (auto simp: Let_def profile_lookup split: if_splits option.splits)
next
  case (Exchanging req coin)
  with assms show ?thesis
    by (cases pc) (auto simp: Let_def profile_lookup after_round_def split: if_splits)
qed (use assms in auto)

lemma traitor_profile:
  "is_traitor s i = (case map_of (profile s) i of None \<Rightarrow> False | Some p \<Rightarrow> snd (snd p))"
  by (simp add: is_traitor_def profile_lookup split: option.split)

lemma passed_profile: "profile s' = profile s \<Longrightarrow> passed_value s' c j r = passed_value s c j r"
  by (cases c) (simp_all add: traitor_profile)

lemma fits_profile: "profile s' = profile s \<Longrightarrow> fits s' R c = fits s R c"
  by (cases c) simp_all

definition phase_ok :: "ByzantineServer \<Rightarrow> int \<Rightarrow> byz_world \<Rightarrow> bool" where
  "phase_ok s R w \<longleftrightarrow> profile (bw_server w) = profile s \<and> MaxRounds (bw_server w) = MaxRounds s
     \<and> CurrentRound (bw_server w) \<le> R
     \<and> (\<forall>h \<in> set (bw_calls w). fits s R (hc_call h) \<and> \<not> refused (hc_pc h))"

lemma world_step_phase:
  assumes "world_step k ids w = Some w'" and "phase_ok s R w"
  shows "phase_ok s R w'"
proof -
  from assms(1) obtain h s' pc' where k: "k < length (bw_calls w)" and h: "h = bw_calls w ! k"
    and st: "call_step w ids (hc_call h) (hc_pc h) = Some (s', pc')"
    and w': "w' = \<lparr>bw_server = s', bw_calls = (bw_calls w)[k := h\<lparr>hc_pc := pc'\<rparr>]\<rparr>"
    by (rule world_stepE)
  have hin: "h \<in> set (bw_calls w)" using k h by simp
  have ok: "profile (bw_server w) = profile s" "MaxRounds (bw_server w) = MaxRounds s"
    "CurrentRound (bw_server w) \<le> R" and fit: "fits s R (hc_call h)" "\<not> refused (hc_pc h)"
    using assms(2) hin by (auto simp: phase_ok_def)
  note fw = fit(1) [folded fits_profile [OF ok(1)]]
  have "profile s' = profile s" "MaxRounds s' = MaxRounds s"
    using touches_profile [OF call_step_touches [OF st] fit(1)] ok by simp_all
  moreover have "\<not> refused pc' \<and> CurrentRound s' \<le> R" by (rule fits_step [OF st fw ok(3) fit(2)])
  moreover have "set (bw_calls w') \<subseteq> insert (h\<lparr>hc_pc := pc'\<rparr>) (set (bw_calls w))"
    by (simp add: w' set_update_subset_insert)
  ultimately show ?thesis
    using assms(2) fit(1) by (auto simp: phase_ok_def w')
qed

lemma answered_accepted: "answered h \<Longrightarrow> \<not> refused (hc_pc h) \<Longrightarrow> is_accepted (hc_pc h)"
  by (cases "hc_pc h" rule: refused.cases) (auto simp: answered_def)

lemma world_step_calls:
  assumes "world_step k ids w = Some w'"
  shows "map hc_call (bw_calls w') = map hc_call (bw_calls w)"
proof -
  from assms obtain h pc' where k: "k < length (bw_calls w)" and "h = bw_calls w ! k"
    and "bw_calls w' = (bw_calls w)[k := h\<lparr>hc_pc := pc'\<rparr>]"
    by (rule world_stepE) auto
  then have "map hc_call (bw_calls w') = (map hc_call (bw_calls w))[k := hc_call (bw_calls w ! k)]"
    by (simp add: map_update)
  then show ?thesis using k by (metis length_map list_update_id nth_map)
qed

subsection \<open>What a phase leaves, and that it ends\<close>

lemma fits_registered: "fits s R c \<Longrightarrow> call_ok s c Arrived \<and> \<not> asks c \<and> pending c Arrived = 0"
  by (cases c) simp_all

lemma calls_at_ok:
  assumes "server_wf s" and "\<forall>c \<in> set cs. fits s R c" and "CurrentRound s \<le> R"
  shows "world_ok (calls_at s cs) \<and> phase_ok s R (calls_at s cs) \<and> books (held s) (calls_at s cs)"
  using assms
  by (auto simp: world_ok_def phase_ok_def books_def calls_at_def delivered_def o_def
      dest!: fits_registered)

lemma run_phase_ok:
  assumes "server_wf s" and "\<forall>c \<in> set cs. fits s R c" and "CurrentRound s \<le> R"
    and "run_world es (calls_at s cs) = Some w"
  shows "world_ok w" and "phase_ok s R w" and "books (held s) w" and "map hc_call (bw_calls w) = cs"
proof -
  have "world_ok w \<and> phase_ok s R w \<and> books (held s) w \<and> map hc_call (bw_calls w) = cs"
    using assms(4)
  proof (induction rule: run_world_induct)
    case start
    show ?case using calls_at_ok [OF assms(1-3)] by (simp add: calls_at_def o_def)
  next
    case (step k ids w w')
    then show ?case
      using world_step_ok world_step_phase world_step_books world_step_calls by metis
  qed
  then show "world_ok w" "phase_ok s R w" "books (held s) w" "map hc_call (bw_calls w) = cs"
    by simp_all
qed

lemma run_phase_effect:
  assumes "server_wf s" and "\<forall>c \<in> set cs. fits s R c" and "CurrentRound s \<le> R"
    and "run_phase es cs s = Some s'"
  shows "server_wf s'" and "profile s' = profile s" and "MaxRounds s' = MaxRounds s"
    and "CurrentRound s' \<le> R"
    and "held s' j r = held s j r + (\<Sum>c\<leftarrow>cs. own_value c j r + passed_value s c j r)"
proof -
  from assms(4) obtain w where run: "run_world es (calls_at s cs) = Some w"
    and all: "\<forall>h \<in> set (bw_calls w). answered h" and s': "s' = bw_server w"
    by (auto simp: run_phase_def list_all_iff split: option.splits if_splits)
  note ok = run_phase_ok [OF assms(1-3) run]
  show "server_wf s'" "profile s' = profile s" "MaxRounds s' = MaxRounds s" "CurrentRound s' \<le> R"
    using ok(1,2) by (simp_all add: world_ok_def phase_ok_def s')
  have val: "delivered s' (hc_call h) (hc_pc h) j r
      = own_value (hc_call h) j r + passed_value s (hc_call h) j r" if "h \<in> set (bw_calls w)" for h
  proof -
    have "is_accepted (hc_pc h)"
      using ok(2) all that answered_accepted by (auto simp: phase_ok_def)
    then show ?thesis
      using passed_profile [OF \<open>profile s' = profile s\<close>] accepted_done by (simp add: delivered_def)
  qed
  have "held s' j r = held s j r
      + (\<Sum>h\<leftarrow>bw_calls w. own_value (hc_call h) j r + passed_value s (hc_call h) j r)"
    using ok(3) val by (simp add: books_def s' cong: map_cong)
  also have "(\<Sum>h\<leftarrow>bw_calls w. own_value (hc_call h) j r + passed_value s (hc_call h) j r)
      = (\<Sum>c\<leftarrow>map hc_call (bw_calls w). own_value c j r + passed_value s c j r)"
    by (simp add: o_def)
  finally show "held s' j r = held s j r + (\<Sum>c\<leftarrow>cs. own_value c j r + passed_value s c j r)"
    by (simp only: ok(4))
qed

text \<open>A run that goes on as long as it can ends with every call answered.\<close>

lemma run_world_append:
  "run_world (es @ es') w = (case run_world es w of None \<Rightarrow> None | Some w' \<Rightarrow> run_world es' w')"
  by (induction es w rule: run_world.induct) (auto split: option.split)

lemma maximal_run:
  assumes "world_ok w"
  shows "\<exists>es w'. run_world es w = Some w' \<and> blocked w'"
  using assms
proof (induction "total_effort (room w) w" arbitrary: w rule: less_induct)
  case less
  show ?case
  proof (cases "blocked w")
    case True
    have "run_world [] w = Some w" by simp
    with True show ?thesis by blast
  next
    case False
    then obtain k ids w1 where st: "world_step k ids w = Some w1" by (auto simp: blocked_def)
    have "total_effort (room w1) w1 \<le> total_effort (room w) w1"
      unfolding total_effort_def
    proof (rule sum_list_mono)
      fix h
      show "effort (room w1) (hc_pc h) \<le> effort (room w) (hc_pc h)"
        using world_step_room [OF st]
        by (cases "(room w, hc_pc h)" rule: effort.cases) simp_all
    qed
    also have "\<dots> < total_effort (room w) w"
      by (rule world_step_effort [OF st less.prems]) simp
    finally obtain es w' where "run_world es w1 = Some w'" "blocked w'"
      using less.hyps [of w1] world_step_ok [OF st less.prems] by blast
    with st have "run_world ((k, ids) # es) w = Some w'" by simp
    with \<open>blocked w'\<close> show ?thesis by blast
  qed
qed

lemma blocked_phase:
  assumes "world_ok w" and "phase_ok s R w" and "blocked w"
  shows "\<forall>h \<in> set (bw_calls w). answered h"
proof (rule ccontr)
  assume "\<not> ?thesis"
  with blocked_shape [OF assms(1,3)] obtain h where h: "h \<in> set (bw_calls w)" "is_nested (hc_pc h)"
    by blast
  then have "call_ok (bw_server w) (hc_call h) (hc_pc h)" "fits s R (hc_call h)"
    using assms(1,2) by (simp_all add: world_ok_def phase_ok_def)
  with h(2) show False by (cases "hc_call h"; cases "hc_pc h") auto
qed

lemma phase_can_end:
  assumes "server_wf s" and "\<forall>c \<in> set cs. fits s R c" and "CurrentRound s \<le> R"
  shows "\<exists>es. run_phase es cs s \<noteq> None"
proof -
  have "world_ok (calls_at s cs)" using calls_at_ok [OF assms] by simp
  from maximal_run [OF this] obtain es w where run: "run_world es (calls_at s cs) = Some w"
    and stop: "blocked w" by blast
  from blocked_phase [OF run_phase_ok(1,2) [OF assms run] stop] run show ?thesis
    by (intro exI [of _ es]) (simp add: run_phase_def list_all_iff)
qed

subsection \<open>The phases of the simulation\<close>

lemma sum_list_mset: "(\<Sum>x\<leftarrow>xs. F x) = (\<Sum>x\<in>#mset xs. F x)"
  by (simp add: sum_mset_sum_list flip: mset_map)

lemma configured_profile:
  assumes "configured f rnd s" and "flags_ok f" and "0 \<le> i" and "i < numGenerals f"
  shows "map_of (profile s) i = Some (i, if i = 0 then COMMANDER else LIEUTENANT, traitor f rnd i)"
  by (rule configured_lookup [OF assms]) (simp add: profile_lookup)

lemma configured_traitor:
  "configured f rnd s \<Longrightarrow> flags_ok f \<Longrightarrow> 0 \<le> i \<Longrightarrow> i < numGenerals f \<Longrightarrow> is_traitor s i = traitor f rnd i"
  by (simp add: traitor_profile configured_profile)

lemma order_phase_fits:
  assumes "configured f rnd s" and f: "flags_ok f"
  shows "\<forall>c \<in> set (order_phase f rnd). fits s 1 c"
proof
  fix c
  assume "c \<in> set (order_phase f rnd)"
  then obtain l where l: "1 \<le> l" "l < numGenerals f"
    and c: "c = Ordering (order_request f l) (sr_order_coin rnd l)"
    by (auto simp: order_phase_def)
  then show "fits s 1 c"
    using configured_profile [OF assms, of 0] configured_profile [OF assms, of l] flags_ok_i32 [OF f, of l] f
    by (simp add: order_request_def flags_ok_def)
qed

lemma order_phase_values:
  assumes s: "configured f rnd s" and f: "flags_ok f" and nl: "nothing_lost rnd"
    and j: "0 \<le> j" "j < numGenerals f"
  shows "(\<Sum>c\<leftarrow>order_phase f rnd. own_value c j r + passed_value s c j r)
    = (if r = 1 then round1_values f rnd j else {#})"
proof -
  have one: "own_value c j r + passed_value s c j r = (if r = (1::int) then
          (if j = 0 then {#initialOrder f#} else {#})
          + (if j = l then {#order_value f rnd l#} else {#}) else {#})"
    if "l \<in> set [1..numGenerals f - 1]" "c = Ordering (order_request f l) (sr_order_coin rnd l)" for l c
    using that configured_traitor [OF s f, of 0] flags_ok_i32 [OF f, of l] f
    by (auto simp: order_request_def spot_def order_value_def traitor_def flags_ok_def)
  let ?c = "\<lambda>l. Ordering (order_request f l) (sr_order_coin rnd l)"
  have "order_phase f rnd = map ?c [1..numGenerals f - 1]"
    using nl by (simp add: order_phase_def nothing_lost_def)
  then have "(\<Sum>c\<leftarrow>order_phase f rnd. own_value c j r + passed_value s c j r)
      = (\<Sum>l\<leftarrow>[1..numGenerals f - 1]. own_value (?c l) j r + passed_value s (?c l) j r)"
    by (simp only: map_map o_def)
  also have "\<dots> = (\<Sum>l\<leftarrow>[1..numGenerals f - 1]. if r = (1::int) then
          (if j = 0 then {#initialOrder f#} else {#})
          + (if j = l then {#order_value f rnd l#} else {#}) else {#})"
    by (rule arg_cong [where f = sum_list], rule map_cong [OF refl one [OF _ refl]])
  finally show ?thesis unfolding sum_list_mset order_values_sum [OF j] .
qed

lemma in_map_filter: "c \<in> set (map F (filter P xs)) \<Longrightarrow> \<exists>x \<in> set xs. c = F x"
  by auto

lemma round_pairs:
  assumes "p \<in> set [(i, k). i \<leftarrow> [0..n - 1], k \<leftarrow> [0..n - 1], i \<noteq> k]"
  obtains i k where "p = (i, k)" and "0 \<le> i" and "i < n" and "0 \<le> k" and "k < n" and "i \<noteq> (k::int)"
  using assms by auto

lemma round_phase_fits:
  assumes s: "configured f rnd s" and f: "flags_ok f" and "2 \<le> r" and "r < 2 ^ 31"
  shows "\<forall>c \<in> set (round_phase f rnd r). fits s r c"
proof
  fix c
  assume "c \<in> set (round_phase f rnd r)"
  then obtain p where "p \<in> set [(i, k). i \<leftarrow> [0..numGenerals f - 1], k \<leftarrow> [0..numGenerals f - 1], i \<noteq> k]"
    and c: "c = (case p of (i, k) \<Rightarrow> Exchanging (message_request f rnd r i k) (sr_server_coin rnd r i k))"
    unfolding round_phase_def by (blast dest: in_map_filter)
  from this(1) obtain i k where p: "p = (i, k)" and ik: "0 \<le> i" "i < numGenerals f" "0 \<le> k"
    "k < numGenerals f" "i \<noteq> k" by (rule round_pairs)
  have "i32 r = r" using assms(3,4) by (simp add: i32_simps)
  then show "fits s r c"
    using configured_profile [OF s f ik(1,2)] configured_profile [OF s f ik(3,4)] ik(5)
    by (simp add: c p message_request_def client_at_eq [OF f ik(1,2)] client_at_eq [OF f ik(3,4)] client_of_def)
qed

lemma round_phase_values:
  assumes s: "configured f rnd s" and f: "flags_ok f" and nl: "nothing_lost rnd"
    and r: "2 \<le> r" "r < 2 ^ 31" and j: "0 \<le> j" "j < numGenerals f"
  shows "(\<Sum>c\<leftarrow>round_phase f rnd r. own_value c j r' + passed_value s c j r')
    = (if r' = r then round_values_of f rnd r j else {#})"
proof -
  let ?ps = "[(i, k). i \<leftarrow> [0..numGenerals f - 1], k \<leftarrow> [0..numGenerals f - 1], i \<noteq> k]"
  let ?c = "\<lambda>(i, k). Exchanging (message_request f rnd r i k) (sr_server_coin rnd r i k)"
  let ?d = "\<lambda>p. if r' = r then (if j = snd p then {#sent_value f rnd r (fst p) j#} else {#}) else {#}"
  have r32: "i32 r = r" using r by (simp add: i32_simps)
  have one: "own_value (?c p) j r' + passed_value s (?c p) j r' = ?d p" if p: "p \<in> set ?ps" for p
  proof -
    from p obtain i k where p: "p = (i, k)" and ik: "0 \<le> i" "i < numGenerals f" "0 \<le> k"
      "k < numGenerals f" "i \<noteq> k" by (rule round_pairs)
    show ?thesis
      using configured_traitor [OF s f ik(1,2)]
      by (simp add: p message_request_def client_at_eq [OF f ik(1,2)] client_at_eq [OF f ik(3,4)]
          client_of_def spot_def sent_value_def r32)
  qed
  have "round_phase f rnd r = map ?c ?ps"
    unfolding round_phase_def
    by (rule arg_cong [where f = "map ?c"], rule filter_True, rule ballI)
       (use nl in \<open>simp only: nothing_lost_def case_prod_unfold not_False_eq_True simp_thms\<close>)
  then have "(\<Sum>c\<leftarrow>round_phase f rnd r. own_value c j r' + passed_value s c j r')
      = (\<Sum>p\<leftarrow>?ps. own_value (?c p) j r' + passed_value s (?c p) j r')"
    by (simp only: map_map o_def)
  also have "\<dots> = (\<Sum>p\<leftarrow>?ps. ?d p)" by (rule arg_cong [where f = sum_list], rule map_cong [OF refl one])
  finally show ?thesis unfolding sum_list_mset round_values_sum [OF j] .
qed

subsection \<open>The rounds one after the other\<close>

lemma run_round_effect:
  assumes s: "configured f rnd s" "server_wf s" and f: "flags_ok f" and nl: "nothing_lost rnd"
    and r: "2 \<le> r" "r < 2 ^ 31" and cr: "CurrentRound s \<le> r"
    and run: "run_phase es (round_phase f rnd r) s = Some s'"
  shows "configured f rnd s'" and "server_wf s'" and "CurrentRound s' \<le> r"
    and "0 \<le> j \<Longrightarrow> j < numGenerals f \<Longrightarrow>
      held s' j r' = held s j r' + (if r' = r then round_values_of f rnd r j else {#})"
proof -
  note e = run_phase_effect [OF s(2) round_phase_fits [OF s(1) f r] cr run]
  show "configured f rnd s'" using configured_cong [OF e(2,3)] s(1) by simp
  show "server_wf s'" "CurrentRound s' \<le> r" by (rule e)+
  assume "0 \<le> j" "j < numGenerals f"
  from e(5) [of j r'] round_phase_values [OF s(1) f nl r this, of r']
  show "held s' j r' = held s j r' + (if r' = r then round_values_of f rnd r j else {#})" by (rule subst [rotated])
qed

lemma concurrent_rounds_effect:
  assumes f: "flags_ok f" and nl: "nothing_lost rnd" and "b < 2 ^ 31"
    and "configured f rnd s" and "server_wf s" and "CurrentRound s \<le> a - 1" and "2 \<le> a"
    and "concurrent_rounds f rnd ev [a..b] s = Some s'"
  shows "configured f rnd s' \<and> (\<forall>j r. 0 \<le> j \<and> j < numGenerals f \<longrightarrow>
    held s' j r = held s j r + (if a \<le> r \<and> r \<le> b then round_values_of f rnd r j else {#}))"
  using assms(4-8)
proof (induction "nat (b - a + 1)" arbitrary: a s)
  case 0
  then show ?case by auto
next
  case (Suc n)
  then have ab: "a \<le> b" by simp
  with Suc.prems(5) obtain s1 where run: "run_phase (ev a) (round_phase f rnd a) s = Some s1"
    and rest: "concurrent_rounds f rnd ev [a + 1..b] s1 = Some s'"
    by (auto simp: upto_rec1 split: option.splits)
  have small: "a < 2 ^ 31" "CurrentRound s \<le> a" using ab assms(3) Suc.prems(3) by simp_all
  note e = run_round_effect [OF Suc.prems(1,2) f nl Suc.prems(4) small run]
  have "configured f rnd s' \<and> (\<forall>j r. 0 \<le> j \<and> j < numGenerals f \<longrightarrow>
    held s' j r = held s1 j r + (if a + 1 \<le> r \<and> r \<le> b then round_values_of f rnd r j else {#}))"
    using Suc.hyps(2) Suc.prems(4) e(1-3) rest by (intro Suc.hyps(1)) auto
  then show ?case using e(4) ab by auto
qed

lemma concurrent_rounds_cong:
  "(\<And>r. r \<in> set rs \<Longrightarrow> ev r = ev' r) \<Longrightarrow> concurrent_rounds f rnd ev rs s = concurrent_rounds f rnd ev' rs s"
  by (induction rs arbitrary: s) (auto split: option.split)

lemma concurrent_rounds_can_end:
  assumes f: "flags_ok f" and nl: "nothing_lost rnd" and "b < 2 ^ 31"
    and "configured f rnd s" and "server_wf s" and "CurrentRound s \<le> a - 1" and "2 \<le> a"
  shows "\<exists>ev. concurrent_rounds f rnd ev [a..b] s \<noteq> None"
  using assms(4-7)
proof (induction "nat (b - a + 1)" arbitrary: a s)
  case 0
  then show ?case by auto
next
  case (Suc n)
  then have ab: "a \<le> b" by simp
  have small: "a < 2 ^ 31" "CurrentRound s \<le> a" using ab assms(3) Suc.prems(3) by simp_all
  from phase_can_end [OF Suc.prems(2) round_phase_fits [OF Suc.prems(1) f Suc.prems(4) small(1)] small(2)]
  obtain es s1 where run: "run_phase es (round_phase f rnd a) s = Some s1" by auto
  note e = run_round_effect [OF Suc.prems(1,2) f nl Suc.prems(4) small run]
  have "\<exists>ev. concurrent_rounds f rnd ev [a + 1..b] s1 \<noteq> None"
    using Suc.hyps(2) Suc.prems(4) e(1-3) by (intro Suc.hyps(1)) auto
  then obtain ev where ev: "concurrent_rounds f rnd ev [a + 1..b] s1 \<noteq> None" by blast
  have "concurrent_rounds f rnd (ev(a := es)) [a + 1..b] s1 = concurrent_rounds f rnd ev [a + 1..b] s1"
    by (rule concurrent_rounds_cong) simp
  with ev run ab show ?case by (intro exI [of _ "ev(a := es)"]) (simp add: upto_rec1)
qed

subsection \<open>The whole run\<close>

lemma register_lieutenants_wf:
  "register_lieutenants f rnd s is = Inr s' \<Longrightarrow> server_wf s \<Longrightarrow> server_wf s'"
proof (induction f rnd s "is" rule: register_lieutenants.induct)
  case (2 f rnd s i "is")
  then show ?case
    using RegisterGeneral_wf [of s "register_request (lieutenant_client f rnd i)"]
    by (auto split: prod.splits if_splits)
qed simp

lemma register_generals_wf:
  assumes "register_generals f rnd NewByzantineServer = Inr s"
  shows "server_wf s"
  using assms RegisterGeneral_wf [of NewByzantineServer "register_request (commander_client f)"]
    register_lieutenants_wf
  by (auto simp: register_generals_def split: prod.splits if_splits)

text \<open>Every interleaving of the phases leaves the logs as the sequential phases do.\<close>

lemma concurrent_phases_heard:
  assumes f: "flags_ok f" and nl: "nothing_lost rnd"
    and s: "configured f rnd s" "server_wf s" "\<forall>j r. held s j r = {#}" "CurrentRound s = 0"
    and run: "concurrent_phases f rnd ev s = Some s'"
  shows "all_heard f rnd s'"
proof -
  from run obtain s1 where one: "run_phase (ev 1) (order_phase f rnd) s = Some s1"
    and rest: "concurrent_rounds f rnd ev [2..numTraitors f + 1] s1 = Some s'"
    by (auto simp: concurrent_phases_def split: option.splits)
  note e = run_phase_effect [OF s(2) order_phase_fits [OF s(1) f] _ one]
  have c1: "CurrentRound s \<le> 1" using s(4) by simp
  have conf: "configured f rnd s1" using configured_cong [OF e(2,3)] c1 s(1) by simp
  have b: "numTraitors f + 1 < 2 ^ 31" using f by (simp add: flags_ok_def)
  have c2: "CurrentRound s1 \<le> 2 - 1" using e(4) [OF c1] by simp
  have "held s1 j r = (if r = 1 then round1_values f rnd j else {#})"
    if "0 \<le> j" "j < numGenerals f" for j r
    using e(5) [OF c1, of j r] order_phase_values [OF s(1) f nl that] s(3) by simp
  with concurrent_rounds_effect [OF f nl b conf e(1) [OF c1] c2 _ rest] show ?thesis
    by (simp add: all_heard_def)
qed

lemma concurrent_phases_can_end:
  assumes f: "flags_ok f" and nl: "nothing_lost rnd"
    and s: "configured f rnd s" "server_wf s" "CurrentRound s = 0"
  shows "\<exists>ev. concurrent_phases f rnd ev s \<noteq> None"
proof -
  have c1: "CurrentRound s \<le> 1" using s(3) by simp
  from phase_can_end [OF s(2) order_phase_fits [OF s(1) f] c1]
  obtain es s1 where one: "run_phase es (order_phase f rnd) s = Some s1" by auto
  note e = run_phase_effect [OF s(2) order_phase_fits [OF s(1) f] c1 one]
  have conf: "configured f rnd s1" using configured_cong [OF e(2,3)] s(1) by simp
  have b: "numTraitors f + 1 < 2 ^ 31" using f by (simp add: flags_ok_def)
  have c2: "CurrentRound s1 \<le> 2 - 1" using e(4) by simp
  from concurrent_rounds_can_end [OF f nl b conf e(1) c2]
  obtain ev where ev: "concurrent_rounds f rnd ev [2..numTraitors f + 1] s1 \<noteq> None" by auto
  have "concurrent_rounds f rnd (ev(1 := es)) [2..numTraitors f + 1] s1
      = concurrent_rounds f rnd ev [2..numTraitors f + 1] s1"
    by (rule concurrent_rounds_cong) simp
  with ev one show ?thesis
    by (intro exI [of _ "ev(1 := es)"]) (simp add: concurrent_phases_def)
qed

text \<open>C4. Agreement in every interleaving. The calls of each phase run concurrently at the server, lock by lock; whatever
  the schedule, the traitors, the coins and the orders of the loops, a run in which nothing is lost, with at least two
  generals and flags that pass the checks, finishes with consensus reached, and every loyal general decides the
  commander's initial order, except for four generals whose one traitor is the commander with order
  ATTACK. There are schedules that finish the run.\<close>

theorem agreement_in_every_interleaving:
  assumes f: "flags_ok f" and n: "2 \<le> numGenerals f" and rnd: "sim_rnd_ok f rnd"
    and nl: "nothing_lost rnd" and tie: "\<not> tie_possible f"
  shows "(\<exists>ev. concurrent_simulation f rnd ev NewByzantineServer \<noteq> None)
    \<and> (\<forall>ev s out. concurrent_simulation f rnd ev NewByzantineServer = Some (s, out) \<longrightarrow>
         (\<exists>details. out = Finished True details)
         \<and> (\<forall>(j, g) \<in> set (Generals s). \<not> g_IsTraitor g \<longrightarrow>
              (\<forall>crnd k. decide_at s crnd k g = initialOrder f)))"
proof -
  obtain s0 where s0: "register_generals f rnd NewByzantineServer = Inr s0" "configured f rnd s0"
      "\<forall>j r. held s0 j r = {#}" "CurrentRound s0 = 0"
    by (rule register_generals_ok [OF f rnd])
  have wf: "server_wf s0" by (rule register_generals_wf [OF s0(1)])
  have "\<not> int (traitor_count f rnd) > numTraitors f" "\<not> (numGenerals f < 0 \<or> numTraitors f < 0)"
    using card_traitors_le [OF f rnd] f by (simp_all add: traitor_count_eq [OF f] flags_ok_def)
  then have run: "concurrent_simulation f rnd ev NewByzantineServer =
      (case concurrent_phases f rnd ev s0 of None \<Rightarrow> None
       | Some s2 \<Rightarrow> let res = collect s2 rnd (False, '''') (all_clients f rnd)
                    in Some (s2, Finished (fst res) (snd res)))" for ev
    by (simp add: concurrent_simulation_def validate_inputs_ok [OF f] s0(1))
  obtain ev s2 where "concurrent_phases f rnd ev s0 = Some s2"
    using concurrent_phases_can_end [OF f nl s0(2) wf s0(4)] by auto
  then have "concurrent_simulation f rnd ev NewByzantineServer \<noteq> None" by (simp add: run Let_def)
  then have "\<exists>ev. concurrent_simulation f rnd ev NewByzantineServer \<noteq> None" by blast
  moreover have "(\<exists>details. out = Finished True details)
      \<and> (\<forall>(j, g) \<in> set (Generals s). \<not> g_IsTraitor g \<longrightarrow> (\<forall>crnd k. decide_at s crnd k g = initialOrder f))"
    if "concurrent_simulation f rnd ev NewByzantineServer = Some (s, out)" for ev s out
  proof -
    from that have ph: "concurrent_phases f rnd ev s0 = Some s"
      and out: "out = Finished (fst (collect s rnd (False, '''') (all_clients f rnd)))
                  (snd (collect s rnd (False, '''') (all_clients f rnd)))"
      by (auto simp: run Let_def split: option.splits)
    have heard: "all_heard f rnd s" by (rule concurrent_phases_heard [OF f nl s0(2) wf s0(3,4) ph])
    from heard_collect [OF f n rnd tie heard] heard_loyal(1) [OF f n rnd tie heard] out
    show ?thesis by auto
  qed
  ultimately show ?thesis by blast
qed

theorem agreement_in_every_interleaving_witness:
  "\<exists>ev s details. concurrent_simulation (example_flags 7 2 True)
     (example_rnd 7 2 (\<lambda>_. True) (\<lambda>_ _ _. True)) ev NewByzantineServer = Some (s, Finished True details)"
proof -
  have "flags_ok (example_flags 7 2 True)" "2 \<le> numGenerals (example_flags 7 2 True)"
    "\<not> tie_possible (example_flags 7 2 True)"
    by (simp_all add: flags_ok_def example_flags_def tie_possible_def)
  from agreement_in_every_interleaving [OF this(1,2) example_rnd_ok [of 2 2] example_rnd_delivers this(3)]
  show ?thesis by fastforce
qed

end
