(* ===== verification/Float32.thy ===== *)
theory Float32
  imports Prelude
begin

text \<open>
  Go's float32, which the payment system uses for money. Every finite IEEE 754 single is an
  integer multiple of \<open>2 ^ -149\<close>, so \<open>Fin n\<close> stands for \<open>n * 2 ^ -149\<close>; sums and differences
  are computed exactly and rounded to 24 significant bits, ties to even, overflowing to an
  infinity from \<open>2 ^ 128\<close> on. The two zeros are one value here: no comparison or sum
  of the sources tells them apart. \<open>on_grid k n\<close> describes the numbers on which arithmetic is
  exact, multiples of \<open>2 ^ k\<close> up to \<open>2 ^ (k + 24)\<close>; whole currency units have \<open>k = 149\<close>.
\<close>

datatype f32 = NaN | PInf | NInf | Fin int

text \<open>The number of binary digits.\<close>

function bits :: "int \<Rightarrow> nat" where
  "bits n = (if n \<le> 0 then 0 else Suc (bits (n div 2)))"
  by pat_completeness auto

termination bits
  by (relation "measure nat") auto

declare bits.simps [simp del]

text \<open>\<open>n / 2 ^ k\<close> rounded to the nearest integer, ties to even.\<close>

definition round_even :: "nat \<Rightarrow> int \<Rightarrow> int" where
  "round_even k n =
     (let q = n div 2 ^ k; r = n mod 2 ^ k
      in if 2 * r < 2 ^ k then q
         else if 2 * r > 2 ^ k then q + 1
         else if even q then q else q + 1)"

definition round32 :: "int \<Rightarrow> f32" where
  "round32 n =
     (let k = bits \<bar>n\<bar> - 24
      in if k = 0 then Fin n
         else let m = round_even k n * 2 ^ k
              in if m \<ge> 2 ^ 277 then PInf else if m \<le> - (2 ^ 277) then NInf else Fin m)"

instantiation f32 :: "{zero, plus, uminus, minus, ord}"
begin

definition zero_f32 :: f32 where "zero_f32 = Fin 0"

fun plus_f32 :: "f32 \<Rightarrow> f32 \<Rightarrow> f32" where
  "plus_f32 (Fin a) (Fin b) = round32 (a + b)"
| "plus_f32 PInf (Fin _) = PInf"
| "plus_f32 PInf PInf = PInf"
| "plus_f32 (Fin _) PInf = PInf"
| "plus_f32 NInf (Fin _) = NInf"
| "plus_f32 NInf NInf = NInf"
| "plus_f32 (Fin _) NInf = NInf"
| "plus_f32 _ _ = NaN"

fun uminus_f32 :: "f32 \<Rightarrow> f32" where
  "uminus_f32 (Fin a) = Fin (- a)"
| "uminus_f32 PInf = NInf"
| "uminus_f32 NInf = PInf"
| "uminus_f32 NaN = NaN"

definition minus_f32 :: "f32 \<Rightarrow> f32 \<Rightarrow> f32" where
  "minus_f32 a b = a + (- b)"

text \<open>Every comparison with NaN is false.\<close>

fun less_f32 :: "f32 \<Rightarrow> f32 \<Rightarrow> bool" where
  "less_f32 (Fin a) (Fin b) = (a < b)"
| "less_f32 (Fin _) PInf = True"
| "less_f32 NInf (Fin _) = True"
| "less_f32 NInf PInf = True"
| "less_f32 _ _ = False"

fun less_eq_f32 :: "f32 \<Rightarrow> f32 \<Rightarrow> bool" where
  "less_eq_f32 (Fin a) (Fin b) = (a \<le> b)"
| "less_eq_f32 NaN _ = False"
| "less_eq_f32 _ NaN = False"
| "less_eq_f32 _ PInf = True"
| "less_eq_f32 NInf _ = True"
| "less_eq_f32 _ _ = False"

instance ..

end

text \<open>Whole currency units.\<close>

definition units :: "int \<Rightarrow> f32" where
  "units n = Fin (n * 2 ^ 149)"

subsection \<open>Exact arithmetic\<close>

definition on_grid :: "nat \<Rightarrow> int \<Rightarrow> bool" where
  "on_grid k n \<longleftrightarrow> 2 ^ k dvd n \<and> \<bar>n\<bar> \<le> 2 ^ (k + 24)"

lemma bits_le: "n < 2 ^ m \<Longrightarrow> bits n \<le> m"
proof (induction m arbitrary: n)
  case 0
  then show ?case by (simp add: bits.simps)
next
  case (Suc m)
  then have "n div 2 < 2 ^ m" by simp
  then have "bits (n div 2) \<le> m" by (rule Suc.IH)
  then show ?case by (subst bits.simps) simp
qed

lemma round_even_exact: "2 ^ k dvd n \<Longrightarrow> round_even k n * 2 ^ k = n"
  by (simp add: round_even_def)

lemma round32_exact:
  assumes "on_grid k n" and k: "k < 253"
  shows "round32 n = Fin n"
proof -
  let ?s = "bits \<bar>n\<bar> - 24"
  have dvd: "2 ^ k dvd n" and le: "\<bar>n\<bar> \<le> 2 ^ (k + 24)" using assms by (simp_all add: on_grid_def)
  have "2 ^ ?s dvd n"
  proof (cases "\<bar>n\<bar> = 2 ^ (k + 24)")
    case True
    have "\<bar>n\<bar> < 2 ^ (k + 25)" using True by simp
    then have "?s \<le> k + 1" using bits_le [of "\<bar>n\<bar>" "k + 25"] by simp
    then have "(2 :: int) ^ ?s dvd 2 ^ (k + 24)" by (intro le_imp_power_dvd) simp
    then show ?thesis using True by (metis dvd_abs_iff)
  next
    case False
    then have "\<bar>n\<bar> < 2 ^ (k + 24)" using le by simp
    then have "?s \<le> k" using bits_le [of "\<bar>n\<bar>" "k + 24"] by simp
    then have "(2 :: int) ^ ?s dvd 2 ^ k" by (rule le_imp_power_dvd)
    then show ?thesis using dvd by (rule dvd_trans)
  qed
  moreover have "\<bar>n\<bar> < 2 ^ 277"
  proof -
    have "(2 :: int) ^ (k + 24) < 2 ^ 277" using k by (intro power_strict_increasing) simp_all
    then show ?thesis using le by linarith
  qed
  ultimately show ?thesis
    by (simp add: round32_def Let_def round_even_exact abs_less_iff)
qed

lemma add_exact: "on_grid k (a + b) \<Longrightarrow> k < 253 \<Longrightarrow> Fin a + Fin b = Fin (a + b)"
  by (simp add: round32_exact)

lemma sub_exact: "on_grid k (a - b) \<Longrightarrow> k < 253 \<Longrightarrow> Fin a - Fin b = Fin (a - b)"
  by (simp add: minus_f32_def round32_exact)

lemma units_grid: "\<bar>n\<bar> \<le> 2 ^ 24 \<Longrightarrow> on_grid 149 (n * 2 ^ 149)"
  by (simp add: on_grid_def abs_mult power_add)

lemma units_add: "\<bar>a + b\<bar> \<le> 2 ^ 24 \<Longrightarrow> units a + units b = units (a + b)"
  using add_exact [OF units_grid [of "a + b", unfolded distrib_right]]
  by (simp add: units_def distrib_right)

lemma units_sub: "\<bar>a - b\<bar> \<le> 2 ^ 24 \<Longrightarrow> units a - units b = units (a - b)"
  using sub_exact [OF units_grid [of "a - b", unfolded left_diff_distrib]]
  by (simp add: units_def left_diff_distrib)

lemma units_less [simp]: "units a < units b \<longleftrightarrow> a < b"
  by (simp add: units_def)

lemma units_le [simp]: "units a \<le> units b \<longleftrightarrow> a \<le> b"
  by (simp add: units_def)

lemma units_eq [simp]: "units a = units b \<longleftrightarrow> a = b"
  by (simp add: units_def)

lemma zero_units: "(0 :: f32) = units 0"
  by (simp add: units_def zero_f32_def)

subsection \<open>NaN and signs\<close>

lemma nan_arith [simp]:
  "NaN + x = NaN" "x + NaN = NaN" "NaN - x = NaN" "x - NaN = NaN"
  "\<not> NaN < x" "\<not> x < NaN" "\<not> NaN \<le> x" "\<not> x \<le> NaN"
  by (cases x; simp add: minus_f32_def)+

lemma round_even_nonneg: "0 \<le> n \<Longrightarrow> 0 \<le> round_even k n"
  by (simp add: round_even_def Let_def)
    (smt (verit) pos_imp_zdiv_nonneg_iff zero_less_power)

text \<open>A difference of which the comparison says it is not negative is not negative.\<close>

lemma sub_nonneg:
  assumes "\<not> b < a" and "b - a \<noteq> NaN"
  shows "0 \<le> b - a"
proof (cases "\<exists>x y. a = Fin x \<and> b = Fin y")
  case True
  then obtain x y where xy: "a = Fin x" "b = Fin y" by blast
  with assms have "0 \<le> y - x" by simp
  moreover from this have "0 \<le> round_even k (y - x) * 2 ^ k" for k
    by (simp add: round_even_nonneg)
  ultimately show ?thesis using xy
    by (auto simp: minus_f32_def round32_def zero_f32_def Let_def)
      (smt (verit, best) zero_less_power)
next
  case False
  with assms show ?thesis by (cases a; cases b) (simp_all add: minus_f32_def zero_f32_def)
qed

subsection \<open>The verb \<open>%.2f\<close>\<close>

text \<open>Rounding of the exact value to two decimals, ties to even, as package strconv does.\<close>

definition hundredths :: "int \<Rightarrow> int" where
  "hundredths n = round_even 149 (n * 100)"

definition cents :: "int \<Rightarrow> string" where
  "cents h = digits (h div 100) @ ''.'' @ [digit (h div 10 mod 10), digit (h mod 10)]"

fun fmt2f :: "f32 \<Rightarrow> string" where
  "fmt2f NaN = ''NaN''"
| "fmt2f PInf = ''+Inf''"
| "fmt2f NInf = ''-Inf''"
| "fmt2f (Fin n) =
     (if n < 0 then CHR ''-'' # cents (hundredths (- n)) else cents (hundredths n))"

end
