(* ===== verification/Strife_Base.thy ===== *)
theory Strife_Base
  imports Float32
begin

text \<open>
  What the parts of the payment system (P3-Strife) share: the messages of the protocol, gRPC
  status codes and metadata, and the outcome of reading a JSON file. Amounts are \<open>f32\<close>. A file is
  represented by what reading and decoding it yields, not by its bytes.
\<close>

subsection \<open>gRPC status and metadata\<close>

datatype code = Unauthenticated | InvalidArgument | PermissionDenied | NotFound | Internal
  | DeadlineExceeded | Unavailable | ResourceExhausted | Unimplemented | OtherCode nat

record rpc_error =
  err_code :: code
  err_message :: string

type_synonym 'a rpc = "rpc_error + 'a"

text \<open>Metadata is absent (\<open>None\<close>) when the context carries none.\<close>

type_synonym metadata = "(string, string list) gomap"

record ctx =
  ctx_metadata :: "metadata option"

text \<open>The first value of a key, for the pattern \<open>md.Get(k)\<close>, test of the length, \<open>[0]\<close>.\<close>

definition md_first :: "metadata \<Rightarrow> string \<Rightarrow> string option" where
  "md_first md k = (case gget [] md k of [] \<Rightarrow> None | v # _ \<Rightarrow> Some v)"

subsection \<open>Messages\<close>

record PaymentRequest =
  pr_AccountNumber :: string
  pr_Amount :: f32
  pr_TransactionId :: string

record PaymentResponse =
  resp_Success :: bool
  resp_Message :: string
  resp_TransactionId :: string
  resp_Amount :: f32
  resp_Currency :: string

record PaymentDetails =
  pd_ClientName :: string
  pd_Amount :: f32
  pd_ReceiverName :: string
  pd_Currency :: string
  pd_RequestId :: string

record TwoPhaseRequest =
  tp_TransactionId :: string
  tp_ClientName :: string
  tp_Amount :: f32

record TwoPhaseResponse =
  tpr_Success :: bool
  tpr_Message :: string

record AuthRequest =
  aq_Username :: string
  aq_Password :: string

record AuthResponse =
  ar_Success :: bool
  ar_Message :: string
  ar_Roles :: "string list"

record BalanceRequest =
  bq_ClientName :: string

text \<open>The balance of a BalanceResponse is a double; the conversion from a float is exact.\<close>

record BalanceResponse =
  br_Balance :: f32
  br_Currency :: string

text \<open>A response that sets only Success and Message.\<close>

definition payment_response :: "bool \<Rightarrow> string \<Rightarrow> PaymentResponse" where
  "payment_response b m =
     \<lparr>resp_Success = b, resp_Message = m, resp_TransactionId = '''', resp_Amount = 0,
      resp_Currency = ''''\<rparr>"

subsection \<open>Files\<close>

datatype 'a json_file = ReadError string | DecodeError string | Decoded 'a

text \<open>Elements of balances.json.\<close>

record BalanceData =
  bd_ClientName :: string
  bd_Balance :: f32
  bd_Currency :: string

text \<open>The clients of every bank: bank name to account number to client name.\<close>

type_synonym bank_clients_file = "(string, (string, string) gomap) gomap"

end
