(* ===== verification/Strife_Bank.thy ===== *)
theory Strife_Bank
  imports Strife_Base
begin

text \<open>
  A bank server (P3-Strife/bank/bank_server.go): loading of the clients and balances, simple
  payments, and the participant's side of the two-phase commit. The handlers hold the bank's
  mutex while they read and write, so each is one atomic step. A handler returns \<open>None\<close> when it
  panics, which ends the process, because the bank installs no recovery interceptor.
\<close>

subsection \<open>State\<close>

record BankTransaction =
  bt_ID :: string
  bt_Client :: string
  bt_Amount :: f32
  bt_State :: string

record BankServer =
  bank_Name :: string
  bank_clients :: "(string, string) gomap"
  bank_transactions :: "(string, BankTransaction) gomap"
  bank_balances :: "(string, f32) gomap"

subsection \<open>Loading\<close>

text \<open>\<open>Inl\<close> is log.Fatalf.\<close>

definition loadBankClients ::
  "bank_clients_file json_file \<Rightarrow> string \<Rightarrow> string + (string, string) gomap" where
  "loadBankClients file bankName =
     (case file of
        ReadError e \<Rightarrow> Inl (''Failed to read bank clients data: '' @ e)
      | DecodeError e \<Rightarrow> Inl (''Failed to unmarshal JSON: '' @ e)
      | Decoded allClients \<Rightarrow>
          (case map_of allClients bankName of
             None \<Rightarrow> Inr []
           | Some clients \<Rightarrow> Inr clients))"

definition loadBalancesFromCommonFile ::
  "bank_clients_file json_file \<Rightarrow> BalanceData list json_file \<Rightarrow> string
     \<Rightarrow> string + (string, f32) gomap" where
  "loadBalancesFromCommonFile clients_file balances_file bankName =
     (case loadBankClients clients_file bankName of
        Inl e \<Rightarrow> Inl e
      | Inr clients \<Rightarrow>
          (case balances_file of
             ReadError _ \<Rightarrow> Inr []
           | DecodeError _ \<Rightarrow> Inr []
           | Decoded records \<Rightarrow>
               Inr (foldl (\<lambda>m r. if bd_ClientName r \<in> snd ` set clients
                                then gput (bd_ClientName r) (bd_Balance r) m else m) [] records)))"

definition NewBankServer ::
  "bank_clients_file json_file \<Rightarrow> BalanceData list json_file \<Rightarrow> string \<Rightarrow> string + BankServer" where
  "NewBankServer clients_file balances_file name =
     (case loadBankClients clients_file name of
        Inl e \<Rightarrow> Inl e
      | Inr clients \<Rightarrow>
          (case loadBalancesFromCommonFile clients_file balances_file name of
             Inl e \<Rightarrow> Inl e
           | Inr balances \<Rightarrow>
               Inr \<lparr>bank_Name = name, bank_clients = clients, bank_transactions = [],
                    bank_balances = balances\<rparr>))"

subsection \<open>Simple payments\<close>

definition BankProcessPayment ::
  "BankServer \<Rightarrow> PaymentRequest \<Rightarrow> BankServer \<times> PaymentResponse" where
  "BankProcessPayment s req =
     (if pr_Amount req \<le> 0 then (s, payment_response False ''Invalid amount'')
      else
        let clientName = gget '''' (bank_clients s) (pr_AccountNumber req)
        in if clientName = '''' then (s, payment_response False ''Account not found'')
           else
            (case map_of (bank_balances s) clientName of
               None \<Rightarrow> (s, payment_response False ''Client has no balance record'')
             | Some balance \<Rightarrow>
                 if balance < pr_Amount req
                 then (s, payment_response False ''Insufficient funds'')
                 else
                   (s\<lparr>bank_balances := gput clientName (balance - pr_Amount req) (bank_balances s)\<rparr>,
                    payment_response True ''Payment processed successfully'')))"

subsection \<open>Two-phase commit\<close>

definition tp_response :: "bool \<Rightarrow> string \<Rightarrow> TwoPhaseResponse" where
  "tp_response b m = \<lparr>tpr_Success = b, tpr_Message = m\<rparr>"

definition has_client :: "BankServer \<Rightarrow> string \<Rightarrow> bool" where
  "has_client s c \<longleftrightarrow> list_ex (\<lambda>(_, client). client = c) (bank_clients s)"

definition client_not_found :: "BankServer \<Rightarrow> string \<Rightarrow> TwoPhaseResponse" where
  "client_not_found s c =
     tp_response False (''Client '' @ c @ '' not found in bank '' @ bank_Name s)"

definition store_prepared :: "BankServer \<Rightarrow> TwoPhaseRequest \<Rightarrow> BankServer" where
  "store_prepared s req =
     s\<lparr>bank_transactions :=
         gput (tp_TransactionId req)
           \<lparr>bt_ID = tp_TransactionId req, bt_Client = tp_ClientName req, bt_Amount = tp_Amount req,
            bt_State = ''prepared''\<rparr>
           (bank_transactions s)\<rparr>"

definition PrepareDebit :: "BankServer \<Rightarrow> TwoPhaseRequest \<Rightarrow> (BankServer \<times> TwoPhaseResponse) option" where
  "PrepareDebit s req =
     (if \<not> has_client s (tp_ClientName req)
      then Some (s, client_not_found s (tp_ClientName req))
      else if gget 0 (bank_balances s) (tp_ClientName req) < tp_Amount req
      then Some (s, tp_response False ''Insufficient funds'')
      else Some (store_prepared s req, tp_response True ''Debit prepared''))"

definition PrepareCredit :: "BankServer \<Rightarrow> TwoPhaseRequest \<Rightarrow> (BankServer \<times> TwoPhaseResponse) option" where
  "PrepareCredit s req =
     (if \<not> has_client s (tp_ClientName req)
      then Some (s, client_not_found s (tp_ClientName req))
      else Some (store_prepared s req, tp_response True ''Credit prepared''))"

definition set_state :: "string \<Rightarrow> BankTransaction \<Rightarrow> string \<Rightarrow> BankServer \<Rightarrow> BankServer" where
  "set_state i tx st s =
     s\<lparr>bank_transactions := gput i (tx\<lparr>bt_State := st\<rparr>) (bank_transactions s)\<rparr>"

definition change_balance :: "string \<Rightarrow> (f32 \<Rightarrow> f32) \<Rightarrow> BankServer \<Rightarrow> BankServer" where
  "change_balance c f s =
     s\<lparr>bank_balances := gput c (f (gget 0 (bank_balances s) c)) (bank_balances s)\<rparr>"

text \<open>CommitDebit logs \<open>tx.State\<close> before it tests whether \<open>tx\<close> exists.\<close>

definition CommitDebit :: "BankServer \<Rightarrow> TwoPhaseRequest \<Rightarrow> (BankServer \<times> TwoPhaseResponse) option" where
  "CommitDebit s req =
     (case map_of (bank_transactions s) (tp_TransactionId req) of
        None \<Rightarrow> None
      | Some tx \<Rightarrow>
          if bt_State tx \<noteq> ''prepared''
          then Some (s, tp_response False ''Transaction not prepared'')
          else
            Some (set_state (tp_TransactionId req) tx ''committed''
                    (change_balance (tp_ClientName req) (\<lambda>b. b - tp_Amount req) s),
                  tp_response True ''Debit committed''))"

definition CommitCredit :: "BankServer \<Rightarrow> TwoPhaseRequest \<Rightarrow> (BankServer \<times> TwoPhaseResponse) option" where
  "CommitCredit s req =
     (case map_of (bank_transactions s) (tp_TransactionId req) of
        None \<Rightarrow> Some (s, tp_response False ''Transaction not prepared'')
      | Some tx \<Rightarrow>
          if bt_State tx \<noteq> ''prepared''
          then Some (s, tp_response False ''Transaction not prepared'')
          else
            Some (set_state (tp_TransactionId req) tx ''committed''
                    (change_balance (tp_ClientName req) (\<lambda>b. b + tp_Amount req) s),
                  tp_response True ''Credit committed''))"

definition BankAbort :: "BankServer \<Rightarrow> TwoPhaseRequest \<Rightarrow> (BankServer \<times> TwoPhaseResponse) option" where
  "BankAbort s req =
     (case map_of (bank_transactions s) (tp_TransactionId req) of
        None \<Rightarrow> Some (s, tp_response True ''Transaction not found, considered aborted'')
      | Some tx \<Rightarrow>
          Some (set_state (tp_TransactionId req) tx ''aborted'' s,
                tp_response True ''Transaction aborted''))"

definition GetBankName :: "BankServer \<Rightarrow> TwoPhaseRequest \<Rightarrow> (BankServer \<times> TwoPhaseResponse) option" where
  "GetBankName s req = Some (s, tp_response True (bank_Name s))"

end
