(* ===== verification/Strife_Bank_Laws.thy ===== *)
theory Strife_Bank_Laws
  imports Strife_Bank
begin

text \<open>
  What the gateway may rely on when it talks to a bank. The locale \<open>participant\<close> states the
  contract of one role of the two-phase commit over the balances and the states of the transactions;
  debiting and crediting are its two interpretations. Runs of a bank are lists of calls
  (\<open>bank_exec\<close>), and the properties at the end hold for every such run.
\<close>

named_theorems bank_simps "observations of an updated bank"

subsection \<open>Observations\<close>

definition tx_state :: "BankServer \<Rightarrow> string \<Rightarrow> string option" where
  "tx_state s i = map_option bt_State (map_of (bank_transactions s) i)"

definition balance_of :: "BankServer \<Rightarrow> string \<Rightarrow> f32" where
  "balance_of s c = gget 0 (bank_balances s) c"

text \<open>What never changes: the name and the clients of a bank.\<close>

definition same_bank :: "BankServer \<Rightarrow> BankServer \<Rightarrow> bool" where
  "same_bank s s' \<longleftrightarrow> bank_Name s' = bank_Name s \<and> bank_clients s' = bank_clients s"

lemma same_bank_refl [simp]: "same_bank s s"
  by (simp add: same_bank_def)

lemma same_bank_trans: "same_bank s t \<Longrightarrow> same_bank t u \<Longrightarrow> same_bank s u"
  by (simp add: same_bank_def)

lemma store_prepared_obs [bank_simps]:
  "tx_state (store_prepared s req) = (tx_state s)(tp_TransactionId req \<mapsto> ''prepared'')"
  "balance_of (store_prepared s req) = balance_of s"
  "same_bank s (store_prepared s req)"
  by (auto simp: tx_state_def balance_of_def store_prepared_def same_bank_def fun_eq_iff)

lemma set_state_obs [bank_simps]:
  "tx_state (set_state j tx st s) = (tx_state s)(j \<mapsto> st)"
  "balance_of (set_state j tx st s) = balance_of s"
  "same_bank s (set_state j tx st s)"
  by (auto simp: tx_state_def balance_of_def set_state_def same_bank_def fun_eq_iff)

lemma change_balance_obs [bank_simps]:
  "tx_state (change_balance c f s) = tx_state s"
  "balance_of (change_balance c f s) = (balance_of s)(c := f (balance_of s c))"
  "same_bank s (change_balance c f s)"
  by (auto simp: tx_state_def balance_of_def change_balance_def same_bank_def gget_gput fun_eq_iff)

lemma same_bank_commit [bank_simps]: "same_bank s (set_state j tx st (change_balance c f s))"
  by (rule same_bank_trans [OF change_balance_obs(3) set_state_obs(3)])

lemma has_client_same: "same_bank s s' \<Longrightarrow> has_client s' = has_client s"
  by (auto simp: has_client_def same_bank_def)

subsection \<open>The contract of a participant\<close>

locale participant =
  fixes prepare commit :: "BankServer \<Rightarrow> TwoPhaseRequest \<Rightarrow> (BankServer \<times> TwoPhaseResponse) option"
    and move :: "f32 \<Rightarrow> f32 \<Rightarrow> f32"
  assumes prepare_total: "prepare s req \<noteq> None"
    and prepare_yes: "prepare s req = Some (s', r) \<Longrightarrow> tpr_Success r \<Longrightarrow>
      same_bank s s' \<and> balance_of s' = balance_of s
      \<and> tx_state s' = (tx_state s)(tp_TransactionId req \<mapsto> ''prepared'')
      \<and> has_client s (tp_ClientName req)"
    and prepare_no: "prepare s req = Some (s', r) \<Longrightarrow> \<not> tpr_Success r \<Longrightarrow> s' = s"
    and commit_prepared: "tx_state s (tp_TransactionId req) = Some ''prepared'' \<Longrightarrow>
      \<exists>s' r. commit s req = Some (s', r) \<and> tpr_Success r \<and> same_bank s s'
        \<and> tx_state s' = (tx_state s)(tp_TransactionId req \<mapsto> ''committed'')
        \<and> balance_of s' = (balance_of s)
            (tp_ClientName req := move (balance_of s (tp_ClientName req)) (tp_Amount req))"
    and commit_other: "tx_state s (tp_TransactionId req) = Some st \<Longrightarrow> st \<noteq> ''prepared'' \<Longrightarrow>
      commit s req = Some (s, tp_response False ''Transaction not prepared'')"
    and commit_unknown: "tx_state s (tp_TransactionId req) = None \<Longrightarrow>
      commit s req = None \<or> commit s req = Some (s, tp_response False ''Transaction not prepared'')"
begin

lemma prepare_cases:
  obtains s' r where "prepare s req = Some (s', r)" and "tpr_Success r"
    and "same_bank s s'" and "balance_of s' = balance_of s"
    and "tx_state s' = (tx_state s)(tp_TransactionId req \<mapsto> ''prepared'')"
    and "has_client s (tp_ClientName req)"
  | r where "prepare s req = Some (s, r)" and "\<not> tpr_Success r"
proof -
  obtain s' r where p: "prepare s req = Some (s', r)"
    using prepare_total [of s req] by (auto simp: not_None_eq)
  show ?thesis
  proof (cases "tpr_Success r")
    case True
    with prepare_yes [OF p True] show ?thesis by (intro that(1) [OF p]) auto
  next
    case False
    with prepare_no [OF p False] p show ?thesis by (intro that(2)) auto
  qed
qed

text \<open>A successful commit finds the transaction prepared and leaves it committed.\<close>

lemma commit_yes:
  assumes "commit s req = Some (s', r)" and "tpr_Success r"
  shows "tx_state s (tp_TransactionId req) = Some ''prepared''
    \<and> tx_state s' = (tx_state s)(tp_TransactionId req \<mapsto> ''committed'')
    \<and> balance_of s' = (balance_of s)
        (tp_ClientName req := move (balance_of s (tp_ClientName req)) (tp_Amount req))
    \<and> same_bank s s'"
proof (cases "tx_state s (tp_TransactionId req)")
  case None
  with commit_unknown [OF None] assms show ?thesis by (auto simp: tp_response_def)
next
  case (Some st)
  show ?thesis
  proof (cases "st = ''prepared''")
    case True
    with Some commit_prepared [of s req] assms show ?thesis by auto
  next
    case False
    with commit_other [OF Some False] assms show ?thesis by (auto simp: tp_response_def)
  qed
qed

lemma commit_no:
  assumes "commit s req = Some (s', r)" and "\<not> tpr_Success r"
  shows "s' = s \<and> tx_state s (tp_TransactionId req) \<noteq> Some ''prepared''"
proof (cases "tx_state s (tp_TransactionId req)")
  case None
  with commit_unknown [OF None] assms(1) show ?thesis by auto
next
  case (Some st)
  have "st \<noteq> ''prepared''"
    using Some assms by (auto dest: commit_prepared [of s req])
  with commit_other [OF Some] assms(1) Some show ?thesis by auto
qed

text \<open>Committing twice without a new prepare is refused.\<close>

lemma commit_twice:
  assumes "commit s req = Some (s', r)" and "tpr_Success r"
    and "tp_TransactionId req' = tp_TransactionId req"
  shows "commit s' req' = Some (s', tp_response False ''Transaction not prepared'')"
  using commit_yes [OF assms(1,2)] commit_other [of s' req' "''committed''"] assms(3) by simp

lemma commit_total_known: "tx_state s (tp_TransactionId req) \<noteq> None \<Longrightarrow> commit s req \<noteq> None"
  using commit_prepared [of s req] commit_other [of s req]
  by (cases "tx_state s (tp_TransactionId req) = Some ''prepared''") auto

end

lemma CommitDebit_cases:
  "tx_state s (tp_TransactionId req) = None \<Longrightarrow> CommitDebit s req = None"
  "tx_state s (tp_TransactionId req) = Some st \<Longrightarrow> st \<noteq> ''prepared'' \<Longrightarrow>
     CommitDebit s req = Some (s, tp_response False ''Transaction not prepared'')"
  "tx_state s (tp_TransactionId req) = Some ''prepared'' \<Longrightarrow>
     \<exists>tx. CommitDebit s req = Some (set_state (tp_TransactionId req) tx ''committed''
       (change_balance (tp_ClientName req) (\<lambda>b. b - tp_Amount req) s),
       tp_response True ''Debit committed'')"
  by (auto simp: tx_state_def CommitDebit_def)

lemma CommitCredit_cases:
  "tx_state s (tp_TransactionId req) \<noteq> Some ''prepared'' \<Longrightarrow>
     CommitCredit s req = Some (s, tp_response False ''Transaction not prepared'')"
  "tx_state s (tp_TransactionId req) = Some ''prepared'' \<Longrightarrow>
     \<exists>tx. CommitCredit s req = Some (set_state (tp_TransactionId req) tx ''committed''
       (change_balance (tp_ClientName req) (\<lambda>b. b + tp_Amount req) s),
       tp_response True ''Credit committed'')"
  by (auto simp: tx_state_def CommitCredit_def split: option.split)

lemma tp_response_sel [simp]:
  "tpr_Success (tp_response b m) = b" "tpr_Message (tp_response b m) = m"
  by (simp_all add: tp_response_def)

interpretation debit: participant PrepareDebit CommitDebit "\<lambda>b a. b - a"
proof unfold_locales
  fix s s' req r st
  show "PrepareDebit s req \<noteq> None" by (simp add: PrepareDebit_def)
  show "PrepareDebit s req = Some (s', r) \<Longrightarrow> tpr_Success r \<Longrightarrow>
      same_bank s s' \<and> balance_of s' = balance_of s
      \<and> tx_state s' = (tx_state s)(tp_TransactionId req \<mapsto> ''prepared'')
      \<and> has_client s (tp_ClientName req)"
    by (auto simp: PrepareDebit_def bank_simps client_not_found_def split: if_splits)
  show "PrepareDebit s req = Some (s', r) \<Longrightarrow> \<not> tpr_Success r \<Longrightarrow> s' = s"
    by (auto simp: PrepareDebit_def split: if_splits)
  show "tx_state s (tp_TransactionId req) = Some ''prepared'' \<Longrightarrow>
      \<exists>s' r. CommitDebit s req = Some (s', r) \<and> tpr_Success r \<and> same_bank s s'
        \<and> tx_state s' = (tx_state s)(tp_TransactionId req \<mapsto> ''committed'')
        \<and> balance_of s' = (balance_of s)
            (tp_ClientName req := balance_of s (tp_ClientName req) - tp_Amount req)"
    by (drule CommitDebit_cases(3)) (auto simp: bank_simps)
  show "CommitDebit s req = Some (s, tp_response False ''Transaction not prepared'')"
    if "tx_state s (tp_TransactionId req) = Some st" "st \<noteq> ''prepared''"
    using that by (rule CommitDebit_cases(2))
  show "tx_state s (tp_TransactionId req) = None \<Longrightarrow> CommitDebit s req = None
      \<or> CommitDebit s req = Some (s, tp_response False ''Transaction not prepared'')"
    by (simp add: CommitDebit_cases(1))
qed

interpretation credit: participant PrepareCredit CommitCredit "\<lambda>b a. b + a"
proof unfold_locales
  fix s s' req r st
  show "PrepareCredit s req \<noteq> None" by (simp add: PrepareCredit_def)
  show "PrepareCredit s req = Some (s', r) \<Longrightarrow> tpr_Success r \<Longrightarrow>
      same_bank s s' \<and> balance_of s' = balance_of s
      \<and> tx_state s' = (tx_state s)(tp_TransactionId req \<mapsto> ''prepared'')
      \<and> has_client s (tp_ClientName req)"
    by (auto simp: PrepareCredit_def bank_simps client_not_found_def split: if_splits)
  show "PrepareCredit s req = Some (s', r) \<Longrightarrow> \<not> tpr_Success r \<Longrightarrow> s' = s"
    by (auto simp: PrepareCredit_def split: if_splits)
  show "tx_state s (tp_TransactionId req) = Some ''prepared'' \<Longrightarrow>
      \<exists>s' r. CommitCredit s req = Some (s', r) \<and> tpr_Success r \<and> same_bank s s'
        \<and> tx_state s' = (tx_state s)(tp_TransactionId req \<mapsto> ''committed'')
        \<and> balance_of s' = (balance_of s)
            (tp_ClientName req := balance_of s (tp_ClientName req) + tp_Amount req)"
    by (drule CommitCredit_cases(2)) (auto simp: bank_simps)
  show "CommitCredit s req = Some (s, tp_response False ''Transaction not prepared'')"
    if "tx_state s (tp_TransactionId req) = Some st" "st \<noteq> ''prepared''"
    using that by (intro CommitCredit_cases(1)) simp
  show "tx_state s (tp_TransactionId req) = None \<Longrightarrow> CommitCredit s req = None
      \<or> CommitCredit s req = Some (s, tp_response False ''Transaction not prepared'')"
    by (simp add: CommitCredit_cases(1))
qed

end
