(* ===== verification/Strife_Bank_Theorems.thy ===== *)
theory Strife_Bank_Theorems
  imports Strife_Bank_Laws
begin

text \<open>
  Runs of one bank under arbitrary calls, in any order and from any callers: the ledger of a
  client, at most one commit per prepare, and when the process dies.
\<close>

datatype bank_call =
    PaymentCall PaymentRequest
  | PrepareDebitCall TwoPhaseRequest
  | PrepareCreditCall TwoPhaseRequest
  | CommitDebitCall TwoPhaseRequest
  | CommitCreditCall TwoPhaseRequest
  | AbortCall TwoPhaseRequest
  | NameCall TwoPhaseRequest

definition success_of :: "(BankServer \<times> TwoPhaseResponse) option \<Rightarrow> (BankServer \<times> bool) option" where
  "success_of x = map_option (\<lambda>(s, r). (s, tpr_Success r)) x"

fun bank_step :: "BankServer \<Rightarrow> bank_call \<Rightarrow> (BankServer \<times> bool) option" where
  "bank_step s (PaymentCall req) =
     (case BankProcessPayment s req of (s', r) \<Rightarrow> Some (s', resp_Success r))"
| "bank_step s (PrepareDebitCall req) = success_of (PrepareDebit s req)"
| "bank_step s (PrepareCreditCall req) = success_of (PrepareCredit s req)"
| "bank_step s (CommitDebitCall req) = success_of (CommitDebit s req)"
| "bank_step s (CommitCreditCall req) = success_of (CommitCredit s req)"
| "bank_step s (AbortCall req) = success_of (BankAbort s req)"
| "bank_step s (NameCall req) = success_of (GetBankName s req)"

fun bank_exec :: "BankServer \<Rightarrow> bank_call list \<Rightarrow> (BankServer \<times> bool list) option" where
  "bank_exec s [] = Some (s, [])"
| "bank_exec s (c # cs) =
     (case bank_step s c of
        None \<Rightarrow> None
      | Some (s1, b) \<Rightarrow>
          (case bank_exec s1 cs of None \<Rightarrow> None | Some (s2, bs) \<Rightarrow> Some (s2, b # bs)))"

fun prepares_tx :: "string \<Rightarrow> bank_call \<times> bool \<Rightarrow> bool" where
  "prepares_tx i (PrepareDebitCall req, b) = (b \<and> tp_TransactionId req = i)"
| "prepares_tx i (PrepareCreditCall req, b) = (b \<and> tp_TransactionId req = i)"
| "prepares_tx i _ = False"

fun commits_tx :: "string \<Rightarrow> bank_call \<times> bool \<Rightarrow> bool" where
  "commits_tx i (CommitDebitCall req, b) = (b \<and> tp_TransactionId req = i)"
| "commits_tx i (CommitCreditCall req, b) = (b \<and> tp_TransactionId req = i)"
| "commits_tx i _ = False"

definition count :: "('a \<Rightarrow> bool) \<Rightarrow> 'a list \<Rightarrow> nat" where
  "count p xs = length (filter p xs)"

lemma count_simps [simp]:
  "count p [] = 0" "count p (x # xs) = (if p x then Suc (count p xs) else count p xs)"
  by (simp_all add: count_def)

text \<open>The effect of one call with its answer on the balance of a client.\<close>

fun movement :: "(string, string) gomap \<Rightarrow> string \<Rightarrow> bank_call \<times> bool \<Rightarrow> f32 \<Rightarrow> f32" where
  "movement clients cl (PaymentCall req, b) x =
     (if b \<and> gget '''' clients (pr_AccountNumber req) = cl then x - pr_Amount req else x)"
| "movement clients cl (CommitDebitCall req, b) x =
     (if b \<and> tp_ClientName req = cl then x - tp_Amount req else x)"
| "movement clients cl (CommitCreditCall req, b) x =
     (if b \<and> tp_ClientName req = cl then x + tp_Amount req else x)"
| "movement clients cl _ x = x"

lemma success_of_simps [simp]:
  "success_of x = None \<longleftrightarrow> x = None"
  "success_of x = Some (s, b) \<longleftrightarrow> (\<exists>r. x = Some (s, r) \<and> tpr_Success r = b)"
  by (auto simp: success_of_def)

lemma payment_response_sel [simp]:
  "resp_Success (payment_response b m) = b" "resp_Message (payment_response b m) = m"
  by (simp_all add: payment_response_def)

lemma BankProcessPayment_cases:
  obtains (refused) m where "BankProcessPayment s req = (s, payment_response False m)"
  | (paid) cl b where "gget '''' (bank_clients s) (pr_AccountNumber req) = cl"
      and "map_of (bank_balances s) cl = Some b" and "\<not> b < pr_Amount req" and "\<not> pr_Amount req \<le> 0"
      and "BankProcessPayment s req =
        (s\<lparr>bank_balances := gput cl (b - pr_Amount req) (bank_balances s)\<rparr>,
         payment_response True ''Payment processed successfully'')"
proof (cases "pr_Amount req \<le> 0 \<or> gget '''' (bank_clients s) (pr_AccountNumber req) = ''''")
  case True
  then show ?thesis
    by (cases "pr_Amount req \<le> 0") (auto intro: refused simp: BankProcessPayment_def Let_def)
next
  case False
  show ?thesis
  proof (cases "map_of (bank_balances s) (gget '''' (bank_clients s) (pr_AccountNumber req))")
    case None
    with False show ?thesis by (intro refused) (simp add: BankProcessPayment_def Let_def)
  next
    case (Some b)
    show ?thesis
    proof (cases "b < pr_Amount req")
      case True
      with False Some show ?thesis by (intro refused) (simp add: BankProcessPayment_def Let_def)
    next
      case nless: False
      with False Some show ?thesis
        by (intro paid [OF refl]) (simp_all add: BankProcessPayment_def Let_def)
    qed
  qed
qed

lemma payment_obs:
  assumes "BankProcessPayment s req = (s', r)"
  shows "same_bank s s' \<and> tx_state s' = tx_state s
    \<and> balance_of s' cl = movement (bank_clients s) cl (PaymentCall req, resp_Success r) (balance_of s cl)"
proof (cases rule: BankProcessPayment_cases [of s req])
  case (refused m)
  with assms show ?thesis by auto
next
  case (paid c b)
  with assms have "s' = s\<lparr>bank_balances := gput c (b - pr_Amount req) (bank_balances s)\<rparr>"
    "resp_Success r" by auto
  with paid(1,2) show ?thesis
    by (auto simp: same_bank_def tx_state_def balance_of_def gget_gput fun_eq_iff
        gget_def [of 0 "bank_balances s"])
qed

lemma BankAbort_obs:
  "\<exists>s' r. BankAbort s req = Some (s', r) \<and> tpr_Success r \<and> same_bank s s'
     \<and> balance_of s' = balance_of s
     \<and> tx_state s' = (case tx_state s (tp_TransactionId req) of None \<Rightarrow> tx_state s
         | Some _ \<Rightarrow> (tx_state s)(tp_TransactionId req \<mapsto> ''aborted''))"
  by (auto simp: BankAbort_def bank_simps split: option.split) (auto simp: tx_state_def)

text \<open>What one call does: to the balances, and to the state of one transaction.\<close>

definition pending :: "BankServer \<Rightarrow> string \<Rightarrow> nat" where
  "pending s i = (if tx_state s i = Some ''prepared'' then 1 else 0)"

definition step_law :: "string \<Rightarrow> string \<Rightarrow> BankServer \<Rightarrow> BankServer \<Rightarrow> bank_call \<times> bool \<Rightarrow> bool" where
  "step_law cl i s s' ev \<longleftrightarrow>
     same_bank s s' \<and> balance_of s' cl = movement (bank_clients s) cl ev (balance_of s cl)
     \<and> pending s' i + (if commits_tx i ev then 1 else 0) \<le> pending s i + (if prepares_tx i ev then 1 else 0)
     \<and> (tx_state s' i = None \<longleftrightarrow> tx_state s i = None \<and> \<not> prepares_tx i ev)"

lemma pending_upd:
  assumes "tx_state s' = (tx_state s)(j \<mapsto> st)"
  shows "pending s' i = (if i = j then (if st = ''prepared'' then 1 else 0) else pending s i)"
    and "tx_state s' i = None \<longleftrightarrow> tx_state s i = None \<and> i \<noteq> j"
  using assms by (simp_all add: pending_def)

lemma pending_le: "pending s i \<le> 1"
  by (simp add: pending_def)

lemma step_law_refl:
  "movement (bank_clients s) cl ev (balance_of s cl) = balance_of s cl \<Longrightarrow>
   \<not> commits_tx i ev \<Longrightarrow> \<not> prepares_tx i ev \<Longrightarrow> step_law cl i s s ev"
  by (simp add: step_law_def)

lemma step_law_prepare:
  assumes "same_bank s s'" and "balance_of s' = balance_of s"
    and "tx_state s' = (tx_state s)(tp_TransactionId req \<mapsto> ''prepared'')"
  shows "step_law cl i s s' (PrepareDebitCall req, True)"
    and "step_law cl i s s' (PrepareCreditCall req, True)"
  using assms(1,2) by (auto simp: step_law_def pending_upd [OF assms(3)])

lemma step_law_commit:
  assumes "same_bank s s'" and "tx_state s (tp_TransactionId req) = Some ''prepared''"
    and "tx_state s' = (tx_state s)(tp_TransactionId req \<mapsto> ''committed'')"
  shows "balance_of s' = (balance_of s)
      (tp_ClientName req := balance_of s (tp_ClientName req) - tp_Amount req) \<Longrightarrow>
      step_law cl i s s' (CommitDebitCall req, True)"
    and "balance_of s' = (balance_of s)
      (tp_ClientName req := balance_of s (tp_ClientName req) + tp_Amount req) \<Longrightarrow>
      step_law cl i s s' (CommitCreditCall req, True)"
proof -
  have "pending s (tp_TransactionId req) = 1" using assms(2) by (simp add: pending_def)
  moreover have "tx_state s (tp_TransactionId req) \<noteq> None" using assms(2) by simp
  ultimately show "balance_of s' = (balance_of s)
      (tp_ClientName req := balance_of s (tp_ClientName req) - tp_Amount req) \<Longrightarrow>
      step_law cl i s s' (CommitDebitCall req, True)"
    and "balance_of s' = (balance_of s)
      (tp_ClientName req := balance_of s (tp_ClientName req) + tp_Amount req) \<Longrightarrow>
      step_law cl i s s' (CommitCreditCall req, True)"
    using assms(1) by (auto simp: step_law_def pending_upd [OF assms(3)])
qed

lemma bank_step_law: "bank_step s c = Some (s', b) \<Longrightarrow> step_law cl i s s' (c, b)"
proof (cases c)
  case (PaymentCall req)
  assume "bank_step s c = Some (s', b)"
  then show ?thesis using PaymentCall payment_obs [of s req s' _ cl]
    by (auto simp: step_law_def pending_def split: prod.splits)
next
  case (PrepareDebitCall req)
  assume st: "bank_step s c = Some (s', b)"
  show ?thesis
    by (rule debit.prepare_cases [of s req])
      (use st PrepareDebitCall in \<open>auto intro: step_law_prepare step_law_refl\<close>)
next
  case (PrepareCreditCall req)
  assume st: "bank_step s c = Some (s', b)"
  show ?thesis
    by (rule credit.prepare_cases [of s req])
      (use st PrepareCreditCall in \<open>auto intro: step_law_prepare step_law_refl\<close>)
next
  case (CommitDebitCall req)
  assume "bank_step s c = Some (s', b)"
  then obtain r where "CommitDebit s req = Some (s', r)" "tpr_Success r = b"
    using CommitDebitCall by auto
  then show ?thesis
    using CommitDebitCall debit.commit_yes [of s req s' r] debit.commit_no [of s req s' r]
    by (cases b) (simp_all add: step_law_commit(1) step_law_refl)
next
  case (CommitCreditCall req)
  assume "bank_step s c = Some (s', b)"
  then obtain r where "CommitCredit s req = Some (s', r)" "tpr_Success r = b"
    using CommitCreditCall by auto
  then show ?thesis
    using CommitCreditCall credit.commit_yes [of s req s' r] credit.commit_no [of s req s' r]
    by (cases b) (simp_all add: step_law_commit(2) step_law_refl)
next
  case (AbortCall req)
  assume "bank_step s c = Some (s', b)"
  then show ?thesis using AbortCall BankAbort_obs [of s req]
    by (auto simp: step_law_def pending_def split: option.splits)
next
  case (NameCall req)
  assume "bank_step s c = Some (s', b)"
  then show ?thesis using NameCall by (auto simp: GetBankName_def intro: step_law_refl)
qed

lemma bank_exec_ConsE:
  assumes "bank_exec s (c # cs) = Some (s', bs)"
  obtains s1 b bs1 where "bank_step s c = Some (s1, b)" and "bank_exec s1 cs = Some (s', bs1)"
    and "bs = b # bs1"
  using assms by (auto split: option.splits prod.splits)

lemma bank_exec_length: "bank_exec s cs = Some (s', bs) \<Longrightarrow> length bs = length cs"
  by (induction cs arbitrary: s bs) (auto split: option.splits prod.splits)

lemma bank_exec_append:
  "bank_exec s (cs @ ds) =
     (case bank_exec s cs of None \<Rightarrow> None
      | Some (s1, bs) \<Rightarrow> map_option (\<lambda>(s2, es). (s2, bs @ es)) (bank_exec s1 ds))"
  by (induction cs arbitrary: s) (auto simp: option.map_id split: option.split)

subsection \<open>The properties\<close>

text \<open>C14. The ledger. After any run of calls, the balance of every client is its
  initial balance with exactly the amounts of the successful simple payments and commits for
  that client subtracted or added, in the order of the calls; prepares, aborts and refused calls
  move nothing, and the bank keeps its name and clients.\<close>

theorem bank_ledger:
  "bank_exec s cs = Some (s', bs) \<Longrightarrow>
     balance_of s' cl = fold (movement (bank_clients s) cl) (zip cs bs) (balance_of s cl)
     \<and> same_bank s s'"
proof (induction cs arbitrary: s bs)
  case Nil
  then show ?case by simp
next
  case (Cons c cs)
  from Cons.prems obtain s1 b bs1 where st: "bank_step s c = Some (s1, b)"
    and ex: "bank_exec s1 cs = Some (s', bs1)" and bs: "bs = b # bs1"
    by (rule bank_exec_ConsE)
  have law: "same_bank s s1" "balance_of s1 cl = movement (bank_clients s) cl (c, b) (balance_of s cl)"
    using bank_step_law [OF st, of cl] by (simp_all add: step_law_def)
  with Cons.IH [OF ex] bs show ?case
    by (auto simp: same_bank_def)
qed

text \<open>A bank with one client, to evaluate runs on.\<close>

definition example_bank :: "int \<Rightarrow> BankServer" where
  "example_bank n =
     \<lparr>bank_Name = ''BankA'', bank_clients = [(''123456'', ''Alice'')], bank_transactions = [],
      bank_balances = [(''Alice'', units n)]\<rparr>"

definition example_req :: "string \<Rightarrow> int \<Rightarrow> TwoPhaseRequest" where
  "example_req i n = \<lparr>tp_TransactionId = i, tp_ClientName = ''Alice'', tp_Amount = units n\<rparr>"

lemma example_debit_run:
  "\<exists>s'. bank_exec (example_bank 100)
     [PrepareDebitCall (example_req ''t'' 30), CommitDebitCall (example_req ''t'' 30)] = Some (s', [True, True])"
  by (simp add: PrepareDebit_def CommitDebit_def example_bank_def example_req_def has_client_def
      gget_def store_prepared_def tp_response_def success_of_def)

theorem bank_ledger_witness:
  "\<exists>s'. bank_exec (example_bank 100)
       [PrepareDebitCall (example_req ''t'' 30), CommitDebitCall (example_req ''t'' 30)] = Some (s', [True, True])
     \<and> balance_of s' ''Alice'' = units 70"
proof -
  obtain s' where ex: "bank_exec (example_bank 100)
     [PrepareDebitCall (example_req ''t'' 30), CommitDebitCall (example_req ''t'' 30)] = Some (s', [True, True])"
    using example_debit_run by blast
  have "balance_of (example_bank 100) ''Alice'' = units 100"
    by (simp add: balance_of_def example_bank_def gget_def)
  with bank_ledger [OF ex, of "''Alice''"] ex show ?thesis
    by (auto simp: example_req_def units_sub)
qed

lemma commits_bounded:
  "bank_exec s cs = Some (s', bs) \<Longrightarrow>
     pending s' i + count (commits_tx i) (zip cs bs) \<le> pending s i + count (prepares_tx i) (zip cs bs)"
proof (induction cs arbitrary: s bs)
  case Nil
  then show ?case by simp
next
  case (Cons c cs)
  from Cons.prems obtain s1 b bs1 where st: "bank_step s c = Some (s1, b)"
    and ex: "bank_exec s1 cs = Some (s', bs1)" and bs: "bs = b # bs1"
    by (rule bank_exec_ConsE)
  have "pending s1 i + (if commits_tx i (c, b) then 1 else 0)
      \<le> pending s i + (if prepares_tx i (c, b) then 1 else 0)"
    using bank_step_law [OF st] by (simp add: step_law_def)
  with Cons.IH [OF ex] bs show ?case by (auto split: if_splits)
qed

text \<open>C26. At most one commit per prepare. In any run from a state in which transaction i is not
  prepared, i is committed successfully at most as often as it was prepared successfully, whatever
  the order of the calls.\<close>

theorem commit_at_most_once_per_prepare:
  assumes "bank_exec s cs = Some (s', bs)" and "tx_state s i \<noteq> Some ''prepared''"
  shows "count (commits_tx i) (zip cs bs) \<le> count (prepares_tx i) (zip cs bs)"
  using commits_bounded [OF assms(1), of i] assms(2) by (simp add: pending_def)

theorem commit_at_most_once_per_prepare_witness:
  "\<exists>s' bs. bank_exec (example_bank 100)
       [PrepareDebitCall (example_req ''t'' 30), CommitDebitCall (example_req ''t'' 30)] = Some (s', bs)
     \<and> count (commits_tx ''t'') (zip [PrepareDebitCall (example_req ''t'' 30), CommitDebitCall (example_req ''t'' 30)] bs) \<le> 1"
proof -
  obtain s' where ex: "bank_exec (example_bank 100)
     [PrepareDebitCall (example_req ''t'' 30), CommitDebitCall (example_req ''t'' 30)] = Some (s', [True, True])"
    using example_debit_run by blast
  have "tx_state (example_bank 100) ''t'' \<noteq> Some ''prepared''"
    by (simp add: tx_state_def example_bank_def)
  from commit_at_most_once_per_prepare [OF ex this] ex show ?thesis
    by (auto simp: example_req_def)
qed

lemma tx_known:
  "bank_exec s cs = Some (s', bs) \<Longrightarrow>
     tx_state s' i = None \<longleftrightarrow> tx_state s i = None \<and> count (prepares_tx i) (zip cs bs) = 0"
proof (induction cs arbitrary: s bs)
  case Nil
  then show ?case by simp
next
  case (Cons c cs)
  from Cons.prems obtain s1 b bs1 where st: "bank_step s c = Some (s1, b)"
    and ex: "bank_exec s1 cs = Some (s', bs1)" and bs: "bs = b # bs1"
    by (rule bank_exec_ConsE)
  have "tx_state s1 i = None \<longleftrightarrow> tx_state s i = None \<and> \<not> prepares_tx i (c, b)"
    using bank_step_law [OF st] by (simp add: step_law_def)
  with Cons.IH [OF ex] bs show ?case by auto
qed

lemma bank_step_panics:
  "bank_step s c = None \<longleftrightarrow>
     (\<exists>req. c = CommitDebitCall req \<and> tx_state s (tp_TransactionId req) = None)"
proof (cases c)
  case (PaymentCall req)
  then show ?thesis by (simp split: prod.split)
next
  case (PrepareDebitCall req)
  then show ?thesis by (simp add: debit.prepare_total)
next
  case (PrepareCreditCall req)
  then show ?thesis by (simp add: credit.prepare_total)
next
  case (CommitDebitCall req)
  have "CommitDebit s req = None \<longleftrightarrow> tx_state s (tp_TransactionId req) = None"
    using CommitDebit_cases(1) [of s req] debit.commit_total_known [of s req] by metis
  then show ?thesis using CommitDebitCall by simp
next
  case (CommitCreditCall req)
  have "CommitCredit s req \<noteq> None"
    using CommitCredit_cases [of s req]
    by (cases "tx_state s (tp_TransactionId req) = Some ''prepared''") auto
  then show ?thesis using CommitCreditCall by simp
next
  case (AbortCall req)
  then show ?thesis using BankAbort_obs [of s req] by auto
next
  case (NameCall req)
  then show ?thesis by (simp add: GetBankName_def)
qed

text \<open>C27. A run of a bank that starts without transactions kills the process exactly when some
  CommitDebit names a transaction that no earlier call of the run prepared successfully: the handler reads
  the state of the missing transaction for its log line before it tests whether it exists.\<close>

theorem bank_dies_iff_unprepared_debit:
  assumes "bank_transactions s = []"
  shows "bank_exec s cs = None \<longleftrightarrow>
    (\<exists>pre req post s1 bs. cs = pre @ CommitDebitCall req # post \<and> bank_exec s pre = Some (s1, bs)
       \<and> count (prepares_tx (tp_TransactionId req)) (zip pre bs) = 0)"
    (is "_ \<longleftrightarrow> ?R")
proof
  have none: "tx_state s i = None" for i using assms by (simp add: tx_state_def)
  show "?R" if "bank_exec s cs = None"
  proof -
    have "\<exists>pre c post s1 bs. cs = pre @ c # post \<and> bank_exec s pre = Some (s1, bs) \<and> bank_step s1 c = None"
      using that
    proof (induction cs rule: rev_induct)
      case Nil
      then show ?case by simp
    next
      case (snoc c cs)
      show ?case
      proof (cases "bank_exec s cs")
        case None
        with snoc.IH show ?thesis by (metis append_Cons append_assoc)
      next
        case (Some p)
        then obtain s1 bs where "bank_exec s cs = Some (s1, bs)" by (cases p) auto
        moreover from this snoc.prems have "bank_step s1 c = None"
          by (auto simp: bank_exec_append split: option.splits prod.splits)
        ultimately show ?thesis by blast
      qed
    qed
    then obtain pre c post s1 bs where cs: "cs = pre @ c # post"
      and pre: "bank_exec s pre = Some (s1, bs)" and "bank_step s1 c = None" by blast
    then obtain req where "c = CommitDebitCall req" "tx_state s1 (tp_TransactionId req) = None"
      by (auto simp: bank_step_panics)
    with cs pre tx_known [OF pre] show ?thesis by blast
  qed
  show "bank_exec s cs = None" if "?R"
  proof -
    from that obtain pre req post s1 bs where cs: "cs = pre @ CommitDebitCall req # post"
      and pre: "bank_exec s pre = Some (s1, bs)"
      and "count (prepares_tx (tp_TransactionId req)) (zip pre bs) = 0" by blast
    then have "bank_step s1 (CommitDebitCall req) = None"
      using tx_known [OF pre] none by (simp add: bank_step_panics del: bank_step.simps)
    then show ?thesis using cs pre by (simp add: bank_exec_append del: bank_step.simps)
  qed
qed

theorem bank_dies_iff_unprepared_debit_witness:
  "bank_exec (example_bank 100) [CommitDebitCall (example_req ''t'' 30)] = None"
proof -
  have "bank_transactions (example_bank 100) = []" by (simp add: example_bank_def)
  moreover have "[CommitDebitCall (example_req ''t'' 30)] = [] @ CommitDebitCall (example_req ''t'' 30) # []"
    "bank_exec (example_bank 100) [] = Some (example_bank 100, [])"
    "count (prepares_tx (tp_TransactionId (example_req ''t'' 30))) (zip [] []) = 0" by simp_all
  ultimately show ?thesis by (subst bank_dies_iff_unprepared_debit) blast+
qed

text \<open>C39. Preparing a debit reserves nothing. Two debits of the same client, each covered by the
  balance but not both together, are both prepared and then both committed, and the balance ends below
  zero.\<close>

theorem prepared_debits_overdraw:
  assumes c: "has_client s c" and b: "balance_of s c = units n"
    and a: "0 \<le> a" "a \<le> n" "0 \<le> a'" "a' \<le> n" "n < a + a'" "n \<le> 2 ^ 24" and i: "i \<noteq> j"
  shows "\<exists>s'. bank_exec s
      [PrepareDebitCall \<lparr>tp_TransactionId = i, tp_ClientName = c, tp_Amount = units a\<rparr>,
       PrepareDebitCall \<lparr>tp_TransactionId = j, tp_ClientName = c, tp_Amount = units a'\<rparr>,
       CommitDebitCall \<lparr>tp_TransactionId = i, tp_ClientName = c, tp_Amount = units a\<rparr>,
       CommitDebitCall \<lparr>tp_TransactionId = j, tp_ClientName = c, tp_Amount = units a'\<rparr>]
      = Some (s', [True, True, True, True])
    \<and> balance_of s' c = units (n - a - a') \<and> balance_of s' c < 0"
proof -
  let ?r1 = "\<lparr>tp_TransactionId = i, tp_ClientName = c, tp_Amount = units a\<rparr>"
  let ?r2 = "\<lparr>tp_TransactionId = j, tp_ClientName = c, tp_Amount = units a'\<rparr>"
  have prep: "PrepareDebit t r = Some (store_prepared t r, tp_response True ''Debit prepared'')"
    if "has_client t (tp_ClientName r)" "balance_of t (tp_ClientName r) = units n"
      "tp_Amount r = units m" "m \<le> n" for t r m
    using that by (simp add: PrepareDebit_def balance_of_def)
  let ?s1 = "store_prepared s ?r1"
  let ?s2 = "store_prepared ?s1 ?r2"
  have p1: "PrepareDebit s ?r1 = Some (?s1, tp_response True ''Debit prepared'')"
    by (rule prep [of _ _ a]) (use c b a in simp_all)
  have p2: "PrepareDebit ?s1 ?r2 = Some (?s2, tp_response True ''Debit prepared'')"
    by (rule prep [of _ _ a'])
      (use c b a in \<open>simp_all add: bank_simps has_client_same [OF store_prepared_obs(3)]\<close>)
  have "tx_state ?s2 (tp_TransactionId ?r1) = Some ''prepared''"
    using i by (simp add: bank_simps)
  from debit.commit_prepared [OF this] obtain s3 x3 where c1: "CommitDebit ?s2 ?r1 = Some (s3, x3)" "tpr_Success x3"
    "tx_state s3 = (tx_state ?s2)(i \<mapsto> ''committed'')"
    "balance_of s3 = (balance_of ?s2)(c := balance_of ?s2 c - units a)"
    by auto
  then have "tx_state s3 (tp_TransactionId ?r2) = Some ''prepared''"
    using i by (simp add: bank_simps)
  from debit.commit_prepared [OF this] obtain s4 x4 where c2: "CommitDebit s3 ?r2 = Some (s4, x4)" "tpr_Success x4"
    "balance_of s4 = (balance_of s3)(c := balance_of s3 c - units a')"
    by auto
  have "balance_of s4 c = units (n - a - a')"
    using c1(4) c2(3) a b by (simp add: bank_simps units_sub)
  moreover have "units (n - a - a') < 0" using a by (simp add: zero_units)
  ultimately show ?thesis
    using p1 p2 c1 c2 by (intro exI [of _ s4]) (simp add: success_of_def)
qed

theorem prepared_debits_overdraw_witness:
  "\<exists>s'. bank_exec (example_bank 100)
      [PrepareDebitCall (example_req ''t'' 80), PrepareDebitCall (example_req ''u'' 70),
       CommitDebitCall (example_req ''t'' 80), CommitDebitCall (example_req ''u'' 70)]
      = Some (s', [True, True, True, True]) \<and> balance_of s' ''Alice'' = units (- 50)"
proof -
  have "has_client (example_bank 100) ''Alice''" "balance_of (example_bank 100) ''Alice'' = units 100"
    by (simp_all add: example_bank_def has_client_def balance_of_def gget_def)
  then show ?thesis
    using prepared_debits_overdraw [of "example_bank 100" "''Alice''" 100 80 70 "''t''" "''u''"]
    by (auto simp: example_req_def)
qed

end
