(* ===== verification/Strife_Store.thy ===== *)
theory Strife_Store
  imports Strife_Base
begin

text \<open>
  The gateway's own data (P3-Strife/gateway/storage and gateway/payment/transaction.go): account
  balances, users, and the records of processed transactions. Times are integers (nanoseconds);
  the current time is an argument. What a save writes is the value that is encoded, in the order in
  which Go visits the map.
\<close>

subsection \<open>Account balances (storage/balances.go)\<close>

record AccountBalance =
  ab_Balance :: f32
  ab_Currency :: string

text \<open>payment.Balance\<close>

record Balance =
  bal_Amount :: f32
  bal_Currency :: string

record BalanceStorage =
  bs_accountBalances :: "(string, AccountBalance) gomap"
  bs_file :: "BalanceData list json_file"

definition balance_map :: "BalanceData list \<Rightarrow> (string, AccountBalance) gomap" where
  "balance_map ds =
     foldl (\<lambda>m d. gput (bd_ClientName d) \<lparr>ab_Balance = bd_Balance d, ab_Currency = bd_Currency d\<rparr> m) [] ds"

definition LoadBalances :: "BalanceStorage \<Rightarrow> BalanceStorage \<times> string option" where
  "LoadBalances s =
     (case bs_file s of
        ReadError e \<Rightarrow> (s, Some e)
      | DecodeError e \<Rightarrow> (s, Some e)
      | Decoded balances \<Rightarrow> (s\<lparr>bs_accountBalances := balance_map balances\<rparr>, None))"

definition NewBalanceStorage :: "BalanceData list json_file \<Rightarrow> string + BalanceStorage" where
  "NewBalanceStorage file =
     (case LoadBalances \<lparr>bs_accountBalances = [], bs_file = file\<rparr> of
        (s, Some e) \<Rightarrow> Inl e
      | (s, None) \<Rightarrow> Inr s)"

definition StorageGetBalance :: "BalanceStorage \<Rightarrow> string \<Rightarrow> Balance option" where
  "StorageGetBalance s clientName =
     (case map_of (bs_accountBalances s) clientName of
        None \<Rightarrow> None
      | Some b \<Rightarrow> Some \<lparr>bal_Amount = ab_Balance b, bal_Currency = ab_Currency b\<rparr>)"

definition UpdateBalance :: "BalanceStorage \<Rightarrow> string \<Rightarrow> Balance \<Rightarrow> string + BalanceStorage" where
  "UpdateBalance s clientName balance =
     (case map_of (bs_accountBalances s) clientName of
        None \<Rightarrow> Inl (''client not found: '' @ clientName)
      | Some _ \<Rightarrow>
          Inr (s\<lparr>bs_accountBalances := gput clientName
                 \<lparr>ab_Balance = bal_Amount balance, ab_Currency = bal_Currency balance\<rparr>
                 (bs_accountBalances s)\<rparr>))"

text \<open>
  Package encoding/json refuses NaN and the infinities. \<open>order\<close> is the order of the loop over
  the map, \<open>write_error\<close> what ioutil.WriteFile returns.
\<close>

fun json_float_error :: "f32 \<Rightarrow> string option" where
  "json_float_error NaN = Some ''json: unsupported value: NaN''"
| "json_float_error PInf = Some ''json: unsupported value: +Inf''"
| "json_float_error NInf = Some ''json: unsupported value: -Inf''"
| "json_float_error (Fin _) = None"

definition balance_data :: "BalanceStorage \<Rightarrow> string list \<Rightarrow> BalanceData list" where
  "balance_data s order =
     map (\<lambda>c. case map_of (bs_accountBalances s) c of
            None \<Rightarrow> \<lparr>bd_ClientName = c, bd_Balance = 0, bd_Currency = ''''\<rparr>
          | Some b \<Rightarrow> \<lparr>bd_ClientName = c, bd_Balance = ab_Balance b, bd_Currency = ab_Currency b\<rparr>)
       order"

fun first_error :: "BalanceData list \<Rightarrow> string option" where
  "first_error [] = None"
| "first_error (d # ds) =
     (case json_float_error (bd_Balance d) of None \<Rightarrow> first_error ds | Some e \<Rightarrow> Some e)"

definition SaveBalances ::
  "string list \<Rightarrow> string option \<Rightarrow> BalanceStorage \<Rightarrow> BalanceStorage \<times> string option" where
  "SaveBalances order write_error s =
     (case first_error (balance_data s order) of
        Some e \<Rightarrow> (s, Some e)
      | None \<Rightarrow>
          (case write_error of
             Some e \<Rightarrow> (s, Some e)
           | None \<Rightarrow> (s\<lparr>bs_file := Decoded (balance_data s order)\<rparr>, None)))"

subsection \<open>Users (storage/users.go)\<close>

record User =
  us_Username :: string
  us_Password :: string
  us_Roles :: "string list"

record UserStorage =
  ust_users :: "(string, User) gomap"
  ust_file :: "User list json_file"

definition loadUsers :: "User list json_file \<Rightarrow> string + (string, User) gomap" where
  "loadUsers file =
     (case file of
        ReadError e \<Rightarrow> Inl e
      | DecodeError e \<Rightarrow> Inl e
      | Decoded users \<Rightarrow> Inr (foldl (\<lambda>m u. gput (us_Username u) u m) [] users))"

definition NewUserStorage :: "User list json_file \<Rightarrow> string + UserStorage" where
  "NewUserStorage file =
     (case loadUsers file of
        Inl e \<Rightarrow> Inl e
      | Inr users \<Rightarrow> Inr \<lparr>ust_users = users, ust_file = file\<rparr>)"

definition GetUser :: "UserStorage \<Rightarrow> string \<Rightarrow> User option" where
  "GetUser s username = map_of (ust_users s) username"

definition SaveUser ::
  "string list \<Rightarrow> string option \<Rightarrow> UserStorage \<Rightarrow> User \<Rightarrow> UserStorage \<times> string option" where
  "SaveUser order write_error s user =
     (let s1 = s\<lparr>ust_users := gput (us_Username user) user (ust_users s)\<rparr>
      in case write_error of
           Some e \<Rightarrow> (s1, Some e)
         | None \<Rightarrow> (s1\<lparr>ust_file := Decoded (List.map_filter (map_of (ust_users s1)) order)\<rparr>, None))"

subsection \<open>Transaction records (payment/transaction.go)\<close>

datatype TransactionState = TransactionPreparing | TransactionPrepared | TransactionCommitting
  | TransactionCommitted | TransactionAborting | TransactionAborted

record SimpleTransactionRecord =
  st_TransactionID :: string
  st_ClientName :: string
  st_Amount :: f32
  st_ProcessedAt :: int
  st_Result :: PaymentResponse

record TwoPhaseTransactionRecord =
  tx_ID :: string
  tx_Sender :: string
  tx_Receiver :: string
  tx_Amount :: f32
  tx_State :: TransactionState
  tx_PrepareVotes :: "(string, bool) gomap"
  tx_CommitVotes :: "(string, bool) gomap"
  tx_Timestamp :: int
  tx_Timeout :: int

datatype tx_record = SimpleTx SimpleTransactionRecord | TwoPhaseTx TwoPhaseTransactionRecord

record TransactionManager =
  tm_transactions :: "(string, tx_record) gomap"
  tm_ttl :: int

definition NewTransactionManager :: "int \<Rightarrow> TransactionManager" where
  "NewTransactionManager ttl = \<lparr>tm_transactions = [], tm_ttl = ttl\<rparr>"

definition GetActiveTransactions :: "TransactionManager \<Rightarrow> (string, tx_record) gomap" where
  "GetActiveTransactions tm = foldl (\<lambda>m (i, tx). gput i tx m) [] (tm_transactions tm)"

definition GetTransactionID :: "ctx \<Rightarrow> string" where
  "GetTransactionID c =
     (case ctx_metadata c of
        None \<Rightarrow> ''''
      | Some md \<Rightarrow> (case md_first md ''transaction_id'' of None \<Rightarrow> '''' | Some v \<Rightarrow> v))"

definition copy_votes :: "(string, bool) gomap \<Rightarrow> (string, bool) gomap" where
  "copy_votes votes = foldl (\<lambda>m (b, v). gput b v m) [] votes"

definition GetPrepareVotes :: "TwoPhaseTransactionRecord \<Rightarrow> (string, bool) gomap" where
  "GetPrepareVotes tx = copy_votes (tx_PrepareVotes tx)"

definition GetCommitVotes :: "TwoPhaseTransactionRecord \<Rightarrow> (string, bool) gomap" where
  "GetCommitVotes tx = copy_votes (tx_CommitVotes tx)"

definition StoreSimpleTransaction ::
  "TransactionManager \<Rightarrow> SimpleTransactionRecord \<Rightarrow> TransactionManager" where
  "StoreSimpleTransaction tm record =
     tm\<lparr>tm_transactions := gput (st_TransactionID record) (SimpleTx record) (tm_transactions tm)\<rparr>"

definition StoreTwoPhaseTransaction ::
  "TransactionManager \<Rightarrow> string \<Rightarrow> TwoPhaseTransactionRecord \<Rightarrow> TransactionManager" where
  "StoreTwoPhaseTransaction tm i record =
     tm\<lparr>tm_transactions := gput i (TwoPhaseTx record) (tm_transactions tm)\<rparr>"

definition GetTransaction :: "TransactionManager \<Rightarrow> string \<Rightarrow> tx_record option" where
  "GetTransaction tm i = map_of (tm_transactions tm) i"

definition HasActiveTransaction :: "TransactionManager \<Rightarrow> string \<Rightarrow> bool" where
  "HasActiveTransaction tm i \<longleftrightarrow> map_of (tm_transactions tm) i \<noteq> None"

definition CleanupTransaction :: "TransactionManager \<Rightarrow> string \<Rightarrow> TransactionManager" where
  "CleanupTransaction tm i = tm\<lparr>tm_transactions := gdel i (tm_transactions tm)\<rparr>"

fun tx_time :: "tx_record \<Rightarrow> int" where
  "tx_time (SimpleTx r) = st_ProcessedAt r"
| "tx_time (TwoPhaseTx r) = tx_Timestamp r"

text \<open>
  The periodic clean-up. An expired two-phase record is marked as aborted before it is removed;
  nothing but a handler that still runs can see the mark.
\<close>

definition cleanupExpiredTransactions :: "int \<Rightarrow> TransactionManager \<Rightarrow> TransactionManager" where
  "cleanupExpiredTransactions now tm =
     (let expiredIDs = map fst (filter (\<lambda>(_, r). now - tx_time r > tm_ttl tm) (tm_transactions tm))
      in tm\<lparr>tm_transactions := foldl (\<lambda>m i. gdel i m) (tm_transactions tm) expiredIDs\<rparr>)"

subsection \<open>The older record store (storage/transactions.go)\<close>

text \<open>TransactionRecord has the fields of SimpleTransactionRecord.\<close>

record TransactionStorage =
  ts_processedTransactions :: "(string, SimpleTransactionRecord) gomap"
  ts_transactionTTL :: int

definition NewTransactionStorage :: "int \<Rightarrow> TransactionStorage" where
  "NewTransactionStorage ttl = \<lparr>ts_processedTransactions = [], ts_transactionTTL = ttl\<rparr>"

definition StorageCleanupExpired :: "int \<Rightarrow> TransactionStorage \<Rightarrow> TransactionStorage" where
  "StorageCleanupExpired now s =
     s\<lparr>ts_processedTransactions :=
        filter (\<lambda>(_, r). \<not> now - st_ProcessedAt r > ts_transactionTTL s) (ts_processedTransactions s)\<rparr>"

definition StoreTransaction :: "TransactionStorage \<Rightarrow> SimpleTransactionRecord \<Rightarrow> TransactionStorage" where
  "StoreTransaction s record =
     s\<lparr>ts_processedTransactions := gput (st_TransactionID record) record (ts_processedTransactions s)\<rparr>"

definition StorageGetTransaction ::
  "TransactionStorage \<Rightarrow> string \<Rightarrow> SimpleTransactionRecord option" where
  "StorageGetTransaction s i = map_of (ts_processedTransactions s) i"

definition HasTransaction :: "TransactionStorage \<Rightarrow> string \<Rightarrow> bool" where
  "HasTransaction s i \<longleftrightarrow> map_of (ts_processedTransactions s) i \<noteq> None"

end
