(* ===== verification/Strife_Banking.thy ===== *)
theory Strife_Banking
  imports Strife_Bank Strife_Store
begin

text \<open>
  The gateway's view of the banks (P3-Strife/gateway/banking and gateway/config/config.go): which bank
  serves a client, connections, and the remote calls. The outcome of grpc.Dial and the fate of
  every remote call are arguments. The bank servers are kept by address; both run in one
  process, so a panic in one handler takes all of them down.
\<close>

subsection \<open>Configuration\<close>

record TLSConfig =
  tls_ServerCertPath :: string
  tls_ServerKeyPath :: string
  tls_CACertPath :: string

record BankConnection =
  bc_Name :: string
  bc_Address :: string

record Config =
  cfg_ServerAddress :: string
  cfg_UsersFilePath :: string
  cfg_BalancesFilePath :: string
  cfg_BankClientsFilePath :: string
  cfg_TLSConfig :: TLSConfig
  cfg_BankConnections :: "BankConnection list"
  cfg_TransactionTTL :: int
  cfg_CleanupInterval :: int
  cfg_PaymentTimeout :: int

definition DefaultConfig :: Config where
  "DefaultConfig =
     \<lparr>cfg_ServerAddress = '':50053'', cfg_UsersFilePath = ''data/users.json'',
      cfg_BalancesFilePath = ''data/balances.json'',
      cfg_BankClientsFilePath = ''data/bank_clients.json'',
      cfg_TLSConfig =
        \<lparr>tls_ServerCertPath = ''certs/server.crt'', tls_ServerKeyPath = ''certs/server.key'',
         tls_CACertPath = ''certs/ca.crt''\<rparr>,
      cfg_BankConnections =
        [\<lparr>bc_Name = ''BankA'', bc_Address = ''localhost:50051''\<rparr>,
         \<lparr>bc_Name = ''BankB'', bc_Address = ''localhost:50052''\<rparr>],
      cfg_TransactionTTL = 24 * 3600 * 10 ^ 9, cfg_CleanupInterval = 60 * 10 ^ 9,
      cfg_PaymentTimeout = 5 * 10 ^ 9\<rparr>"

text \<open>The path is ignored and nothing is read.\<close>

definition LoadConfig :: "string \<Rightarrow> Config" where
  "LoadConfig configPath = DefaultConfig"

subsection \<open>The banking service (banking/client.go)\<close>

record Bank =
  gb_Name :: string
  gb_Address :: string
  gb_Port :: int
  gb_Clients :: "(string, string) gomap"
  gb_connected :: bool

type_synonym DefaultBankService = "(string, Bank) gomap"

text \<open>
  The Sscanf with format \<open>%s:%d\<close> fails on every address, because \<open>%s\<close> takes everything up to white space and
  a colon cannot follow; so the address is kept whole and the port is 0.
\<close>

definition add_bank :: "DefaultBankService \<Rightarrow> BankConnection \<Rightarrow> DefaultBankService" where
  "add_bank banks conn =
     gput (bc_Name conn)
       \<lparr>gb_Name = bc_Name conn, gb_Address = bc_Address conn, gb_Port = 0, gb_Clients = [],
        gb_connected = False\<rparr> banks"

text \<open>
  The clients of one bank, account number to name, are turned round. The decoded file lists the
  banks and the accounts in the order in which the loops visit them.
\<close>

definition load_clients :: "(string, string) gomap \<Rightarrow> Bank \<Rightarrow> Bank" where
  "load_clients clients bank =
     bank\<lparr>gb_Clients := foldl (\<lambda>m (account, client). gput client account m) (gb_Clients bank) clients\<rparr>"

definition loadClientMappings ::
  "bank_clients_file json_file \<Rightarrow> DefaultBankService \<Rightarrow> DefaultBankService" where
  "loadClientMappings file banks =
     (case file of
        ReadError _ \<Rightarrow> banks
      | DecodeError _ \<Rightarrow> banks
      | Decoded mappings \<Rightarrow>
          foldl (\<lambda>bs (bankName, clients).
                   case map_of bs bankName of
                     None \<Rightarrow> bs
                   | Some bank \<Rightarrow> gput bankName (load_clients clients bank) bs)
            banks mappings)"

definition NewBankService ::
  "BankConnection list \<Rightarrow> bank_clients_file json_file \<Rightarrow> DefaultBankService" where
  "NewBankService conns file = loadClientMappings file (foldl add_bank [] conns)"

definition InitializeBankService :: "Config \<Rightarrow> bank_clients_file json_file \<Rightarrow> DefaultBankService" where
  "InitializeBankService cfg file = NewBankService (cfg_BankConnections cfg) file"

text \<open>The first bank in the order of the loop that lists the client.\<close>

definition getBankNameForClient ::
  "string list \<Rightarrow> DefaultBankService \<Rightarrow> string \<Rightarrow> string + string" where
  "getBankNameForClient order banks clientName =
     (case List.find (\<lambda>n. case map_of banks n of
                            None \<Rightarrow> False
                          | Some b \<Rightarrow> map_of (gb_Clients b) clientName \<noteq> None) order of
        None \<Rightarrow> Inl (''no bank found for client '' @ clientName)
      | Some n \<Rightarrow> Inr n)"

text \<open>
  Connecting when the bank is not connected yet. \<open>dial_error\<close> is the outcome of grpc.Dial. The
  result carries the bank's address, which stands for the connection, and its name.
\<close>

definition connect_bank ::
  "string option \<Rightarrow> DefaultBankService \<Rightarrow> string \<Rightarrow> DefaultBankService \<times> (string + (string \<times> string))" where
  "connect_bank dial_error banks bankName =
     (case map_of banks bankName of
        None \<Rightarrow> (banks, Inl (''bank '' @ bankName @ '' not found''))
      | Some bank \<Rightarrow>
          if gb_connected bank then (banks, Inr (gb_Address bank, gb_Name bank))
          else
            (case dial_error of
               Some e \<Rightarrow> (banks, Inl (''failed to connect to bank '' @ bankName @ '': '' @ e))
             | None \<Rightarrow> (gput bankName (bank\<lparr>gb_connected := True\<rparr>) banks,
                        Inr (gb_Address bank, gb_Name bank))))"

definition GetBankForClient ::
  "string list \<Rightarrow> string option \<Rightarrow> DefaultBankService \<Rightarrow> string
     \<Rightarrow> DefaultBankService \<times> (string + (string \<times> string))" where
  "GetBankForClient order dial_error banks clientName =
     (case getBankNameForClient order banks clientName of
        Inl e \<Rightarrow> (banks, Inl e)
      | Inr bankName \<Rightarrow> connect_bank dial_error banks bankName)"

definition GetBankClient ::
  "string list \<Rightarrow> string option \<Rightarrow> DefaultBankService \<Rightarrow> string
     \<Rightarrow> DefaultBankService \<times> (string + string)" where
  "GetBankClient order dial_error banks clientName =
     (case getBankNameForClient order banks clientName of
        Inl e \<Rightarrow> (banks, Inl e)
      | Inr bankName \<Rightarrow>
          (case connect_bank dial_error banks bankName of
             (banks', Inl e) \<Rightarrow> (banks', Inl e)
           | (banks', Inr (address, _)) \<Rightarrow> (banks', Inr address)))"

definition GetAccountNumber ::
  "string list \<Rightarrow> DefaultBankService \<Rightarrow> string \<Rightarrow> string + string" where
  "GetAccountNumber order banks clientName =
     (case getBankNameForClient order banks clientName of
        Inl e \<Rightarrow> Inl e
      | Inr bankName \<Rightarrow>
          (case map_of banks bankName of
             None \<Rightarrow> Inl (''bank '' @ bankName @ '' not found'')
           | Some bank \<Rightarrow>
               (case map_of (gb_Clients bank) clientName of
                  None \<Rightarrow> Inl (''account not found for client '' @ clientName)
                | Some account \<Rightarrow> Inr account)))"

subsection \<open>Remote calls\<close>

text \<open>
  What happens to one call: it is executed and answered; it is not executed; it is executed but
  the answer is lost; or it is executed only after the gateway has dealt with the error it saw. The
  string is the text of the error.
\<close>

datatype fate = Delivered | Unreached string | ReplyLost string | Late string

type_synonym servers = "(string, BankServer) gomap"

type_synonym 'r bank_handler = "BankServer \<Rightarrow> (BankServer \<times> 'r) option"

text \<open>\<open>down\<close> is the text of the error when no process listens at the address.\<close>

definition execute_call ::
  "string \<Rightarrow> 'r bank_handler \<Rightarrow> string \<Rightarrow> servers \<Rightarrow> servers \<times> (string + 'r)" where
  "execute_call down h address servers =
     (case map_of servers address of
        None \<Rightarrow> (servers, Inl down)
      | Some b \<Rightarrow>
          (case h b of
             None \<Rightarrow> ([], Inl down)
           | Some (b', r) \<Rightarrow> (gput address b' servers, Inr r)))"

definition bank_rpc ::
  "string \<Rightarrow> fate \<Rightarrow> 'r bank_handler \<Rightarrow> string \<Rightarrow> servers \<Rightarrow> servers \<times> (string + 'r)" where
  "bank_rpc down fate h address servers =
     (case fate of
        Delivered \<Rightarrow> execute_call down h address servers
      | Unreached e \<Rightarrow> (servers, Inl e)
      | ReplyLost e \<Rightarrow> (fst (execute_call down h address servers), Inl e)
      | Late e \<Rightarrow> (servers, Inl e))"

text \<open>The late execution of a call, whose answer nobody waits for.\<close>

definition late_call :: "string \<Rightarrow> fate \<Rightarrow> 'r bank_handler \<Rightarrow> string \<Rightarrow> servers \<Rightarrow> servers" where
  "late_call down fate h address servers =
     (case fate of Late _ \<Rightarrow> fst (execute_call down h address servers) | _ \<Rightarrow> servers)"

subsection \<open>GrpcBankClient\<close>

text \<open>The pair (bool, error) that each of the five wrappers returns.\<close>

definition grpc_result :: "string + TwoPhaseResponse \<Rightarrow> bool \<times> string option" where
  "grpc_result x =
     (case x of
        Inl e \<Rightarrow> (False, Some e)
      | Inr resp \<Rightarrow>
          if \<not> tpr_Success resp then (False, Some (tpr_Message resp)) else (tpr_Success resp, None))"

definition two_phase_request :: "string \<Rightarrow> string \<Rightarrow> f32 \<Rightarrow> TwoPhaseRequest" where
  "two_phase_request txID clientName amount =
     \<lparr>tp_TransactionId = txID, tp_ClientName = clientName, tp_Amount = amount\<rparr>"

text \<open>An abort request carries the id only.\<close>

definition abort_request :: "string \<Rightarrow> TwoPhaseRequest" where
  "abort_request txID = \<lparr>tp_TransactionId = txID, tp_ClientName = '''', tp_Amount = 0\<rparr>"

definition grpc_call ::
  "(BankServer \<Rightarrow> TwoPhaseRequest \<Rightarrow> (BankServer \<times> TwoPhaseResponse) option) \<Rightarrow> TwoPhaseRequest
     \<Rightarrow> string \<Rightarrow> fate \<Rightarrow> string \<Rightarrow> servers \<Rightarrow> servers \<times> (bool \<times> string option)" where
  "grpc_call method req down fate address servers =
     (case bank_rpc down fate (\<lambda>b. method b req) address servers of
        (servers', x) \<Rightarrow> (servers', grpc_result x))"

text \<open>No wrapper returns \<open>(false, nil)\<close>, the value on which the callers would panic.\<close>

lemma grpc_call_error:
  "grpc_call m req down fate a sv = (sv', ok, err) \<Longrightarrow> ok \<longleftrightarrow> err = None"
  by (auto simp: grpc_call_def grpc_result_def split: prod.splits sum.splits if_splits)

subsection \<open>The older connector (banking/connector.go)\<close>

text \<open>A connector maps bank names to the addresses of its clients.\<close>

definition NewBankConnector :: "(string, string) gomap" where
  "NewBankConnector = []"

text \<open>A client is created whether or not the connection succeeds.\<close>

definition ConnectToBank :: "(string, string) gomap \<Rightarrow> string \<Rightarrow> string \<Rightarrow> (string, string) gomap" where
  "ConnectToBank banks bankName address = gput bankName address banks"

definition GetBank :: "(string, string) gomap \<Rightarrow> string \<Rightarrow> string option" where
  "GetBank banks bankName = map_of banks bankName"

definition TestBankConnections :: "(string \<Rightarrow> string option) \<Rightarrow> (string, string option) gomap" where
  "TestBankConnections dial =
     [(''BankA'', dial ''localhost:50051''), (''BankB'', dial ''localhost:50052'')]"

end
