(* ===== verification/Strife_Auth.thy ===== *)
theory Strife_Auth
  imports Strife_Store
begin

text \<open>
  Authentication, authorization and the server's interceptors (P3-Strife/gateway/auth and
  gateway/interceptors). A handler takes the context, the request and the state and returns the new
  state with the pair of Go's results, or \<open>None\<close> in the place of the pair when it panics. The lines
  of the logging interceptor are in \<open>Strife_Logs\<close>.
\<close>

subsection \<open>The authentication service (auth/auth.go)\<close>

record AuthService =
  as_userStorage :: UserStorage
  as_authenticatedUsers :: "(string, bool) gomap"

definition NewAuthService :: "UserStorage \<Rightarrow> AuthService" where
  "NewAuthService storage = \<lparr>as_userStorage = storage, as_authenticatedUsers = []\<rparr>"

definition Authenticate :: "AuthService \<Rightarrow> AuthRequest \<Rightarrow> AuthService \<times> AuthResponse" where
  "Authenticate s req =
     (case GetUser (as_userStorage s) (aq_Username req) of
        None \<Rightarrow> (s, \<lparr>ar_Success = False, ar_Message = ''Invalid credentials'', ar_Roles = []\<rparr>)
      | Some user \<Rightarrow>
          if us_Password user \<noteq> aq_Password req
          then (s, \<lparr>ar_Success = False, ar_Message = ''Invalid credentials'', ar_Roles = []\<rparr>)
          else
            (s\<lparr>as_authenticatedUsers := gput (aq_Username req) True (as_authenticatedUsers s)\<rparr>,
             \<lparr>ar_Success = True, ar_Message = ''Authentication successful'', ar_Roles = us_Roles user\<rparr>))"

definition IsAuthenticated :: "AuthService \<Rightarrow> string \<Rightarrow> bool" where
  "IsAuthenticated s username = gget False (as_authenticatedUsers s) username"

definition HasRole :: "AuthService \<Rightarrow> string \<Rightarrow> string list \<Rightarrow> bool" where
  "HasRole s username requiredRoles =
     (case GetUser (as_userStorage s) username of
        None \<Rightarrow> False
      | Some user \<Rightarrow> list_ex (\<lambda>r. list_ex (\<lambda>u. u = r) (us_Roles user)) requiredRoles)"

definition rpc_err :: "code \<Rightarrow> string \<Rightarrow> rpc_error" where
  "rpc_err c m = \<lparr>err_code = c, err_message = m\<rparr>"

definition ExtractUsername :: "ctx \<Rightarrow> string rpc" where
  "ExtractUsername c =
     (case ctx_metadata c of
        None \<Rightarrow> Inl (rpc_err Unauthenticated ''missing context metadata'')
      | Some md \<Rightarrow>
          (case md_first md ''username'' of
             None \<Rightarrow> Inl (rpc_err Unauthenticated ''username required'')
           | Some u \<Rightarrow> Inr u))"

subsection \<open>Roles of the methods (auth/models.go)\<close>

definition MethodPermissions :: "(string, string list) gomap" where
  "MethodPermissions =
     [(''/proto.PaymentGateway/MakePayment'', [''user'', ''admin'']),
      (''/proto.PaymentGateway/GetPaymentHistory'', [''admin'']),
      (''/proto.PaymentGateway/GetBalance'', [''user'', ''admin''])]"

definition PublicMethods :: "(string, bool) gomap" where
  "PublicMethods = [(''/proto.PaymentGateway/Authenticate'', True)]"

subsection \<open>Interceptors\<close>

type_synonym 'r go_result = "'r option \<times> rpc_error option"

type_synonym ('w, 'q, 'r) handler = "ctx \<Rightarrow> 'q \<Rightarrow> 'w \<Rightarrow> 'w \<times> 'r go_result option"

text \<open>An interceptor gets the full name of the method and the next handler.\<close>

type_synonym ('w, 'q, 'r) interceptor = "string \<Rightarrow> ('w, 'q, 'r) handler \<Rightarrow> ('w, 'q, 'r) handler"

definition fails :: "'w \<Rightarrow> code \<Rightarrow> string \<Rightarrow> 'w \<times> 'r go_result option" where
  "fails w c m = (w, Some (None, Some (rpc_err c m)))"

text \<open>The test whether the user is authenticated is commented out in the source.\<close>

definition AuthInterceptor :: "('w \<Rightarrow> AuthService) \<Rightarrow> ('w, 'q, 'r) interceptor" where
  "AuthInterceptor authService method handler c req w =
     (if gget False PublicMethods method then handler c req w
      else
        (case ctx_metadata c of
           None \<Rightarrow> fails w Unauthenticated ''missing context metadata''
         | Some md \<Rightarrow>
             (case md_first md ''username'' of
                None \<Rightarrow> fails w Unauthenticated ''username required''
              | Some username \<Rightarrow>
                  (case map_of MethodPermissions method of
                     None \<Rightarrow> handler c req w
                   | Some requiredRoles \<Rightarrow>
                       if \<not> HasRole (authService w) username requiredRoles
                       then fails w PermissionDenied ''insufficient permissions''
                       else handler c req w))))"

text \<open>
  The recovered panic leaves the results at their zero values: the error that the deferred
  function builds is discarded.
\<close>

definition RecoveryInterceptor :: "('w, 'q, 'r) interceptor" where
  "RecoveryInterceptor method handler c req w =
     (case handler c req w of
        (w', None) \<Rightarrow> (w', Some (None, None))
      | (w', Some res) \<Rightarrow> (w', Some res))"

definition LoggingInterceptor :: "('w, 'q, 'r) interceptor" where
  "LoggingInterceptor method handler c req w = handler c req w"

definition ChainInterceptors :: "('w, 'q, 'r) interceptor list \<Rightarrow> ('w, 'q, 'r) interceptor" where
  "ChainInterceptors interceptors method handler =
     foldr (\<lambda>current next. current method next) interceptors handler"

definition retryable :: "code \<Rightarrow> bool" where
  "retryable c \<longleftrightarrow> c = DeadlineExceeded \<or> c = Unavailable"

text \<open>\<open>n\<close> attempts are left. The waiting between the attempts is left out.\<close>

fun retry_loop :: "nat \<Rightarrow> ('w, 'q, 'r) handler \<Rightarrow> ('w, 'q, 'r) handler" where
  "retry_loop n handler c req w =
     (case handler c req w of
        (w', None) \<Rightarrow> (w', None)
      | (w', Some (resp, None)) \<Rightarrow> (w', Some (resp, None))
      | (w', Some (resp, Some e)) \<Rightarrow>
          if \<not> retryable (err_code e) then (w', Some (resp, Some e))
          else (case n of 0 \<Rightarrow> (w', Some (resp, Some e))
                | Suc 0 \<Rightarrow> (w', Some (resp, Some e))
                | Suc (Suc m) \<Rightarrow> retry_loop (Suc m) handler c req w'))"

declare retry_loop.simps [simp del]

text \<open>The gateway defines this interceptor but does not put it into its chain.\<close>

definition RetryInterceptor :: "('w, 'q, 'r) interceptor" where
  "RetryInterceptor method handler c req w =
     (if method = ''/proto.PaymentGateway/MakePayment'' then retry_loop 3 handler c req w
      else handler c req w)"

text \<open>The chain that RunServer installs.\<close>

definition server_chain :: "('w \<Rightarrow> AuthService) \<Rightarrow> ('w, 'q, 'r) interceptor" where
  "server_chain authService =
     ChainInterceptors [RecoveryInterceptor, LoggingInterceptor, AuthInterceptor authService]"

end
