(* ===== verification/Strife_Payment.thy ===== *)
theory Strife_Payment
  imports Strife_Banking Strife_Auth
begin

text \<open>
  The payment processor of the gateway (P3-Strife/gateway/payment/processor.go, balance.go): simple
  payments and the coordinator of the two-phase commit, over the state of the gateway and the
  bank servers. A payment runs as one atomic step; what its remote calls, timers and map
  iterations do is described by a \<open>payment_env\<close>.

  Where the coordinator formats the error of a participant that declined, the error is present
  (\<open>grpc_call_error\<close>), so \<open>the\<close> never meets \<open>None\<close>.
\<close>

subsection \<open>State and environment\<close>

record gateway =
  gw_balances :: BalanceStorage
  gw_txs :: TransactionManager
  gw_banking :: DefaultBankService
  gw_auth :: AuthService
  gw_usesTwoPhase :: bool
  gw_paymentTimeout :: int
  gw_servers :: servers

datatype phase = SimplePhase | PreparePhase | CommitPhase | AbortPhase

datatype role = SenderRole | ReceiverRole

text \<open>
  For one remote call: the order in which the loop over the banks runs, the outcome of the
  dial, the fate of the call, and the error text when no bank process is listening.
\<close>

record call_env =
  ce_order :: "string list"
  ce_dial :: "string option"
  ce_fate :: fate
  ce_down :: string

text \<open>
  For one payment: its calls, which goroutine of a phase reaches its bank first, whether a phase
  leaves its select through the timeout, the time, and the outcomes of saving the balances.
\<close>

record payment_env =
  pe_call :: "phase \<Rightarrow> role \<Rightarrow> call_env"
  pe_receiver_first :: "phase \<Rightarrow> bool"
  pe_timed_out :: "phase \<Rightarrow> bool"
  pe_now :: int
  pe_save_order :: "string list"
  pe_save_error :: "nat \<Rightarrow> string option"

definition find_bank ::
  "call_env \<Rightarrow> string \<Rightarrow> gateway \<Rightarrow> gateway \<times> (string + (string \<times> string))" where
  "find_bank e client w =
     (case GetBankForClient (ce_order e) (ce_dial e) (gw_banking w) client of
        (banks, r) \<Rightarrow> (w\<lparr>gw_banking := banks\<rparr>, r))"

subsection \<open>Local balances\<close>

text \<open>Saving is tried three times.\<close>

definition save_balances :: "payment_env \<Rightarrow> gateway \<Rightarrow> gateway \<times> string option" where
  "save_balances env w =
     (let attempt = (\<lambda>n st. case st of
            (w, Some _) \<Rightarrow>
              (case SaveBalances (pe_save_order env) (pe_save_error env n) (gw_balances w) of
                 (b, r) \<Rightarrow> (w\<lparr>gw_balances := b\<rparr>, r))
          | (w, None) \<Rightarrow> (w, None))
      in attempt 2 (attempt 1 (attempt 0 (w, Some ''''))))"

definition updateTwoPhaseBalances ::
  "payment_env \<Rightarrow> string \<Rightarrow> string \<Rightarrow> f32 \<Rightarrow> gateway \<Rightarrow> gateway \<times> string option" where
  "updateTwoPhaseBalances env sender receiver amount w =
     (case StorageGetBalance (gw_balances w) sender of
        None \<Rightarrow> (w, Some ''sender balance not found'')
      | Some sb \<Rightarrow>
       (case UpdateBalance (gw_balances w) sender (sb\<lparr>bal_Amount := bal_Amount sb - amount\<rparr>) of
          Inl e \<Rightarrow> (w, Some e)
        | Inr b1 \<Rightarrow>
            let w1 = w\<lparr>gw_balances := b1\<rparr>
            in case StorageGetBalance (gw_balances w1) receiver of
                 None \<Rightarrow> (w1, Some ''receiver balance not found'')
               | Some rb \<Rightarrow>
                  (case UpdateBalance (gw_balances w1) receiver
                          (rb\<lparr>bal_Amount := bal_Amount rb + amount\<rparr>) of
                     Inl e \<Rightarrow> (w1, Some e)
                   | Inr b2 \<Rightarrow> save_balances env (w1\<lparr>gw_balances := b2\<rparr>))))"

subsection \<open>Abort\<close>

definition abort_at ::
  "payment_env \<Rightarrow> role \<Rightarrow> string \<Rightarrow> string \<Rightarrow> gateway \<Rightarrow> gateway" where
  "abort_at env role client txID w =
     (let e = pe_call env AbortPhase role
      in case find_bank e client w of
           (w1, Inl _) \<Rightarrow> w1
         | (w1, Inr (address, _)) \<Rightarrow>
             w1\<lparr>gw_servers := fst (grpc_call BankAbort (abort_request txID) (ce_down e) (ce_fate e)
                                  address (gw_servers w1))\<rparr>)"

definition abortTransaction ::
  "payment_env \<Rightarrow> TwoPhaseTransactionRecord \<Rightarrow> gateway \<Rightarrow> TwoPhaseTransactionRecord \<times> gateway" where
  "abortTransaction env tx w =
     (let w1 = abort_at env SenderRole (tx_Sender tx) (tx_ID tx) w;
          w2 = abort_at env ReceiverRole (tx_Receiver tx) (tx_ID tx) w1
      in (tx\<lparr>tx_State := TransactionAborted\<rparr>, w2))"

subsection \<open>The two calls of a phase\<close>

type_synonym participant_method =
  "BankServer \<Rightarrow> TwoPhaseRequest \<Rightarrow> (BankServer \<times> TwoPhaseResponse) option"

text \<open>A call as a phase makes it: the method, the request, its environment and the address.\<close>

record pending_call =
  pc_method :: participant_method
  pc_request :: TwoPhaseRequest
  pc_env :: call_env
  pc_address :: string

definition run_call :: "pending_call \<Rightarrow> servers \<Rightarrow> servers \<times> (bool \<times> string option)" where
  "run_call c sv =
     grpc_call (pc_method c) (pc_request c) (ce_down (pc_env c)) (ce_fate (pc_env c)) (pc_address c) sv"

definition run_late :: "pending_call \<Rightarrow> servers \<Rightarrow> servers" where
  "run_late c sv =
     late_call (ce_down (pc_env c)) (ce_fate (pc_env c)) (\<lambda>b. pc_method c b (pc_request c))
       (pc_address c) sv"

text \<open>The results of the sender's and of the receiver's goroutine.\<close>

definition run_both ::
  "bool \<Rightarrow> pending_call \<Rightarrow> pending_call \<Rightarrow> servers
     \<Rightarrow> servers \<times> (bool \<times> string option) \<times> (bool \<times> string option)" where
  "run_both receiver_first cs cr sv =
     (if receiver_first
      then (case run_call cr sv of (sv1, rr) \<Rightarrow>
             (case run_call cs sv1 of (sv2, rs) \<Rightarrow> (sv2, rs, rr)))
      else (case run_call cs sv of (sv1, rs) \<Rightarrow>
             (case run_call cr sv1 of (sv2, rr) \<Rightarrow> (sv2, rs, rr))))"

text \<open>
  The error the phase ends with: the sender's replaces the receiver's, whichever goroutine is
  the first.
\<close>

definition phase_error ::
  "string \<Rightarrow> string \<Rightarrow> bool \<times> string option \<Rightarrow> bool \<times> string option \<Rightarrow> string option" where
  "phase_error sender_text receiver_text rs rr =
     (if snd rs \<noteq> None \<or> \<not> fst rs then Some (sender_text @ the (snd rs))
      else if snd rr \<noteq> None \<or> \<not> fst rr then Some (receiver_text @ the (snd rr))
      else None)"

text \<open>Both goroutines write their vote under the name of their bank; one key for one bank.\<close>

definition record_votes ::
  "bool \<Rightarrow> string \<Rightarrow> bool \<Rightarrow> string \<Rightarrow> bool \<Rightarrow> (string, bool) gomap \<Rightarrow> (string, bool) gomap" where
  "record_votes receiver_first sname svote rname rvote votes =
     (if receiver_first then gput sname svote (gput rname rvote votes)
      else gput rname rvote (gput sname svote votes))"

subsection \<open>The phases\<close>

text \<open>
  The outcome of a phase: whether it succeeded, the message, the transaction, the state, and the calls
  that reach their bank late.
\<close>

record phase_out =
  po_ok :: bool
  po_msg :: string
  po_tx :: TwoPhaseTransactionRecord
  po_w :: gateway
  po_late :: "servers \<Rightarrow> servers"

definition phase_call ::
  "payment_env \<Rightarrow> phase \<Rightarrow> role \<Rightarrow> participant_method \<Rightarrow> string \<Rightarrow> TwoPhaseTransactionRecord
     \<Rightarrow> string \<Rightarrow> pending_call" where
  "phase_call env ph role method client tx address =
     \<lparr>pc_method = method, pc_request = two_phase_request (tx_ID tx) client (tx_Amount tx),
      pc_env = pe_call env ph role, pc_address = address\<rparr>"

definition preparePhase ::
  "payment_env \<Rightarrow> TwoPhaseTransactionRecord \<Rightarrow> gateway \<Rightarrow> phase_out" where
  "preparePhase env tx w =
     (let fail = (\<lambda>tx w late msg. case abortTransaction env tx w of
            (tx', w') \<Rightarrow> \<lparr>po_ok = False, po_msg = msg, po_tx = tx', po_w = w', po_late = late\<rparr>)
      in case find_bank (pe_call env PreparePhase SenderRole) (tx_Sender tx) w of
           (w1, Inl e) \<Rightarrow> fail tx w1 id (''Failed to determine sender's bank: '' @ e)
         | (w1, Inr (sa, sname)) \<Rightarrow>
        (case find_bank (pe_call env PreparePhase ReceiverRole) (tx_Receiver tx) w1 of
           (w2, Inl e) \<Rightarrow> fail tx w2 id (''Failed to determine receiver's bank: '' @ e)
         | (w2, Inr (ra, rname)) \<Rightarrow>
             let cs = phase_call env PreparePhase SenderRole PrepareDebit (tx_Sender tx) tx sa;
                 cr = phase_call env PreparePhase ReceiverRole PrepareCredit (tx_Receiver tx) tx ra;
                 rf = pe_receiver_first env PreparePhase;
                 late = run_late cr \<circ> run_late cs
             in case run_both rf cs cr (gw_servers w2) of (sv, rs, rr) \<Rightarrow>
                  let w3 = w2\<lparr>gw_servers := sv\<rparr>;
                      tx1 = tx\<lparr>tx_State := TransactionPreparing,
                               tx_PrepareVotes := record_votes rf sname (fst rs) rname (fst rr)
                                                    (tx_PrepareVotes tx)\<rparr>
                  in if pe_timed_out env PreparePhase
                     then fail tx1 w3 late ''Transaction timed out during prepare phase''
                     else
                       (case phase_error ''sender bank declined: '' ''receiver bank declined: '' rs rr of
                          Some e \<Rightarrow> fail tx1 w3 late (''Prepare phase failed: '' @ e)
                        | None \<Rightarrow>
                            if \<not> (gget False (tx_PrepareVotes tx1) sname
                                 \<and> gget False (tx_PrepareVotes tx1) rname)
                            then fail tx1 w3 late ''One or more banks declined the transaction''
                            else \<lparr>po_ok = True, po_msg = ''Prepare phase successful'',
                                  po_tx = tx1\<lparr>tx_State := TransactionPrepared\<rparr>, po_w = w3,
                                  po_late = late\<rparr>)))"

text \<open>
  A commit that a bank refuses is only logged: no abort, no retry, and the transaction keeps the
  state committing.
\<close>

definition commitPhase ::
  "payment_env \<Rightarrow> TwoPhaseTransactionRecord \<Rightarrow> gateway \<Rightarrow> phase_out" where
  "commitPhase env tx w =
     (let fail = (\<lambda>tx w late msg. case abortTransaction env tx w of
            (tx', w') \<Rightarrow> \<lparr>po_ok = False, po_msg = msg, po_tx = tx', po_w = w', po_late = late\<rparr>)
      in case find_bank (pe_call env CommitPhase SenderRole) (tx_Sender tx) w of
           (w1, Inl e) \<Rightarrow> fail tx w1 id (''Failed to determine sender's bank during commit: '' @ e)
         | (w1, Inr (sa, sname)) \<Rightarrow>
        (case find_bank (pe_call env CommitPhase ReceiverRole) (tx_Receiver tx) w1 of
           (w2, Inl e) \<Rightarrow> fail tx w2 id (''Failed to determine receiver's bank during commit: '' @ e)
         | (w2, Inr (ra, rname)) \<Rightarrow>
             let cs = phase_call env CommitPhase SenderRole CommitDebit (tx_Sender tx) tx sa;
                 cr = phase_call env CommitPhase ReceiverRole CommitCredit (tx_Receiver tx) tx ra;
                 rf = pe_receiver_first env CommitPhase;
                 late = run_late cr \<circ> run_late cs
             in case run_both rf cs cr (gw_servers w2) of (sv, rs, rr) \<Rightarrow>
                  let w3 = w2\<lparr>gw_servers := sv\<rparr>;
                      tx1 = tx\<lparr>tx_State := TransactionCommitting,
                               tx_CommitVotes := record_votes rf sname (fst rs) rname (fst rr)
                                                   (tx_CommitVotes tx)\<rparr>
                  in if pe_timed_out env CommitPhase
                     then fail tx1 w3 late ''Transaction timed out during commit phase''
                     else
                       (case phase_error ''sender bank commit failed: ''
                               ''receiver bank commit failed: '' rs rr of
                          Some e \<Rightarrow> \<lparr>po_ok = False, po_msg = ''Commit phase failed: '' @ e,
                                     po_tx = tx1, po_w = w3, po_late = late\<rparr>
                        | None \<Rightarrow>
                            if \<not> (gget False (tx_CommitVotes tx1) sname
                                 \<and> gget False (tx_CommitVotes tx1) rname)
                            then \<lparr>po_ok = False,
                                  po_msg = ''One or more banks failed to commit the transaction'',
                                  po_tx = tx1, po_w = w3, po_late = late\<rparr>
                            else
                              \<lparr>po_ok = True, po_msg = ''Payment successfully processed'',
                               po_tx = tx1\<lparr>tx_State := TransactionCommitted\<rparr>,
                               po_w = fst (updateTwoPhaseBalances env (tx_Sender tx) (tx_Receiver tx)
                                             (tx_Amount tx) w3),
                               po_late = late\<rparr>)))"

definition runTwoPhaseCommit ::
  "payment_env \<Rightarrow> TwoPhaseTransactionRecord \<Rightarrow> gateway \<Rightarrow> phase_out" where
  "runTwoPhaseCommit env tx w =
     (let p = preparePhase env tx w
      in if \<not> po_ok p then p
         else
           let c = commitPhase env (po_tx p) (po_w p)
           in if \<not> po_ok c then c\<lparr>po_late := po_late c \<circ> po_late p\<rparr>
              else c\<lparr>po_msg := ''Payment processed successfully'', po_late := po_late c \<circ> po_late p\<rparr>)"

subsection \<open>ProcessPayment\<close>

definition new_two_phase ::
  "string \<Rightarrow> PaymentDetails \<Rightarrow> payment_env \<Rightarrow> gateway \<Rightarrow> TwoPhaseTransactionRecord" where
  "new_two_phase transactionID req env w =
     \<lparr>tx_ID = transactionID, tx_Sender = pd_ClientName req, tx_Receiver = pd_ReceiverName req,
      tx_Amount = pd_Amount req, tx_State = TransactionPreparing, tx_PrepareVotes = [],
      tx_CommitVotes = [], tx_Timestamp = pe_now env, tx_Timeout = gw_paymentTimeout w\<rparr>"

definition in_progress :: "TransactionManager \<Rightarrow> string \<Rightarrow> bool" where
  "in_progress tm i =
     (if HasActiveTransaction tm i
      then (case GetTransaction tm i of
              Some (TwoPhaseTx tx) \<Rightarrow>
                tx_State tx = TransactionPreparing \<or> tx_State tx = TransactionCommitting
            | _ \<Rightarrow> False)
      else False)"

text \<open>
  The record in the map and the one the phases work on are the same object; it is written back
  here, or removed when the payment failed. Late calls take effect after that.
\<close>

definition processTwoPhasePayment ::
  "payment_env \<Rightarrow> PaymentDetails \<Rightarrow> string \<Rightarrow> Balance \<Rightarrow> gateway \<Rightarrow> gateway \<times> PaymentResponse" where
  "processTwoPhasePayment env req transactionID balance w =
     (if pd_ReceiverName req = ''''
      then (w, payment_response False ''Receiver name is required for two-phase commit payment'')
      else if in_progress (gw_txs w) transactionID
      then (w, payment_response False ''Transaction already in progress'')
      else
        let transaction = new_two_phase transactionID req env w;
            w1 = w\<lparr>gw_txs := StoreTwoPhaseTransaction (gw_txs w) transactionID transaction\<rparr>;
            r = runTwoPhaseCommit env transaction w1;
            w2 = (po_w r)\<lparr>gw_txs := (if \<not> po_ok r then CleanupTransaction (gw_txs (po_w r)) transactionID
                    else StoreTwoPhaseTransaction (gw_txs (po_w r)) transactionID (po_tx r))\<rparr>
        in (w2\<lparr>gw_servers := po_late r (gw_servers w2)\<rparr>,
            \<lparr>resp_Success = po_ok r, resp_Message = po_msg r, resp_TransactionId = transactionID,
             resp_Amount = pd_Amount req, resp_Currency = bal_Currency balance\<rparr>))"

text \<open>
  The bank's answer to a simple payment; only the fields Success and Message are used. The error of a late call is
  answered at once and the payment makes no other call, so the bank executes it after everything else.
\<close>

definition simple_bank_call ::
  "call_env \<Rightarrow> PaymentRequest \<Rightarrow> string \<Rightarrow> gateway \<Rightarrow> gateway \<times> (string + PaymentResponse)" where
  "simple_bank_call e req address w =
     (let h = (\<lambda>b. Some (BankProcessPayment b req))
      in case bank_rpc (ce_down e) (ce_fate e) h address (gw_servers w) of
           (sv, x) \<Rightarrow> (w\<lparr>gw_servers := late_call (ce_down e) (ce_fate e) h address sv\<rparr>, x))"

definition processSimplePayment ::
  "payment_env \<Rightarrow> PaymentDetails \<Rightarrow> string \<Rightarrow> Balance \<Rightarrow> gateway \<Rightarrow> gateway \<times> PaymentResponse" where
  "processSimplePayment env req transactionID balance w =
     (let e = pe_call env SimplePhase SenderRole
      in case GetBankClient (ce_order e) (ce_dial e) (gw_banking w) (pd_ClientName req) of
           (banks, Inl _) \<Rightarrow> (w\<lparr>gw_banking := banks\<rparr>, payment_response False ''Bank not available'')
         | (banks, Inr address) \<Rightarrow>
             let w1 = w\<lparr>gw_banking := banks\<rparr>;
                 e' = pe_call env SimplePhase ReceiverRole
             in case GetAccountNumber (ce_order e') (gw_banking w1) (pd_ClientName req) of
                  Inl err \<Rightarrow> (w1, payment_response False (''Account lookup error: '' @ err))
                | Inr account \<Rightarrow>
                    (case simple_bank_call e
                            \<lparr>pr_AccountNumber = account, pr_Amount = pd_Amount req,
                             pr_TransactionId = transactionID\<rparr> address w1 of
                       (w2, Inl err) \<Rightarrow>
                         (w2, payment_response False (''Payment processing error: '' @ err))
                     | (w2, Inr resp) \<Rightarrow>
                         let paymentResponse = payment_response (resp_Success resp) (resp_Message resp)
                         in if \<not> resp_Success resp then (w2, paymentResponse)
                            else
                              let balance' = balance\<lparr>bal_Amount := bal_Amount balance - pd_Amount req\<rparr>;
                                  w3 = (case UpdateBalance (gw_balances w2) (pd_ClientName req) balance' of
                                          Inl _ \<Rightarrow> w2
                                        | Inr b \<Rightarrow>
                                            w2\<lparr>gw_balances :=
                                               fst (SaveBalances (pe_save_order env) (pe_save_error env 0) b)\<rparr>);
                                  w4 = w3\<lparr>gw_txs := StoreSimpleTransaction (gw_txs w3)
                                         \<lparr>st_TransactionID = transactionID,
                                          st_ClientName = pd_ClientName req, st_Amount = pd_Amount req,
                                          st_ProcessedAt = pe_now env, st_Result = paymentResponse\<rparr>\<rparr>
                              in (w4, paymentResponse)))"

definition extractTransactionID :: "ctx \<Rightarrow> string rpc" where
  "extractTransactionID c =
     (case ctx_metadata c of
        None \<Rightarrow> Inl (rpc_err InvalidArgument ''missing context metadata'')
      | Some md \<Rightarrow>
          (case md_first md ''transaction_id'' of
             None \<Rightarrow> Inl (rpc_err InvalidArgument ''transaction_id required for idempotency'')
           | Some i \<Rightarrow> Inr i))"

text \<open>The answer kept for a transaction, when it settles the request.\<close>

definition cached_result ::
  "bool \<Rightarrow> PaymentDetails \<Rightarrow> string \<Rightarrow> tx_record option \<Rightarrow> PaymentResponse option" where
  "cached_result usesTwoPhase req transactionID record =
     (case record of
        None \<Rightarrow> None
      | Some (TwoPhaseTx tx) \<Rightarrow>
          if \<not> usesTwoPhase then None
          else if tx_State tx = TransactionCommitted
          then Some \<lparr>resp_Success = True, resp_Message = ''Transaction already processed successfully'',
                     resp_TransactionId = transactionID, resp_Amount = pd_Amount req,
                     resp_Currency = ''''\<rparr>
          else if tx_State tx = TransactionAborted
          then Some \<lparr>resp_Success = False, resp_Message = ''Transaction was previously aborted'',
                     resp_TransactionId = transactionID, resp_Amount = 0, resp_Currency = ''''\<rparr>
          else None
      | Some (SimpleTx r) \<Rightarrow> if usesTwoPhase then None else Some (st_Result r))"

definition ProcessPayment ::
  "payment_env \<Rightarrow> ctx \<Rightarrow> PaymentDetails \<Rightarrow> gateway \<Rightarrow> gateway \<times> PaymentResponse rpc" where
  "ProcessPayment env c req w =
     (case ExtractUsername c of
        Inl e \<Rightarrow> (w, Inl e)
      | Inr username \<Rightarrow>
          if username \<noteq> pd_ClientName req
          then (w, Inr (payment_response False ''You can only make payments for your own account''))
          else
            (case extractTransactionID c of
               Inl e \<Rightarrow> (w, Inl e)
             | Inr transactionID \<Rightarrow>
                 (case cached_result (gw_usesTwoPhase w) req transactionID
                         (GetTransaction (gw_txs w) transactionID) of
                    Some resp \<Rightarrow> (w, Inr resp)
                  | None \<Rightarrow>
                      (case StorageGetBalance (gw_balances w) (pd_ClientName req) of
                         None \<Rightarrow> (w, Inr (payment_response False ''No balance information for client''))
                       | Some balance \<Rightarrow>
                           if bal_Amount balance < pd_Amount req
                           then (w, Inr (payment_response False ''Insufficient funds''))
                           else
                             (case (if gw_usesTwoPhase w \<and> pd_ReceiverName req \<noteq> ''''
                                    then processTwoPhasePayment env req transactionID balance w
                                    else processSimplePayment env req transactionID balance w) of
                                (w', resp) \<Rightarrow> (w', Inr resp))))))"

subsection \<open>Balance queries (payment/balance.go)\<close>

definition GetBalance :: "ctx \<Rightarrow> BalanceRequest \<Rightarrow> gateway \<Rightarrow> BalanceResponse rpc" where
  "GetBalance c req w =
     (case ExtractUsername c of
        Inl e \<Rightarrow> Inl e
      | Inr username \<Rightarrow>
          if username \<noteq> bq_ClientName req
          then Inl (rpc_err PermissionDenied ''cannot view balance for other clients'')
          else
            (case StorageGetBalance (gw_balances w) (bq_ClientName req) of
               None \<Rightarrow> Inl (rpc_err NotFound ''no balance information found for client'')
             | Some b \<Rightarrow> Inr \<lparr>br_Balance = bal_Amount b, br_Currency = bal_Currency b\<rparr>))"

end
