(* ===== verification/Strife_Payment_Laws.thy ===== *)
theory Strife_Payment_Laws
  imports Strife_Payment Strife_Bank_Laws
begin

text \<open>
  How the coordinator acts on the gateway and on the banks: prepare and abort calls are quiet
  (they change no balance), a call that is answered with success was executed exactly once, and
  a client's bank is found whatever order the loop over the banks has.
\<close>

named_theorems frame_simps "what the steps of a payment leave alone"

subsection \<open>Quiet calls\<close>

definition quiet :: "BankServer \<Rightarrow> BankServer \<Rightarrow> bool" where
  "quiet b b' \<longleftrightarrow> same_bank b b' \<and> balance_of b' = balance_of b"

definition quiet_servers :: "servers \<Rightarrow> servers \<Rightarrow> bool" where
  "quiet_servers sv sv' \<longleftrightarrow> (\<forall>a. rel_option quiet (map_of sv a) (map_of sv' a))"

definition quiet_method :: "participant_method \<Rightarrow> bool" where
  "quiet_method m \<longleftrightarrow> (\<forall>b req. \<exists>b' r. m b req = Some (b', r) \<and> quiet b b')"

lemma quiet_refl [simp]: "quiet b b"
  by (simp add: quiet_def)

lemma quiet_trans: "quiet a b \<Longrightarrow> quiet b c \<Longrightarrow> quiet a c"
  by (auto simp: quiet_def intro: same_bank_trans)

lemma quiet_servers_refl [simp]: "quiet_servers sv sv"
  by (simp add: quiet_servers_def option.rel_refl)

lemma quiet_servers_trans: "quiet_servers a b \<Longrightarrow> quiet_servers b c \<Longrightarrow> quiet_servers a c"
proof -
  assume ab: "quiet_servers a b" and bc: "quiet_servers b c"
  show "quiet_servers a c"
    unfolding quiet_servers_def
  proof
    fix x
    have "rel_option quiet (map_of a x) (map_of b x)" "rel_option quiet (map_of b x) (map_of c x)"
      using ab bc by (simp_all add: quiet_servers_def)
    then show "rel_option quiet (map_of a x) (map_of c x)"
      by (cases "map_of a x"; cases "map_of b x"; cases "map_of c x") (auto intro: quiet_trans)
  qed
qed

lemma PrepareDebit_quiet: "quiet_method PrepareDebit"
  unfolding quiet_method_def
proof (intro allI)
  fix b req
  show "\<exists>b' r. PrepareDebit b req = Some (b', r) \<and> quiet b b'"
    by (rule debit.prepare_cases [of b req]) (auto simp: quiet_def)
qed

lemma PrepareCredit_quiet: "quiet_method PrepareCredit"
  unfolding quiet_method_def
proof (intro allI)
  fix b req
  show "\<exists>b' r. PrepareCredit b req = Some (b', r) \<and> quiet b b'"
    by (rule credit.prepare_cases [of b req]) (auto simp: quiet_def)
qed

lemma BankAbort_quiet: "quiet_method BankAbort"
  unfolding quiet_method_def quiet_def
  by (auto simp: BankAbort_def bank_simps split: option.split)

lemma execute_call_quiet:
  assumes "quiet_method m"
  shows "quiet_servers sv (fst (execute_call down (\<lambda>b. m b req) a sv))"
proof (cases "map_of sv a")
  case None
  then show ?thesis by (simp add: execute_call_def)
next
  case (Some b)
  obtain b' r where "m b req = Some (b', r)" "quiet b b'"
    using assms unfolding quiet_method_def by blast
  with Some show ?thesis
    by (auto simp: execute_call_def quiet_servers_def option.rel_refl)
qed

lemma grpc_call_quiet:
  assumes "quiet_method m"
  shows "quiet_servers sv (fst (grpc_call m req down f a sv))"
  using execute_call_quiet [OF assms, of sv down req a]
  by (cases f) (auto simp: grpc_call_def bank_rpc_def split: prod.split)

lemma run_both_quiet:
  assumes "quiet_method (pc_method cs)" and "quiet_method (pc_method cr)"
  shows "quiet_servers sv (fst (run_both rf cs cr sv))"
proof -
  have call: "quiet_servers sv (fst (run_call c sv))" if "quiet_method (pc_method c)" for c sv
    unfolding run_call_def by (rule grpc_call_quiet [OF that])
  have two: "quiet_servers sv (fst (run_call d (fst (run_call c sv))))"
    if "quiet_method (pc_method c)" "quiet_method (pc_method d)" for c d
    by (rule quiet_servers_trans [OF call [OF that(1)] call [OF that(2)]])
  show ?thesis
    using two [OF assms] two [OF assms(2,1)]
    by (cases rf) (simp_all add: run_both_def split: prod.splits, metis fst_conv, metis fst_conv)
qed

lemma run_late_quiet:
  assumes "quiet_method (pc_method c)"
  shows "quiet_servers sv (run_late c sv)"
  using execute_call_quiet [OF assms]
  by (simp add: run_late_def late_call_def split: fate.split)

subsection \<open>Frames\<close>

text \<open>The banks of the gateway up to their connection flags.\<close>

definition bank_view :: "DefaultBankService \<Rightarrow> string \<Rightarrow> Bank option" where
  "bank_view banks n = map_option (\<lambda>b. b\<lparr>gb_connected := False\<rparr>) (map_of banks n)"

text \<open>Only connection flags and the bank servers changed, the latter as \<open>R\<close> allows.\<close>

definition frame :: "(servers \<Rightarrow> servers \<Rightarrow> bool) \<Rightarrow> gateway \<Rightarrow> gateway \<Rightarrow> bool" where
  "frame R w w' \<longleftrightarrow>
     gw_balances w' = gw_balances w \<and> gw_txs w' = gw_txs w \<and> gw_auth w' = gw_auth w
     \<and> gw_usesTwoPhase w' = gw_usesTwoPhase w \<and> gw_paymentTimeout w' = gw_paymentTimeout w
     \<and> bank_view (gw_banking w') = bank_view (gw_banking w) \<and> R (gw_servers w) (gw_servers w')"

lemma frame_refl: "R (gw_servers w) (gw_servers w) \<Longrightarrow> frame R w w"
  by (simp add: frame_def)

lemma frame_trans:
  "frame quiet_servers u v \<Longrightarrow> frame quiet_servers v w \<Longrightarrow> frame quiet_servers u w"
  by (auto simp: frame_def intro: quiet_servers_trans)

lemma frame_eq_trans:
  "frame (=) u v \<Longrightarrow> frame (=) v w \<Longrightarrow> frame (=) u w"
  by (auto simp: frame_def)

lemma frame_eq_quiet: "frame (=) u v \<Longrightarrow> frame quiet_servers u v"
  by (auto simp: frame_def)

lemma connect_bank_view:
  "bank_view (fst (connect_bank d banks n)) = bank_view banks"
  by (auto simp: connect_bank_def bank_view_def fun_eq_iff split: option.split)

lemma GetBankForClient_view:
  "bank_view (fst (GetBankForClient ord d banks c)) = bank_view banks"
  by (simp add: GetBankForClient_def connect_bank_view split: sum.split)

lemma find_bank_frame: "frame (=) w (fst (find_bank e c w))"
  using GetBankForClient_view [of "ce_order e" "ce_dial e" "gw_banking w" c]
  by (auto simp: find_bank_def frame_def split: prod.split)

lemma abort_at_frame: "frame quiet_servers w (abort_at env role client i w)"
proof -
  obtain w1 r where f: "find_bank (pe_call env AbortPhase role) client w = (w1, r)" by fastforce
  have fr: "frame quiet_servers w w1"
    using find_bank_frame [of w "pe_call env AbortPhase role" client] f
    by (auto intro: frame_eq_quiet)
  show ?thesis
  proof (cases r)
    case (Inl e)
    then show ?thesis using f fr by (simp add: abort_at_def Let_def)
  next
    case (Inr p)
    obtain a n where p: "p = (a, n)" by fastforce
    let ?sv = "fst (grpc_call BankAbort (abort_request i) (ce_down (pe_call env AbortPhase role))
      (ce_fate (pe_call env AbortPhase role)) a (gw_servers w1))"
    have "frame quiet_servers w1 (w1\<lparr>gw_servers := ?sv\<rparr>)"
      using grpc_call_quiet [OF BankAbort_quiet] by (simp add: frame_def)
    then show ?thesis using f fr Inr p by (simp add: abort_at_def Let_def frame_trans)
  qed
qed

lemma abortTransaction_frame: "frame quiet_servers w (snd (abortTransaction env tx w))"
  by (simp add: abortTransaction_def Let_def) (rule frame_trans [OF abort_at_frame abort_at_frame])

end
