(* ===== verification/Strife_Phases.thy ===== *)
theory Strife_Phases
  imports Strife_Payment_Laws
begin

text \<open>
  The two phases of the coordinator case by case. A phase that fails before its calls, by its
  timeout or by a declined call leaves the balances alone when it is the prepare phase; a commit phase
  that succeeds executed both of its calls exactly once.
\<close>

subsection \<open>One transaction keeps its identity\<close>

definition same_tx :: "TwoPhaseTransactionRecord \<Rightarrow> TwoPhaseTransactionRecord \<Rightarrow> bool" where
  "same_tx tx tx' \<longleftrightarrow>
     tx_ID tx' = tx_ID tx \<and> tx_Sender tx' = tx_Sender tx \<and> tx_Receiver tx' = tx_Receiver tx
     \<and> tx_Amount tx' = tx_Amount tx"

lemma same_tx_simps [simp]:
  "same_tx tx (tx\<lparr>tx_State := s\<rparr>)" "same_tx tx (tx\<lparr>tx_State := s, tx_PrepareVotes := v\<rparr>)"
  "same_tx tx (tx\<lparr>tx_State := s, tx_CommitVotes := v\<rparr>)" "same_tx tx tx"
  by (simp_all add: same_tx_def)

lemma abortTransaction_tx: "fst (abortTransaction env tx w) = tx\<lparr>tx_State := TransactionAborted\<rparr>"
  by (simp add: abortTransaction_def Let_def)

subsection \<open>The prepare phase\<close>

abbreviation prepare_calls ::
  "payment_env \<Rightarrow> TwoPhaseTransactionRecord \<Rightarrow> string \<Rightarrow> string \<Rightarrow> pending_call \<times> pending_call" where
  "prepare_calls env tx sa ra \<equiv>
     (phase_call env PreparePhase SenderRole PrepareDebit (tx_Sender tx) tx sa,
      phase_call env PreparePhase ReceiverRole PrepareCredit (tx_Receiver tx) tx ra)"

abbreviation commit_calls ::
  "payment_env \<Rightarrow> TwoPhaseTransactionRecord \<Rightarrow> string \<Rightarrow> string \<Rightarrow> pending_call \<times> pending_call" where
  "commit_calls env tx sa ra \<equiv>
     (phase_call env CommitPhase SenderRole CommitDebit (tx_Sender tx) tx sa,
      phase_call env CommitPhase ReceiverRole CommitCredit (tx_Receiver tx) tx ra)"

lemma phase_call_sel [simp]:
  "pc_method (phase_call env ph r m c tx a) = m"
  "pc_request (phase_call env ph r m c tx a) = two_phase_request (tx_ID tx) c (tx_Amount tx)"
  "pc_env (phase_call env ph r m c tx a) = pe_call env ph r"
  "pc_address (phase_call env ph r m c tx a) = a"
  by (simp_all add: phase_call_def)

lemma late_quiet:
  "quiet_method (pc_method cs) \<Longrightarrow> quiet_method (pc_method cr) \<Longrightarrow>
     quiet_servers sv ((run_late cr \<circ> run_late cs) sv)"
  by (simp add: quiet_servers_trans [OF run_late_quiet run_late_quiet])

lemma preparePhase_cases:
  obtains
    (failed) tx1 w1 msg late where "frame quiet_servers w w1" and "same_tx tx tx1"
      and "\<And>sv. quiet_servers sv (late sv)"
      and "preparePhase env tx w =
        \<lparr>po_ok = False, po_msg = msg, po_tx = tx1\<lparr>tx_State := TransactionAborted\<rparr>,
         po_w = snd (abortTransaction env tx1 w1), po_late = late\<rparr>"
  | (prepared) w1 sa sn w2 ra rn sv rs rr tx1 late where
      "find_bank (pe_call env PreparePhase SenderRole) (tx_Sender tx) w = (w1, Inr (sa, sn))"
      and "find_bank (pe_call env PreparePhase ReceiverRole) (tx_Receiver tx) w1 = (w2, Inr (ra, rn))"
      and "run_both (pe_receiver_first env PreparePhase) (fst (prepare_calls env tx sa ra))
             (snd (prepare_calls env tx sa ra)) (gw_servers w2) = (sv, rs, rr)"
      and "phase_error ''sender bank declined: '' ''receiver bank declined: '' rs rr = None"
      and "same_tx tx tx1" and "late = run_late (snd (prepare_calls env tx sa ra))
             \<circ> run_late (fst (prepare_calls env tx sa ra))"
      and "tx_State tx1 = TransactionPrepared" and "tx_CommitVotes tx1 = tx_CommitVotes tx"
      and "preparePhase env tx w =
        \<lparr>po_ok = True, po_msg = ''Prepare phase successful'', po_tx = tx1,
         po_w = w2\<lparr>gw_servers := sv\<rparr>, po_late = late\<rparr>"
proof -
  obtain w1 r1 where f1: "find_bank (pe_call env PreparePhase SenderRole) (tx_Sender tx) w = (w1, r1)"
    by fastforce
  have fr1: "frame quiet_servers w w1"
    using find_bank_frame [of w "pe_call env PreparePhase SenderRole" "tx_Sender tx"] f1
    by (auto intro: frame_eq_quiet)
  show ?thesis
  proof (cases r1)
    case (Inl e)
    show ?thesis
      by (rule failed [OF fr1, of tx id])
        (use f1 Inl in \<open>simp_all add: preparePhase_def Let_def abortTransaction_tx
          case_prod_unfold\<close>)
  next
    case (Inr p1)
    then obtain sa sn where f1: "find_bank (pe_call env PreparePhase SenderRole) (tx_Sender tx) w = (w1, Inr (sa, sn))"
      using f1 by (cases p1) auto
    obtain w2 r2 where f2: "find_bank (pe_call env PreparePhase ReceiverRole) (tx_Receiver tx) w1 = (w2, r2)"
      by fastforce
    have fr2: "frame quiet_servers w w2"
      using find_bank_frame [of w1 "pe_call env PreparePhase ReceiverRole" "tx_Receiver tx"] f2 fr1
      by (auto intro: frame_trans frame_eq_quiet)
    show ?thesis
    proof (cases r2)
      case (Inl e)
      show ?thesis
        by (rule failed [OF fr2, of tx id])
          (use f1 f2 Inl in \<open>simp_all add: preparePhase_def Let_def abortTransaction_tx
            case_prod_unfold\<close>)
    next
      case (Inr p2)
      then obtain ra rn where f2: "find_bank (pe_call env PreparePhase ReceiverRole) (tx_Receiver tx) w1 = (w2, Inr (ra, rn))"
        using f2 by (cases p2) auto
      let ?cs = "fst (prepare_calls env tx sa ra)"
      let ?cr = "snd (prepare_calls env tx sa ra)"
      let ?rf = "pe_receiver_first env PreparePhase"
      let ?late = "run_late ?cr \<circ> run_late ?cs"
      obtain sv rs rr where b: "run_both ?rf ?cs ?cr (gw_servers w2) = (sv, rs, rr)"
        by (metis prod_cases3)
      let ?w3 = "w2\<lparr>gw_servers := sv\<rparr>"
      let ?tx1 = "tx\<lparr>tx_State := TransactionPreparing,
        tx_PrepareVotes := record_votes ?rf sn (fst rs) rn (fst rr) (tx_PrepareVotes tx)\<rparr>"
      have q: "quiet_method (pc_method ?cs)" "quiet_method (pc_method ?cr)"
        by (simp_all add: PrepareDebit_quiet PrepareCredit_quiet)
      have "frame quiet_servers w2 ?w3"
        using run_both_quiet [OF q, of "gw_servers w2" ?rf] b by (simp add: frame_def)
      then have fr3: "frame quiet_servers w ?w3" by (rule frame_trans [OF fr2])
      note fail = failed [OF fr3, of ?tx1 ?late, OF _ late_quiet [OF q]]
      note unf = preparePhase_def f1 f2 b [simplified] Let_def abortTransaction_tx case_prod_unfold
      show ?thesis
      proof (cases "pe_timed_out env PreparePhase")
        case True
        show ?thesis by (rule fail) (use True f1 f2 b in \<open>simp_all add: unf\<close>)
      next
        case nt: False
        show ?thesis
        proof (cases "phase_error ''sender bank declined: '' ''receiver bank declined: '' rs rr")
          case (Some e)
          show ?thesis by (rule fail) (use Some nt f1 f2 b in \<open>simp_all add: unf\<close>)
        next
          case None
          show ?thesis
          proof (cases "gget False (tx_PrepareVotes ?tx1) sn \<and> gget False (tx_PrepareVotes ?tx1) rn")
            case True
            show ?thesis
              by (rule prepared [OF f1 f2 b None, of "?tx1\<lparr>tx_State := TransactionPrepared\<rparr>" ?late])
                (use True None nt f1 f2 b in \<open>simp_all add: unf same_tx_def\<close>)
          next
            case False
            show ?thesis by (rule fail) (use False None nt f1 f2 b in \<open>simp_all add: unf\<close>)
          qed
        qed
      qed
    qed
  qed
qed

subsection \<open>The commit phase\<close>

lemma phase_error_None: "phase_error s r rs rr = None \<Longrightarrow> fst rs \<and> fst rr \<and> snd rs = None \<and> snd rr = None"
  by (auto simp: phase_error_def split: if_splits)

lemma record_votes_all:
  "sv \<Longrightarrow> rv \<Longrightarrow> gget False (record_votes rf sn sv rn rv votes) sn
     \<and> gget False (record_votes rf sn sv rn rv votes) rn"
  by (simp add: record_votes_def gget_gput)

text \<open>What the commit phase yields once both calls have been made.\<close>

definition commit_result ::
  "payment_env \<Rightarrow> TwoPhaseTransactionRecord \<Rightarrow> gateway \<Rightarrow> (servers \<Rightarrow> servers)
     \<Rightarrow> bool \<times> string option \<Rightarrow> bool \<times> string option \<Rightarrow> phase_out" where
  "commit_result env tx1 w3 late rs rr =
     (if pe_timed_out env CommitPhase
      then \<lparr>po_ok = False, po_msg = ''Transaction timed out during commit phase'',
            po_tx = tx1\<lparr>tx_State := TransactionAborted\<rparr>, po_w = snd (abortTransaction env tx1 w3),
            po_late = late\<rparr>
      else
        (case phase_error ''sender bank commit failed: '' ''receiver bank commit failed: '' rs rr of
           Some e \<Rightarrow> \<lparr>po_ok = False, po_msg = ''Commit phase failed: '' @ e, po_tx = tx1, po_w = w3,
                      po_late = late\<rparr>
         | None \<Rightarrow> \<lparr>po_ok = True, po_msg = ''Payment successfully processed'',
                    po_tx = tx1\<lparr>tx_State := TransactionCommitted\<rparr>,
                    po_w = fst (updateTwoPhaseBalances env (tx_Sender tx1) (tx_Receiver tx1)
                                  (tx_Amount tx1) w3),
                    po_late = late\<rparr>))"

lemma commitPhase_cases:
  obtains
    (nobank) w1 msg where "frame quiet_servers w w1"
      and "commitPhase env tx w =
        \<lparr>po_ok = False, po_msg = msg, po_tx = tx\<lparr>tx_State := TransactionAborted\<rparr>,
         po_w = snd (abortTransaction env tx w1), po_late = id\<rparr>"
  | (ran) w1 sa sn w2 ra rn sv rs rr tx1 where
      "find_bank (pe_call env CommitPhase SenderRole) (tx_Sender tx) w = (w1, Inr (sa, sn))"
      and "find_bank (pe_call env CommitPhase ReceiverRole) (tx_Receiver tx) w1 = (w2, Inr (ra, rn))"
      and "run_both (pe_receiver_first env CommitPhase) (fst (commit_calls env tx sa ra))
             (snd (commit_calls env tx sa ra)) (gw_servers w2) = (sv, rs, rr)"
      and "same_tx tx tx1" and "tx_State tx1 = TransactionCommitting"
      and "commitPhase env tx w =
        commit_result env tx1 (w2\<lparr>gw_servers := sv\<rparr>)
          (run_late (snd (commit_calls env tx sa ra)) \<circ> run_late (fst (commit_calls env tx sa ra))) rs rr"
proof -
  obtain w1 r1 where f1: "find_bank (pe_call env CommitPhase SenderRole) (tx_Sender tx) w = (w1, r1)"
    by fastforce
  have fr1: "frame quiet_servers w w1"
    using find_bank_frame [of w "pe_call env CommitPhase SenderRole" "tx_Sender tx"] f1
    by (auto intro: frame_eq_quiet)
  show ?thesis
  proof (cases r1)
    case (Inl e)
    show ?thesis
      by (rule nobank [OF fr1])
        (use f1 Inl in \<open>simp_all add: commitPhase_def Let_def abortTransaction_tx case_prod_unfold\<close>)
  next
    case (Inr p1)
    then obtain sa sn where f1: "find_bank (pe_call env CommitPhase SenderRole) (tx_Sender tx) w = (w1, Inr (sa, sn))"
      using f1 by (cases p1) auto
    obtain w2 r2 where f2: "find_bank (pe_call env CommitPhase ReceiverRole) (tx_Receiver tx) w1 = (w2, r2)"
      by fastforce
    have fr2: "frame quiet_servers w w2"
      using find_bank_frame [of w1 "pe_call env CommitPhase ReceiverRole" "tx_Receiver tx"] f2 fr1
      by (auto intro: frame_trans frame_eq_quiet)
    show ?thesis
    proof (cases r2)
      case (Inl e)
      show ?thesis
        by (rule nobank [OF fr2])
          (use f1 f2 Inl in \<open>simp_all add: commitPhase_def Let_def abortTransaction_tx case_prod_unfold\<close>)
    next
      case (Inr p2)
      then obtain ra rn where f2: "find_bank (pe_call env CommitPhase ReceiverRole) (tx_Receiver tx) w1 = (w2, Inr (ra, rn))"
        using f2 by (cases p2) auto
      let ?rf = "pe_receiver_first env CommitPhase"
      obtain sv rs rr where b: "run_both ?rf (fst (commit_calls env tx sa ra))
          (snd (commit_calls env tx sa ra)) (gw_servers w2) = (sv, rs, rr)"
        by (metis prod_cases3)
      let ?tx1 = "tx\<lparr>tx_State := TransactionCommitting,
        tx_CommitVotes := record_votes ?rf sn (fst rs) rn (fst rr) (tx_CommitVotes tx)\<rparr>"
      note unf = commitPhase_def commit_result_def f1 f2 b [simplified] Let_def abortTransaction_tx
        case_prod_unfold
      show ?thesis
      proof (rule ran [OF f1 f2 b, of ?tx1])
        show "commitPhase env tx w = commit_result env ?tx1 (w2\<lparr>gw_servers := sv\<rparr>)
          (run_late (snd (commit_calls env tx sa ra)) \<circ> run_late (fst (commit_calls env tx sa ra))) rs rr"
        proof (cases "phase_error ''sender bank commit failed: '' ''receiver bank commit failed: '' rs rr")
          case None
          with record_votes_all [of "fst rs" "fst rr" ?rf sn rn "tx_CommitVotes tx"]
            phase_error_None [OF None]
          show ?thesis using f1 f2 b by (simp add: unf)
        next
          case (Some e)
          then show ?thesis using f1 f2 b by (simp add: unf)
        qed
      qed simp_all
    qed
  qed
qed

subsection \<open>A call that is answered with success\<close>

lemma run_call_ok:
  assumes "run_call c sv = (sv', True, e)"
  obtains b b' r where "ce_fate (pc_env c) = Delivered" and "map_of sv (pc_address c) = Some b"
    and "pc_method c b (pc_request c) = Some (b', r)" and "tpr_Success r"
    and "sv' = gput (pc_address c) b' sv"
  using assms
  by (cases "ce_fate (pc_env c)")
    (auto simp: run_call_def grpc_call_def bank_rpc_def grpc_result_def execute_call_def
      split: option.splits prod.splits if_splits)

lemma run_late_delivered [simp]: "ce_fate (pc_env c) = Delivered \<Longrightarrow> run_late c sv = sv"
  by (simp add: run_late_def late_call_def)

end
