(* ===== verification/Strife_Transfer.thy ===== *)
theory Strife_Transfer
  imports Strife_Phases
begin

text \<open>
  What a two-phase payment does to the money at the banks and in the gateway: nothing unless the
  commit phase runs, exactly the amount when it succeeds between two banks, and never success
  inside one bank.
\<close>

subsection \<open>Money\<close>

definition bank_money :: "gateway \<Rightarrow> string \<Rightarrow> string \<Rightarrow> f32 option" where
  "bank_money w a c = map_option (\<lambda>b. balance_of b c) (map_of (gw_servers w) a)"

definition local_money :: "gateway \<Rightarrow> string \<Rightarrow> f32 option" where
  "local_money w c = map_option ab_Balance (map_of (bs_accountBalances (gw_balances w)) c)"

lemma quiet_money:
  assumes "quiet_servers (gw_servers w) (gw_servers w')"
  shows "bank_money w' a c = bank_money w a c"
proof -
  have "rel_option quiet (map_of (gw_servers w) a) (map_of (gw_servers w') a)"
    using assms by (simp add: quiet_servers_def)
  then show ?thesis
    by (cases "map_of (gw_servers w) a"; cases "map_of (gw_servers w') a")
      (auto simp: bank_money_def quiet_def)
qed

lemma frame_money:
  "frame quiet_servers w w' \<Longrightarrow> bank_money w' a c = bank_money w a c"
  "frame quiet_servers w w' \<Longrightarrow> local_money w' c = local_money w c"
  by (simp_all add: frame_def quiet_money local_money_def)

lemma money_servers [simp]:
  "bank_money (w\<lparr>gw_txs := t\<rparr>) = bank_money w" "local_money (w\<lparr>gw_txs := t\<rparr>) = local_money w"
  "local_money (w\<lparr>gw_servers := sv\<rparr>) = local_money w"
  "bank_money (w\<lparr>gw_balances := b\<rparr>) = bank_money w"
  by (simp_all add: bank_money_def local_money_def fun_eq_iff)

subsection \<open>The bank of a client\<close>

text \<open>The client is listed by exactly one bank of the gateway, and that bank's address is \<open>a\<close>.\<close>

definition client_home :: "(string \<Rightarrow> Bank option) \<Rightarrow> string \<Rightarrow> string \<Rightarrow> bool" where
  "client_home view c a \<longleftrightarrow>
     (\<exists>n b. view n = Some b \<and> gb_Address b = a \<and> map_of (gb_Clients b) c \<noteq> None
        \<and> (\<forall>n' b'. view n' = Some b' \<and> map_of (gb_Clients b') c \<noteq> None \<longrightarrow> n' = n))"

lemma client_home_unique: "client_home v c a \<Longrightarrow> client_home v c a' \<Longrightarrow> a' = a"
  unfolding client_home_def by (metis option.inject)

lemma bank_view_Some:
  "bank_view banks n = Some b \<longleftrightarrow> (\<exists>b'. map_of banks n = Some b' \<and> b = b'\<lparr>gb_connected := False\<rparr>)"
  by (auto simp: bank_view_def)

lemma getBankNameForClient_home:
  assumes "client_home (bank_view banks) c a" and "getBankNameForClient order banks c = Inr n"
  shows "\<exists>b. map_of banks n = Some b \<and> gb_Address b = a"
proof -
  from assms(2) obtain b where b: "map_of banks n = Some b" "map_of (gb_Clients b) c \<noteq> None"
    unfolding getBankNameForClient_def
    by (auto simp: find_Some_iff split: option.splits)
  from assms(1) obtain n0 b0 where h: "bank_view banks n0 = Some b0" "gb_Address b0 = a"
      "\<forall>n' b'. bank_view banks n' = Some b' \<and> map_of (gb_Clients b') c \<noteq> None \<longrightarrow> n' = n0"
    unfolding client_home_def by blast
  have "bank_view banks n = Some (b\<lparr>gb_connected := False\<rparr>)" using b(1) by (simp add: bank_view_def)
  with h(3) b(2) have "n = n0" by simp
  with h(1,2) b(1) show ?thesis by (auto simp: bank_view_Some)
qed

lemma find_bank_home:
  assumes "find_bank e c w = (w1, Inr (a', n'))" and "client_home (bank_view (gw_banking w)) c a"
  shows "a' = a"
proof -
  from assms(1) obtain bs where g: "GetBankForClient (ce_order e) (ce_dial e) (gw_banking w) c = (bs, Inr (a', n'))"
    by (auto simp: find_bank_def split: prod.splits)
  then obtain n where n: "getBankNameForClient (ce_order e) (gw_banking w) c = Inr n"
    and c: "connect_bank (ce_dial e) (gw_banking w) n = (bs, Inr (a', n'))"
    by (auto simp: GetBankForClient_def split: sum.splits)
  from getBankNameForClient_home [OF assms(2) n] c show ?thesis
    by (auto simp: connect_bank_def split: if_splits option.splits)
qed

lemma frame_home: "frame R w w' \<Longrightarrow> bank_view (gw_banking w') = bank_view (gw_banking w)"
  by (simp add: frame_def)

subsection \<open>Local balances\<close>

lemma SaveBalances_accounts [simp]:
  "bs_accountBalances (fst (SaveBalances ord e b)) = bs_accountBalances b"
  by (auto simp: SaveBalances_def split: option.split)

lemma save_balances_frame:
  "gw_servers (fst (save_balances env w)) = gw_servers w"
  "gw_txs (fst (save_balances env w)) = gw_txs w"
  "gw_banking (fst (save_balances env w)) = gw_banking w"
  "local_money (fst (save_balances env w)) = local_money w"
  by (auto simp: save_balances_def Let_def local_money_def fun_eq_iff SaveBalances_accounts
      split: option.splits prod.splits)
    (metis SaveBalances_accounts fst_conv)+

lemma UpdateBalance_ok:
  assumes "UpdateBalance b c x = Inr b'"
  shows "map_of (bs_accountBalances b') = (map_of (bs_accountBalances b))
    (c \<mapsto> \<lparr>ab_Balance = bal_Amount x, ab_Currency = bal_Currency x\<rparr>)"
  using assms by (auto simp: UpdateBalance_def split: option.splits)

lemma StorageGetBalance_local:
  "map_option bal_Amount (StorageGetBalance (gw_balances w) c) = local_money w c"
  by (simp add: StorageGetBalance_def local_money_def split: option.split)

definition moved :: "string \<Rightarrow> (f32 \<Rightarrow> f32) \<Rightarrow> (string \<Rightarrow> f32 option) \<Rightarrow> string \<Rightarrow> f32 option" where
  "moved c f m = m(c := map_option f (m c))"

lemma update_one:
  assumes "StorageGetBalance (gw_balances w) c = Some x"
  obtains b' where "UpdateBalance (gw_balances w) c (x\<lparr>bal_Amount := f (bal_Amount x)\<rparr>) = Inr b'"
    and "local_money (w\<lparr>gw_balances := b'\<rparr>) = moved c f (local_money w)"
proof -
  from assms obtain ab where ab: "map_of (bs_accountBalances (gw_balances w)) c = Some ab"
    "bal_Amount x = ab_Balance ab"
    by (auto simp: StorageGetBalance_def split: option.splits)
  then obtain b' where b': "UpdateBalance (gw_balances w) c (x\<lparr>bal_Amount := f (bal_Amount x)\<rparr>) = Inr b'"
    by (simp add: UpdateBalance_def)
  from UpdateBalance_ok [OF b'] ab have "local_money (w\<lparr>gw_balances := b'\<rparr>) = moved c f (local_money w)"
    by (auto simp: local_money_def moved_def fun_eq_iff)
  with b' show ?thesis by (rule that)
qed

text \<open>
  The sender's balance changes if it has one, then the receiver's if it has one; nothing else of the gateway
  changes but the balances, whatever the saving does.
\<close>

lemma updateTwoPhaseBalances_effect:
  assumes "local_money w s \<noteq> None"
  shows "local_money (fst (updateTwoPhaseBalances env s r amt w))
      = moved r (\<lambda>b. b + amt) (moved s (\<lambda>b. b - amt) (local_money w))"
    and "gw_servers (fst (updateTwoPhaseBalances env s r amt w)) = gw_servers w"
    and "gw_txs (fst (updateTwoPhaseBalances env s r amt w)) = gw_txs w"
    and "gw_banking (fst (updateTwoPhaseBalances env s r amt w)) = gw_banking w"
proof -
  from assms obtain x where x: "StorageGetBalance (gw_balances w) s = Some x"
    using StorageGetBalance_local [of w s] by (metis option.map_disc_iff not_None_eq)
  obtain b1 where b1: "UpdateBalance (gw_balances w) s (x\<lparr>bal_Amount := bal_Amount x - amt\<rparr>) = Inr b1"
    and m1: "local_money (w\<lparr>gw_balances := b1\<rparr>) = moved s (\<lambda>b. b - amt) (local_money w)"
    by (rule update_one [OF x, of "\<lambda>b. b - amt"])
  let ?w1 = "w\<lparr>gw_balances := b1\<rparr>"
  have "local_money (fst (updateTwoPhaseBalances env s r amt w))
      = moved r (\<lambda>b. b + amt) (moved s (\<lambda>b. b - amt) (local_money w))
    \<and> gw_servers (fst (updateTwoPhaseBalances env s r amt w)) = gw_servers w
    \<and> gw_txs (fst (updateTwoPhaseBalances env s r amt w)) = gw_txs w
    \<and> gw_banking (fst (updateTwoPhaseBalances env s r amt w)) = gw_banking w"
  proof (cases "StorageGetBalance (gw_balances ?w1) r")
    case None
    then have "local_money ?w1 r = None"
      using StorageGetBalance_local [of ?w1 r] by simp
    then have "moved r (\<lambda>b. b + amt) (local_money ?w1) = local_money ?w1"
      by (simp add: moved_def fun_eq_iff)
    with None x b1 m1 show ?thesis by (simp add: updateTwoPhaseBalances_def Let_def)
  next
    case (Some y)
    obtain b2 where b2: "UpdateBalance (gw_balances ?w1) r (y\<lparr>bal_Amount := bal_Amount y + amt\<rparr>) = Inr b2"
      and m2: "local_money (?w1\<lparr>gw_balances := b2\<rparr>) = moved r (\<lambda>b. b + amt) (local_money ?w1)"
      by (rule update_one [OF Some, of "\<lambda>b. b + amt"])
    with Some x b1 m1 show ?thesis
      by (simp add: updateTwoPhaseBalances_def Let_def save_balances_frame)
  qed
  then show "local_money (fst (updateTwoPhaseBalances env s r amt w))
      = moved r (\<lambda>b. b + amt) (moved s (\<lambda>b. b - amt) (local_money w))"
    "gw_servers (fst (updateTwoPhaseBalances env s r amt w)) = gw_servers w"
    "gw_txs (fst (updateTwoPhaseBalances env s r amt w)) = gw_txs w"
    "gw_banking (fst (updateTwoPhaseBalances env s r amt w)) = gw_banking w"
    by auto
qed

subsection \<open>The prepare phase moves no money\<close>

lemma preparePhase_frame:
  "frame quiet_servers w (po_w (preparePhase env tx w))
   \<and> (\<forall>sv. quiet_servers sv (po_late (preparePhase env tx w) sv))
   \<and> same_tx tx (po_tx (preparePhase env tx w))"
proof (cases rule: preparePhase_cases [of w tx env])
  case (failed tx1 w1 msg late)
  have "frame quiet_servers w (snd (abortTransaction env tx1 w1))"
    by (rule frame_trans [OF failed(1) abortTransaction_frame])
  with failed show ?thesis by (simp add: same_tx_def)
next
  case (prepared w1 sa sn w2 ra rn sv rs rr tx1 late)
  have "frame (=) w w1" "frame (=) w1 w2"
    using find_bank_frame prepared(1,2) by (metis fst_conv)+
  then have "frame quiet_servers w w2" by (blast intro: frame_eq_quiet frame_eq_trans)
  moreover have "frame quiet_servers w2 (w2\<lparr>gw_servers := sv\<rparr>)"
    using run_both_quiet [of "fst (prepare_calls env tx sa ra)" "snd (prepare_calls env tx sa ra)"
        "gw_servers w2" "pe_receiver_first env PreparePhase"] prepared(3)
    by (simp add: frame_def PrepareDebit_quiet PrepareCredit_quiet)
  ultimately have "frame quiet_servers w (w2\<lparr>gw_servers := sv\<rparr>)" by (rule frame_trans)
  moreover have "quiet_servers sv' (late sv')" for sv'
    using late_quiet [of "fst (prepare_calls env tx sa ra)" "snd (prepare_calls env tx sa ra)" sv']
    by (simp add: prepared(6) PrepareDebit_quiet PrepareCredit_quiet)
  ultimately show ?thesis using prepared by simp
qed

subsection \<open>A commit phase that succeeds\<close>

lemma run_both_ok:
  assumes "run_both rf cs cr sv = (sv', rs, rr)" and "phase_error s r rs rr = None"
    and "pc_address cs \<noteq> pc_address cr"
  obtains b b' x d d' y where "ce_fate (pc_env cs) = Delivered" and "ce_fate (pc_env cr) = Delivered"
    and "map_of sv (pc_address cs) = Some b" and "pc_method cs b (pc_request cs) = Some (b', x)"
    and "tpr_Success x"
    and "map_of sv (pc_address cr) = Some d" and "pc_method cr d (pc_request cr) = Some (d', y)"
    and "tpr_Success y"
    and "map_of sv' = (map_of sv)(pc_address cs \<mapsto> b', pc_address cr \<mapsto> d')"
proof -
  have t: "fst rs = True" "fst rr = True"
    using phase_error_None [OF assms(2)] by simp_all
  show ?thesis
  proof (cases rf)
    case True
    obtain sv1 where c1: "run_call cr sv = (sv1, True, snd rr)" and c2: "run_call cs sv1 = (sv', True, snd rs)"
      using assms(1) True t by (cases rs; cases rr) (auto simp: run_both_def split: prod.splits)
    from c1 obtain d d' y where d: "ce_fate (pc_env cr) = Delivered" "map_of sv (pc_address cr) = Some d"
      "pc_method cr d (pc_request cr) = Some (d', y)" "tpr_Success y" "sv1 = gput (pc_address cr) d' sv"
      by (rule run_call_ok)
    from c2 obtain b b' x where b: "ce_fate (pc_env cs) = Delivered" "map_of sv1 (pc_address cs) = Some b"
      "pc_method cs b (pc_request cs) = Some (b', x)" "tpr_Success x" "sv' = gput (pc_address cs) b' sv1"
      by (rule run_call_ok)
    show ?thesis using b d assms(3) by (intro that [of b b' x d d' y]) auto
  next
    case False
    obtain sv1 where c1: "run_call cs sv = (sv1, True, snd rs)" and c2: "run_call cr sv1 = (sv', True, snd rr)"
      using assms(1) False t by (cases rs; cases rr) (auto simp: run_both_def split: prod.splits)
    from c1 obtain b b' x where b: "ce_fate (pc_env cs) = Delivered" "map_of sv (pc_address cs) = Some b"
      "pc_method cs b (pc_request cs) = Some (b', x)" "tpr_Success x" "sv1 = gput (pc_address cs) b' sv"
      by (rule run_call_ok)
    from c2 obtain d d' y where d: "ce_fate (pc_env cr) = Delivered" "map_of sv1 (pc_address cr) = Some d"
      "pc_method cr d (pc_request cr) = Some (d', y)" "tpr_Success y" "sv' = gput (pc_address cr) d' sv1"
      by (rule run_call_ok)
    show ?thesis using b d assms(3) by (intro that [of b b' x d d' y]) auto
  qed
qed

definition bank_moved ::
  "string \<Rightarrow> string \<Rightarrow> (f32 \<Rightarrow> f32) \<Rightarrow> (string \<Rightarrow> string \<Rightarrow> f32 option) \<Rightarrow> string \<Rightarrow> string \<Rightarrow> f32 option" where
  "bank_moved a c f m = m(a := moved c f (m a))"

lemma bank_moved_update:
  assumes "map_of (gw_servers w) a = Some b" and "map_of sv = (map_of (gw_servers w))(a \<mapsto> b')"
    and "balance_of b' = (balance_of b)(c := f (balance_of b c))"
  shows "bank_money (w\<lparr>gw_servers := sv\<rparr>) = bank_moved a c f (bank_money w)"
  using assms by (auto simp: bank_money_def bank_moved_def moved_def fun_eq_iff)

lemma two_phase_request_sel [simp]:
  "tp_TransactionId (two_phase_request i c x) = i" "tp_ClientName (two_phase_request i c x) = c"
  "tp_Amount (two_phase_request i c x) = x"
  by (simp_all add: two_phase_request_def)

lemma frame_eq_find2:
  assumes "find_bank e c w = (w1, r1)" and "find_bank e' c' w1 = (w2, r2)"
  shows "frame (=) w w1" and "frame (=) w w2"
  using find_bank_frame [of w e c] find_bank_frame [of w1 e' c'] assms
  by (auto intro: frame_eq_trans)

text \<open>The same banks, with the same clients, at the same addresses.\<close>

definition same_servers :: "servers \<Rightarrow> servers \<Rightarrow> bool" where
  "same_servers sv sv' \<longleftrightarrow> (\<forall>a. rel_option same_bank (map_of sv a) (map_of sv' a))"

lemma same_servers_refl [simp]: "same_servers sv sv"
  by (simp add: same_servers_def option.rel_refl)

lemma same_servers_trans:
  assumes ab: "same_servers a b" and bc: "same_servers b c"
  shows "same_servers a c"
  unfolding same_servers_def
proof
  fix x
  have "rel_option same_bank (map_of a x) (map_of b x)" "rel_option same_bank (map_of b x) (map_of c x)"
    using ab bc by (simp_all add: same_servers_def)
  then show "rel_option same_bank (map_of a x) (map_of c x)"
    by (cases "map_of a x"; cases "map_of b x"; cases "map_of c x") (auto intro: same_bank_trans)
qed

lemma quiet_same_servers: "quiet_servers a b \<Longrightarrow> same_servers a b"
  unfolding same_servers_def quiet_servers_def
  by (metis (no_types, lifting) option.rel_mono_strong quiet_def)

lemma commitPhase_ok:
  assumes ok: "po_ok (commitPhase env tx w)"
    and hs: "client_home (bank_view (gw_banking w)) (tx_Sender tx) sa"
    and hr: "client_home (bank_view (gw_banking w)) (tx_Receiver tx) ra"
    and ne: "sa \<noteq> ra" and loc: "local_money w (tx_Sender tx) \<noteq> None"
  shows "bank_money (po_w (commitPhase env tx w)) =
      bank_moved ra (tx_Receiver tx) (\<lambda>b. b + tx_Amount tx)
        (bank_moved sa (tx_Sender tx) (\<lambda>b. b - tx_Amount tx) (bank_money w))"
    and "local_money (po_w (commitPhase env tx w)) =
      moved (tx_Receiver tx) (\<lambda>b. b + tx_Amount tx)
        (moved (tx_Sender tx) (\<lambda>b. b - tx_Amount tx) (local_money w))"
    and "po_late (commitPhase env tx w) = id"
    and "tx_State (po_tx (commitPhase env tx w)) = TransactionCommitted"
    and "gw_txs (po_w (commitPhase env tx w)) = gw_txs w"
    and "bank_view (gw_banking (po_w (commitPhase env tx w))) = bank_view (gw_banking w)"
    and "same_servers (gw_servers w) (gw_servers (po_w (commitPhase env tx w)))"
proof -
  have goal: "bank_money (po_w (commitPhase env tx w)) =
      bank_moved ra (tx_Receiver tx) (\<lambda>b. b + tx_Amount tx)
        (bank_moved sa (tx_Sender tx) (\<lambda>b. b - tx_Amount tx) (bank_money w))
    \<and> local_money (po_w (commitPhase env tx w)) =
      moved (tx_Receiver tx) (\<lambda>b. b + tx_Amount tx)
        (moved (tx_Sender tx) (\<lambda>b. b - tx_Amount tx) (local_money w))
    \<and> po_late (commitPhase env tx w) = id
    \<and> tx_State (po_tx (commitPhase env tx w)) = TransactionCommitted
    \<and> gw_txs (po_w (commitPhase env tx w)) = gw_txs w
    \<and> bank_view (gw_banking (po_w (commitPhase env tx w))) = bank_view (gw_banking w)
    \<and> same_servers (gw_servers w) (gw_servers (po_w (commitPhase env tx w)))"
  proof (cases rule: commitPhase_cases [of w env tx])
    case (nobank w1 msg)
    with ok show ?thesis by simp
  next
    case (ran w1 sa' sn w2 ra' rn sv rs rr tx1)
    let ?cs = "fst (commit_calls env tx sa' ra')"
    let ?cr = "snd (commit_calls env tx sa' ra')"
    have fr: "frame (=) w w1" "frame (=) w w2" using frame_eq_find2 ran(1,2) by blast+
    have "sa' = sa" by (rule find_bank_home [OF ran(1) hs])
    moreover have "ra' = ra"
      by (rule find_bank_home [OF ran(2)]) (use hr frame_home [OF fr(1)] in simp)
    ultimately have ad: "pc_address ?cs = sa" "pc_address ?cr = ra" by simp_all
    have nt: "\<not> pe_timed_out env CommitPhase"
      and ne': "phase_error ''sender bank commit failed: '' ''receiver bank commit failed: '' rs rr = None"
      using ok ran(6) by (auto simp: commit_result_def split: if_splits option.splits)
    obtain b b' x d d' y where del: "ce_fate (pc_env ?cs) = Delivered" "ce_fate (pc_env ?cr) = Delivered"
      and b: "map_of (gw_servers w2) sa = Some b" "CommitDebit b (pc_request ?cs) = Some (b', x)" "tpr_Success x"
      and d: "map_of (gw_servers w2) ra = Some d" "CommitCredit d (pc_request ?cr) = Some (d', y)" "tpr_Success y"
      and sv: "map_of sv = (map_of (gw_servers w2))(sa \<mapsto> b', ra \<mapsto> d')"
      using run_both_ok [OF ran(3) ne'] ad ne
      by (metis (no_types, lifting) fst_conv phase_call_sel(1) snd_conv)
    have bb: "balance_of b' = (balance_of b)(tx_Sender tx := balance_of b (tx_Sender tx) - tx_Amount tx)"
      using debit.commit_yes [OF b(2,3)] by simp
    have dd: "balance_of d' = (balance_of d)(tx_Receiver tx := balance_of d (tx_Receiver tx) + tx_Amount tx)"
      using credit.commit_yes [OF d(2,3)] by simp
    let ?v1 = "w2\<lparr>gw_servers := gput sa b' (gw_servers w2)\<rparr>"
    let ?w3 = "w2\<lparr>gw_servers := sv\<rparr>"
    have m1: "bank_money ?v1 = bank_moved sa (tx_Sender tx) (\<lambda>b. b - tx_Amount tx) (bank_money w2)"
      by (rule bank_moved_update [where f = "\<lambda>b. b - tx_Amount tx" and b = b and b' = b'])
        (use b(1) bb in auto)
    have "bank_money (?v1\<lparr>gw_servers := sv\<rparr>)
        = bank_moved ra (tx_Receiver tx) (\<lambda>b. b + tx_Amount tx) (bank_money ?v1)"
      by (rule bank_moved_update [where f = "\<lambda>b. b + tx_Amount tx" and b = d and b' = d'])
        (use d(1) ne sv dd in auto)
    with m1 have m3: "bank_money ?w3 = bank_moved ra (tx_Receiver tx) (\<lambda>b. b + tx_Amount tx)
        (bank_moved sa (tx_Sender tx) (\<lambda>b. b - tx_Amount tx) (bank_money w2))"
      by simp
    have w2: "bank_money w2 = bank_money w" "local_money w2 = local_money w" "gw_txs w2 = gw_txs w"
      "gw_servers w2 = gw_servers w"
      using fr(2) by (auto simp: frame_def bank_money_def local_money_def fun_eq_iff)
    have loc3: "local_money ?w3 (tx_Sender tx) \<noteq> None" using loc w2 by simp
    note up = updateTwoPhaseBalances_effect [OF loc3, of env "tx_Receiver tx" "tx_Amount tx"]
    have late: "run_late ?cr \<circ> run_late ?cs = id"
      using del by (simp add: fun_eq_iff)
    have tx1: "tx_Sender tx1 = tx_Sender tx" "tx_Receiver tx1 = tx_Receiver tx" "tx_Amount tx1 = tx_Amount tx"
      using ran(4) by (simp_all add: same_tx_def)
    have res: "commitPhase env tx w =
      \<lparr>po_ok = True, po_msg = ''Payment successfully processed'',
       po_tx = tx1\<lparr>tx_State := TransactionCommitted\<rparr>,
       po_w = fst (updateTwoPhaseBalances env (tx_Sender tx) (tx_Receiver tx) (tx_Amount tx) ?w3),
       po_late = id\<rparr>"
      using ran(6) nt ne' late by (simp add: commit_result_def tx1)
    have "bank_money (po_w (commitPhase env tx w)) = bank_money ?w3"
      by (simp add: res bank_money_def up(2) fun_eq_iff)
    moreover have "same_bank b b'" "same_bank d d'"
      using debit.commit_yes [OF b(2,3)] credit.commit_yes [OF d(2,3)] by simp_all
    then have "same_servers (gw_servers w) sv"
      using sv b(1) d(1) w2(4) ne by (auto simp: same_servers_def option.rel_refl)
    ultimately show ?thesis
      using m3 up w2 frame_home [OF fr(2)] by (simp add: res)
  qed
  then show "bank_money (po_w (commitPhase env tx w)) =
      bank_moved ra (tx_Receiver tx) (\<lambda>b. b + tx_Amount tx)
        (bank_moved sa (tx_Sender tx) (\<lambda>b. b - tx_Amount tx) (bank_money w))"
    "local_money (po_w (commitPhase env tx w)) =
      moved (tx_Receiver tx) (\<lambda>b. b + tx_Amount tx)
        (moved (tx_Sender tx) (\<lambda>b. b - tx_Amount tx) (local_money w))"
    "po_late (commitPhase env tx w) = id"
    "tx_State (po_tx (commitPhase env tx w)) = TransactionCommitted"
    "gw_txs (po_w (commitPhase env tx w)) = gw_txs w"
    "bank_view (gw_banking (po_w (commitPhase env tx w))) = bank_view (gw_banking w)"
    "same_servers (gw_servers w) (gw_servers (po_w (commitPhase env tx w)))"
    by auto
qed

end
