(* ===== verification/Strife_Server.thy ===== *)
theory Strife_Server
  imports Strife_Payment
begin

text \<open>
  The gateway server (P3-Strife/gateway/server.go): construction, the RPC methods behind the chain of
  interceptors, and the monitoring of transactions. Formatted times depend on the time zone of the
  process and are arguments. RunServer and main are in \<open>Strife_Startup\<close>.
\<close>

subsection \<open>JSON text of the votes\<close>

text \<open>Quoting by encoding/json, for ASCII strings.\<close>

definition hex_digit :: "nat \<Rightarrow> char" where
  "hex_digit d = (if d < 10 then char_of (48 + d) else char_of (87 + d))"

definition json_char :: "char \<Rightarrow> string" where
  "json_char c =
     (if c = CHR 0x22 then [CHR 0x5C, CHR 0x22]
      else if c = CHR 0x5C then [CHR 0x5C, CHR 0x5C]
      else if c = CHR 0x0A then [CHR 0x5C, CHR ''n'']
      else if c = CHR 0x0D then [CHR 0x5C, CHR ''r'']
      else if c = CHR 0x09 then [CHR 0x5C, CHR ''t'']
      else if c = CHR 0x08 then [CHR 0x5C, CHR ''b'']
      else if c = CHR 0x0C then [CHR 0x5C, CHR ''f'']
      else if of_char c < (32 :: nat) \<or> c \<in> {CHR ''<'', CHR ''>'', CHR ''&''}
      then CHR 0x5C # ''u00'' @ [hex_digit (of_char c div 16), hex_digit (of_char c mod 16)]
      else [c])"

definition json_string :: "string \<Rightarrow> string" where
  "json_string s = CHR 0x22 # concat (map json_char s) @ [CHR 0x22]"

fun string_less :: "string \<Rightarrow> string \<Rightarrow> bool" where
  "string_less _ [] = False"
| "string_less [] (_ # _) = True"
| "string_less (a # as) (b # bs) =
     (of_char a < (of_char b :: nat) \<or> (a = b \<and> string_less as bs))"

fun insert_key :: "string \<times> bool \<Rightarrow> (string \<times> bool) list \<Rightarrow> (string \<times> bool) list" where
  "insert_key p [] = [p]"
| "insert_key p (q # qs) = (if string_less (fst q) (fst p) then q # insert_key p qs else p # q # qs)"

fun commas :: "string list \<Rightarrow> string" where
  "commas [] = ''''"
| "commas [x] = x"
| "commas (x # y # zs) = x @ '','' @ commas (y # zs)"

text \<open>json.Marshal sorts the keys of a map.\<close>

definition json_votes :: "(string, bool) gomap \<Rightarrow> string" where
  "json_votes votes =
     ''{'' @ commas (map (\<lambda>(k, v). json_string k @ '':'' @ (if v then ''true'' else ''false''))
               (foldr insert_key votes [])) @ ''}''"

subsection \<open>Monitoring\<close>

fun state_string :: "TransactionState \<Rightarrow> string" where
  "state_string TransactionPreparing = ''preparing''"
| "state_string TransactionPrepared = ''prepared''"
| "state_string TransactionCommitting = ''committing''"
| "state_string TransactionCommitted = ''committed''"
| "state_string TransactionAborting = ''aborting''"
| "state_string TransactionAborted = ''aborted''"

record TransactionStatusResponse =
  tsr_TransactionId :: string
  tsr_Status :: string
  tsr_Message :: string
  tsr_Metadata :: "(string, string) gomap"

definition GetTransactionStatus ::
  "(int \<Rightarrow> string) \<Rightarrow> (int \<Rightarrow> string) \<Rightarrow> TransactionManager \<Rightarrow> string \<Rightarrow> TransactionStatusResponse" where
  "GetTransactionStatus format_time since tm i =
     (case GetTransaction tm i of
        None \<Rightarrow> \<lparr>tsr_TransactionId = i, tsr_Status = ''not_found'',
                 tsr_Message = ''Transaction not found'', tsr_Metadata = []\<rparr>
      | Some (TwoPhaseTx tx) \<Rightarrow>
          \<lparr>tsr_TransactionId = i, tsr_Status = state_string (tx_State tx),
           tsr_Message = ''2PC Transaction in state: '' @ state_string (tx_State tx),
           tsr_Metadata =
             [(''type'', ''two_phase_commit''), (''sender'', tx_Sender tx), (''receiver'', tx_Receiver tx),
              (''amount'', fmt2f (tx_Amount tx)), (''timestamp'', format_time (tx_Timestamp tx)),
              (''prepare_votes'', json_votes (GetPrepareVotes tx)),
              (''commit_votes'', json_votes (GetCommitVotes tx)),
              (''elapsed_time'', since (tx_Timestamp tx))]\<rparr>
      | Some (SimpleTx tx) \<Rightarrow>
          \<lparr>tsr_TransactionId = i, tsr_Status = ''completed'',
           tsr_Message = ''Simple transaction (non-2PC) completed'',
           tsr_Metadata =
             [(''type'', ''simple''), (''client'', st_ClientName tx), (''amount'', fmt2f (st_Amount tx)),
              (''timestamp'', format_time (st_ProcessedAt tx)),
              (''success'', if resp_Success (st_Result tx) then ''true'' else ''false'')]\<rparr>)"

record TransactionInfo =
  ti_Id :: string
  ti_Type :: string
  ti_Sender :: string
  ti_Receiver :: string
  ti_Amount :: f32
  ti_Status :: string
  ti_Timestamp :: string

text \<open>Simple transactions are not listed. \<open>order\<close> is the order of the loop over the copied map.\<close>

definition transaction_info :: "(int \<Rightarrow> string) \<Rightarrow> string \<Rightarrow> tx_record \<Rightarrow> TransactionInfo option" where
  "transaction_info format_time i r =
     (case r of
        SimpleTx _ \<Rightarrow> None
      | TwoPhaseTx tx \<Rightarrow>
          Some \<lparr>ti_Id = i, ti_Type = ''two_phase_commit'', ti_Sender = tx_Sender tx,
                ti_Receiver = tx_Receiver tx, ti_Amount = tx_Amount tx,
                ti_Status = state_string (tx_State tx), ti_Timestamp = format_time (tx_Timestamp tx)\<rparr>)"

definition ListActiveTransactions ::
  "(int \<Rightarrow> string) \<Rightarrow> string list \<Rightarrow> TransactionManager \<Rightarrow> TransactionInfo list" where
  "ListActiveTransactions format_time order tm =
     List.map_filter
       (\<lambda>i. case map_of (GetActiveTransactions tm) i of
              None \<Rightarrow> None
            | Some r \<Rightarrow> transaction_info format_time i r) order"

subsection \<open>Construction\<close>

definition NewGatewayServer ::
  "Config \<Rightarrow> User list json_file \<Rightarrow> BalanceData list json_file \<Rightarrow> bank_clients_file json_file
     \<Rightarrow> servers \<Rightarrow> string + gateway" where
  "NewGatewayServer cfg users balances clients servers =
     (case NewUserStorage users of
        Inl e \<Rightarrow> Inl e
      | Inr userStorage \<Rightarrow>
          (case NewBalanceStorage balances of
             Inl e \<Rightarrow> Inl e
           | Inr balanceStorage \<Rightarrow>
               Inr \<lparr>gw_balances = balanceStorage,
                    gw_txs = NewTransactionManager (cfg_TransactionTTL cfg),
                    gw_banking = InitializeBankService cfg clients,
                    gw_auth = NewAuthService userStorage, gw_usesTwoPhase = True,
                    gw_paymentTimeout = 30 * 10 ^ 9, gw_servers = servers\<rparr>))"

text \<open>The two bank servers that the bank program starts.\<close>

definition start_banks ::
  "bank_clients_file json_file \<Rightarrow> BalanceData list json_file \<Rightarrow> string + servers" where
  "start_banks clients balances =
     (case NewBankServer clients balances ''BankA'' of
        Inl e \<Rightarrow> Inl e
      | Inr a \<Rightarrow>
          (case NewBankServer clients balances ''BankB'' of
             Inl e \<Rightarrow> Inl e
           | Inr b \<Rightarrow> Inr [(''localhost:50051'', a), (''localhost:50052'', b)]))"

subsection \<open>The methods behind the interceptors\<close>

definition of_rpc :: "'w \<times> 'r rpc \<Rightarrow> 'w \<times> 'r go_result option" where
  "of_rpc x = (case x of (w, Inl e) \<Rightarrow> (w, Some (None, Some e)) | (w, Inr r) \<Rightarrow> (w, Some (Some r, None)))"

definition MakePayment ::
  "payment_env \<Rightarrow> (gateway, PaymentDetails, PaymentResponse) handler" where
  "MakePayment env =
     server_chain gw_auth ''/proto.PaymentGateway/MakePayment''
       (\<lambda>c req w. of_rpc (ProcessPayment env c req w))"

definition GetBalanceMethod :: "(gateway, BalanceRequest, BalanceResponse) handler" where
  "GetBalanceMethod =
     server_chain gw_auth ''/proto.PaymentGateway/GetBalance'' (\<lambda>c req w. of_rpc (w, GetBalance c req w))"

definition AuthenticateMethod :: "(gateway, AuthRequest, AuthResponse) handler" where
  "AuthenticateMethod =
     server_chain gw_auth ''/proto.PaymentGateway/Authenticate''
       (\<lambda>c req w. case Authenticate (gw_auth w) req of
          (a, r) \<Rightarrow> (w\<lparr>gw_auth := a\<rparr>, Some (Some r, None)))"

definition GetTransactionStatusMethod ::
  "(int \<Rightarrow> string) \<Rightarrow> (int \<Rightarrow> string) \<Rightarrow> (gateway, string, TransactionStatusResponse) handler" where
  "GetTransactionStatusMethod format_time since =
     server_chain gw_auth ''/proto.PaymentGateway/GetTransactionStatus''
       (\<lambda>c i w. (w, Some (Some (GetTransactionStatus format_time since (gw_txs w) i), None)))"

definition ListActiveTransactionsMethod ::
  "(int \<Rightarrow> string) \<Rightarrow> string list \<Rightarrow> (gateway, bool, TransactionInfo list) handler" where
  "ListActiveTransactionsMethod format_time order =
     server_chain gw_auth ''/proto.PaymentGateway/ListActiveTransactions''
       (\<lambda>c req w. (w, Some (Some (ListActiveTransactions format_time order (gw_txs w)), None)))"

subsection \<open>The data that comes with the program\<close>

definition data_clients :: "bank_clients_file json_file" where
  "data_clients = Decoded
     [(''BankA'', [(''123456'', ''Alice''), (''987654'', ''Charlie'')]),
      (''BankB'', [(''654321'', ''Bob''), (''456789'', ''Dave'')])]"

definition data_balances :: "BalanceData list json_file" where
  "data_balances = Decoded
     [\<lparr>bd_ClientName = ''Dave'', bd_Balance = units 1292, bd_Currency = ''USD''\<rparr>,
      \<lparr>bd_ClientName = ''Alice'', bd_Balance = units 202, bd_Currency = ''USD''\<rparr>,
      \<lparr>bd_ClientName = ''Bob'', bd_Balance = units 160, bd_Currency = ''USD''\<rparr>,
      \<lparr>bd_ClientName = ''Charlie'', bd_Balance = units 453, bd_Currency = ''USD''\<rparr>]"

definition data_users :: "User list json_file" where
  "data_users = Decoded
     [\<lparr>us_Username = ''Alice'', us_Password = ''password123'', us_Roles = [''admin'', ''user'']\<rparr>,
      \<lparr>us_Username = ''Bob'', us_Password = ''securepass'', us_Roles = [''user'']\<rparr>,
      \<lparr>us_Username = ''Charlie'', us_Password = ''charliepass'', us_Roles = [''user'']\<rparr>,
      \<lparr>us_Username = ''Dave'', us_Password = ''davepass'', us_Roles = [''user'']\<rparr>]"

text \<open>The gateway and the banks right after they were started on this data.\<close>

definition started_system :: "string + gateway" where
  "started_system =
     (case start_banks data_clients data_balances of
        Inl e \<Rightarrow> Inl e
      | Inr servers \<Rightarrow>
          NewGatewayServer (LoadConfig ''config.json'') data_users data_balances data_clients servers)"

end
