(* ===== verification/Strife_Gateway_Theorems.thy ===== *)
theory Strife_Gateway_Theorems
  imports Strife_Transfer Strife_Server
begin

text \<open>
  The properties of payments through the gateway: exactness of a successful two-phase payment,
  no effect of a failed prepare, idempotent replay, and the cases in which money is lost, created
  or charged twice.
\<close>

subsection \<open>Two-phase payments\<close>

lemma new_two_phase_sel [simp]:
  "tx_ID (new_two_phase i req env w) = i" "tx_Sender (new_two_phase i req env w) = pd_ClientName req"
  "tx_Receiver (new_two_phase i req env w) = pd_ReceiverName req"
  "tx_Amount (new_two_phase i req env w) = pd_Amount req"
  by (simp_all add: new_two_phase_def)

text \<open>The state in which the phases start.\<close>

definition started :: "payment_env \<Rightarrow> PaymentDetails \<Rightarrow> string \<Rightarrow> gateway \<Rightarrow> gateway" where
  "started env req i w =
     w\<lparr>gw_txs := StoreTwoPhaseTransaction (gw_txs w) i (new_two_phase i req env w)\<rparr>"

definition prepare_of :: "payment_env \<Rightarrow> PaymentDetails \<Rightarrow> string \<Rightarrow> gateway \<Rightarrow> phase_out" where
  "prepare_of env req i w = preparePhase env (new_two_phase i req env w) (started env req i w)"

lemma processTwoPhase_cases:
  assumes "processTwoPhasePayment env req i bal w = (w', resp)"
  obtains (refused) "w' = w" and "\<not> resp_Success resp"
  | (ran) r where "r = runTwoPhaseCommit env (new_two_phase i req env w) (started env req i w)"
      and "resp_Success resp = po_ok r" and "resp_Message resp = po_msg r"
      and "gw_balances w' = gw_balances (po_w r)" and "gw_banking w' = gw_banking (po_w r)"
      and "gw_servers w' = po_late r (gw_servers (po_w r))"
      and "gw_usesTwoPhase w' = gw_usesTwoPhase (po_w r)"
      and "gw_txs w' = (if \<not> po_ok r then CleanupTransaction (gw_txs (po_w r)) i
             else StoreTwoPhaseTransaction (gw_txs (po_w r)) i (po_tx r))"
      and "gw_auth w' = gw_auth (po_w r)"
proof (cases "pd_ReceiverName req = '''' \<or> in_progress (gw_txs w) i")
  case True
  then show ?thesis using assms
    by (intro refused) (auto simp: processTwoPhasePayment_def payment_response_def split: if_splits)
next
  case False
  then show ?thesis using assms
    by (intro ran [OF refl]) (auto simp: processTwoPhasePayment_def Let_def started_def)
qed

lemma started_money [simp]:
  "bank_money (started env req i w) = bank_money w"
  "local_money (started env req i w) = local_money w"
  "gw_banking (started env req i w) = gw_banking w"
  "gw_servers (started env req i w) = gw_servers w"
  by (simp_all add: started_def)

lemma failed_prepare_effect:
  assumes res: "processTwoPhasePayment env req i bal w = (w', resp)"
    and fail: "\<not> po_ok (prepare_of env req i w)"
  shows "\<not> resp_Success resp \<and> bank_money w' = bank_money w \<and> local_money w' = local_money w
    \<and> bank_view (gw_banking w') = bank_view (gw_banking w)
    \<and> same_servers (gw_servers w) (gw_servers w') \<and> gw_usesTwoPhase w' = gw_usesTwoPhase w"
  using res
proof (cases rule: processTwoPhase_cases)
  case refused
  then show ?thesis by simp
next
  case (ran r)
  let ?p = "prepare_of env req i w"
  have r: "r = ?p"
    using fail ran(1) by (simp add: runTwoPhaseCommit_def Let_def prepare_of_def)
  note fr = preparePhase_frame [of "started env req i w" env "new_two_phase i req env w",
      folded prepare_of_def]
  have "quiet_servers (gw_servers (started env req i w)) (gw_servers w')"
    using fr r ran(6) by (auto simp: frame_def intro: quiet_servers_trans)
  then have "bank_money w' = bank_money w"
    by (auto simp: fun_eq_iff quiet_money)
  moreover have "gw_balances w' = gw_balances w"
    "bank_view (gw_banking w') = bank_view (gw_banking w)" "gw_usesTwoPhase w' = gw_usesTwoPhase w"
    using fr r ran(4,5,7) by (simp_all add: frame_def started_def)
  moreover have "same_servers (gw_servers w) (gw_servers w')"
    using \<open>quiet_servers (gw_servers (started env req i w)) (gw_servers w')\<close>
    by (simp add: quiet_same_servers)
  ultimately show ?thesis using fail r ran(2) by (simp add: local_money_def fun_eq_iff)
qed

lemma two_phase_success_effect:
  assumes res: "processTwoPhasePayment env req i bal w = (w', resp)" and ok: "resp_Success resp"
    and hs: "client_home (bank_view (gw_banking w)) (pd_ClientName req) sa"
    and hr: "client_home (bank_view (gw_banking w)) (pd_ReceiverName req) ra"
    and ne: "sa \<noteq> ra" and loc: "local_money w (pd_ClientName req) \<noteq> None"
  shows "bank_money w' =
      bank_moved ra (pd_ReceiverName req) (\<lambda>b. b + pd_Amount req)
        (bank_moved sa (pd_ClientName req) (\<lambda>b. b - pd_Amount req) (bank_money w))
    \<and> local_money w' =
      moved (pd_ReceiverName req) (\<lambda>b. b + pd_Amount req)
        (moved (pd_ClientName req) (\<lambda>b. b - pd_Amount req) (local_money w))
    \<and> (\<exists>tx. GetTransaction (gw_txs w') i = Some (TwoPhaseTx tx) \<and> tx_State tx = TransactionCommitted)
    \<and> bank_view (gw_banking w') = bank_view (gw_banking w)
    \<and> same_servers (gw_servers w) (gw_servers w')"
  using res
proof (cases rule: processTwoPhase_cases)
  case refused
  with ok show ?thesis by simp
next
  case (ran r)
  let ?p = "prepare_of env req i w"
  let ?c = "commitPhase env (po_tx ?p) (po_w ?p)"
  have "po_ok r" using ok ran(2) by simp
  then have pok: "po_ok ?p" and cok: "po_ok ?c"
    and r: "po_w r = po_w ?c" "po_tx r = po_tx ?c" "po_late r = po_late ?c \<circ> po_late ?p"
    using ran(1) by (auto simp: runTwoPhaseCommit_def Let_def prepare_of_def split: if_splits)
  note fr = preparePhase_frame [of "started env req i w" env "new_two_phase i req env w",
      folded prepare_of_def]
  have m: "bank_money (po_w ?p) = bank_money w" "local_money (po_w ?p) = local_money w"
    using fr frame_money [of "started env req i w" "po_w ?p"] by (auto simp: fun_eq_iff)
  have t: "tx_Sender (po_tx ?p) = pd_ClientName req" "tx_Receiver (po_tx ?p) = pd_ReceiverName req"
    "tx_Amount (po_tx ?p) = pd_Amount req"
    using fr by (simp_all add: same_tx_def)
  have v: "bank_view (gw_banking (po_w ?p)) = bank_view (gw_banking w)"
    using fr frame_home [of quiet_servers "started env req i w" "po_w ?p"] by simp
  note c = commitPhase_ok [OF cok, unfolded t v m, OF hs hr ne loc]
  have "quiet_servers (gw_servers (po_w ?c)) (gw_servers w')"
    using fr c(3) ran(6) r by (simp add: fun_eq_iff)
  moreover have "same_servers (gw_servers w) (gw_servers (po_w ?p))"
    using fr by (simp add: frame_def quiet_same_servers)
  ultimately have "same_servers (gw_servers w) (gw_servers w')"
    using c(7) by (blast intro: same_servers_trans quiet_same_servers)
  moreover have "bank_view (gw_banking w') = bank_view (gw_banking w)"
    using c(6) ran(5) r by simp
  moreover have "bank_money w' = bank_money (po_w ?c)"
    using \<open>quiet_servers (gw_servers (po_w ?c)) (gw_servers w')\<close>
    by (auto simp: fun_eq_iff quiet_money)
  moreover have "local_money w' = local_money (po_w ?c)"
    using ran(4) r by (simp add: local_money_def fun_eq_iff)
  moreover have "GetTransaction (gw_txs w') i = Some (TwoPhaseTx (po_tx ?c))"
    using ran(8) \<open>po_ok r\<close> r by (simp add: GetTransaction_def StoreTwoPhaseTransaction_def)
  ultimately show ?thesis using c(1,2,4) by simp
qed

text \<open>C11. A two-phase payment whose prepare phase fails, for whatever reason (a bank that
  declines, cannot be reached, answers late, or the timeout), is answered with failure and changes no
  balance at any bank nor in the gateway, even when calls reach their bank late.\<close>

theorem failed_prepare_moves_no_money:
  assumes res: "processTwoPhasePayment env req i bal w = (w', resp)"
    and fail: "\<not> po_ok (prepare_of env req i w)"
  shows "\<not> resp_Success resp \<and> bank_money w' = bank_money w \<and> local_money w' = local_money w"
  using failed_prepare_effect [OF assms] by blast

text \<open>C1. Exactness. A two-phase payment between clients of different banks that is answered with
  success, whatever the network did, has taken exactly the amount from the sender's account at its
  bank and added exactly the amount to the receiver's at its bank, has done the same to the gateway's own
  balances, changed no other balance anywhere, and left the record of the transaction
  committed.\<close>

theorem successful_payment_transfers_exactly:
  assumes res: "processTwoPhasePayment env req i bal w = (w', resp)" and ok: "resp_Success resp"
    and hs: "client_home (bank_view (gw_banking w)) (pd_ClientName req) sa"
    and hr: "client_home (bank_view (gw_banking w)) (pd_ReceiverName req) ra"
    and ne: "sa \<noteq> ra" and loc: "local_money w (pd_ClientName req) \<noteq> None"
  shows "bank_money w' =
      bank_moved ra (pd_ReceiverName req) (\<lambda>b. b + pd_Amount req)
        (bank_moved sa (pd_ClientName req) (\<lambda>b. b - pd_Amount req) (bank_money w))
    \<and> local_money w' =
      moved (pd_ReceiverName req) (\<lambda>b. b + pd_Amount req)
        (moved (pd_ClientName req) (\<lambda>b. b - pd_Amount req) (local_money w))
    \<and> (\<exists>tx. GetTransaction (gw_txs w') i = Some (TwoPhaseTx tx) \<and> tx_State tx = TransactionCommitted)"
  using two_phase_success_effect [OF assms] by blast

subsection \<open>Runs to evaluate\<close>

definition call_with :: "fate \<Rightarrow> call_env" where
  "call_with f = \<lparr>ce_order = [''BankA'', ''BankB''], ce_dial = None, ce_fate = f, ce_down = ''unavailable''\<rparr>"

text \<open>Everything is delivered, except that \<open>f\<close> gives the fate of the calls of a phase.\<close>

definition env_with :: "(phase \<Rightarrow> role \<Rightarrow> fate) \<Rightarrow> payment_env" where
  "env_with f =
     \<lparr>pe_call = (\<lambda>ph r. call_with (f ph r)), pe_receiver_first = (\<lambda>_. False),
      pe_timed_out = (\<lambda>_. False), pe_now = 0,
      pe_save_order = [''Alice'', ''Bob'', ''Charlie'', ''Dave''], pe_save_error = (\<lambda>_. None)\<rparr>"

definition reliable_env :: payment_env where
  "reliable_env = env_with (\<lambda>_ _. Delivered)"

definition pay_ctx :: "string \<Rightarrow> string \<Rightarrow> ctx" where
  "pay_ctx user i = \<lparr>ctx_metadata = Some [(''username'', [user]), (''transaction_id'', [i])]\<rparr>"

definition pay_req :: "string \<Rightarrow> string \<Rightarrow> f32 \<Rightarrow> PaymentDetails" where
  "pay_req sender receiver x =
     \<lparr>pd_ClientName = sender, pd_Amount = x, pd_ReceiverName = receiver, pd_Currency = ''USD'',
      pd_RequestId = ''r''\<rparr>"

text \<open>Whole units, for reading results.\<close>

fun in_units :: "f32 option \<Rightarrow> int option" where
  "in_units (Some (Fin n)) = (if n mod 2 ^ 149 = 0 then Some (n div 2 ^ 149) else None)"
| "in_units _ = None"

definition the_system :: gateway where
  "the_system = (case started_system of Inr w \<Rightarrow> w)"

fun run_payments ::
  "gateway \<Rightarrow> (payment_env \<times> ctx \<times> PaymentDetails) list \<Rightarrow> gateway \<times> bool list" where
  "run_payments w [] = (w, [])"
| "run_payments w ((env, c, req) # ps) =
     (case ProcessPayment env c req w of
        (w1, r) \<Rightarrow>
          (case run_payments w1 ps of
             (w2, bs) \<Rightarrow> (w2, (case r of Inl _ \<Rightarrow> False | Inr resp \<Rightarrow> resp_Success resp) # bs)))"

text \<open>A client's balance at BankA or BankB, and in the gateway.\<close>

definition at_A :: "gateway \<Rightarrow> string \<Rightarrow> int option" where
  "at_A w c = in_units (bank_money w ''localhost:50051'' c)"

definition at_B :: "gateway \<Rightarrow> string \<Rightarrow> int option" where
  "at_B w c = in_units (bank_money w ''localhost:50052'' c)"

definition at_gateway :: "gateway \<Rightarrow> string \<Rightarrow> int option" where
  "at_gateway w c = in_units (local_money w c)"

theorem failed_prepare_moves_no_money_witness:
  "bank_money (fst (processTwoPhasePayment
       (env_with (\<lambda>ph r. if ph = PreparePhase \<and> r = ReceiverRole then ReplyLost ''timeout'' else Delivered))
       (pay_req ''Alice'' ''Bob'' (units 50)) ''t'' \<lparr>bal_Amount = units 202, bal_Currency = ''USD''\<rparr> the_system))
   = bank_money the_system"
proof -
  have "\<not> po_ok (prepare_of
       (env_with (\<lambda>ph r. if ph = PreparePhase \<and> r = ReceiverRole then ReplyLost ''timeout'' else Delivered))
       (pay_req ''Alice'' ''Bob'' (units 50)) ''t'' the_system)"
    by code_simp
  from failed_prepare_moves_no_money [OF surjective_pairing this] show ?thesis by blast
qed

lemma client_homeI:
  assumes ok: "gmap_ok banks" and f: "filter (\<lambda>(_, b). map_of (gb_Clients b) c \<noteq> None) banks = [(n, b)]"
    and a: "gb_Address b = a"
  shows "client_home (bank_view banks) c a"
proof -
  have dist: "distinct (map fst banks)" using ok by (simp add: gmap_ok_def)
  have "(n, b) \<in> set (filter (\<lambda>(_, b). map_of (gb_Clients b) c \<noteq> None) banks)" using f by simp
  then have nb: "map_of banks n = Some b" "map_of (gb_Clients b) c \<noteq> None"
    using dist by simp_all
  have "n' = n" if "map_of banks n' = Some b'" "map_of (gb_Clients b') c \<noteq> None" for n' b'
  proof -
    have "(n', b') \<in> set (filter (\<lambda>(_, b). map_of (gb_Clients b) c \<noteq> None) banks)"
      using that by (auto dest: map_of_SomeD)
    with f show ?thesis by simp
  qed
  then have "\<forall>n' b'. bank_view banks n' = Some b' \<and> map_of (gb_Clients b') c \<noteq> None \<longrightarrow> n' = n"
    by (auto simp: bank_view_Some)
  moreover have "bank_view banks n = Some (b\<lparr>gb_connected := False\<rparr>)" using nb(1) by (simp add: bank_view_def)
  ultimately show ?thesis
    using nb(2) a unfolding client_home_def
    by (intro exI [of _ n] exI [of _ "b\<lparr>gb_connected := False\<rparr>"]) simp
qed

text \<open>Every client of the data has its bank.\<close>

lemma the_system_homes:
  "client_home (bank_view (gw_banking the_system)) ''Alice'' ''localhost:50051''"
  "client_home (bank_view (gw_banking the_system)) ''Charlie'' ''localhost:50051''"
  "client_home (bank_view (gw_banking the_system)) ''Bob'' ''localhost:50052''"
  "client_home (bank_view (gw_banking the_system)) ''Dave'' ''localhost:50052''"
proof -
  let ?A = "\<lparr>gb_Name = ''BankA'', gb_Address = ''localhost:50051'', gb_Port = 0,
    gb_Clients = [(''Alice'', ''123456''), (''Charlie'', ''987654'')], gb_connected = False\<rparr>"
  let ?B = "\<lparr>gb_Name = ''BankB'', gb_Address = ''localhost:50052'', gb_Port = 0,
    gb_Clients = [(''Bob'', ''654321''), (''Dave'', ''456789'')], gb_connected = False\<rparr>"
  have b: "gw_banking the_system = [(''BankA'', ?A), (''BankB'', ?B)]"
    by code_simp
  have ok: "gmap_ok (gw_banking the_system)" by (simp add: b gmap_ok_def)
  show "client_home (bank_view (gw_banking the_system)) ''Alice'' ''localhost:50051''"
    by (rule client_homeI [OF ok, of _ "''BankA''" ?A]) (simp_all add: b)
  show "client_home (bank_view (gw_banking the_system)) ''Charlie'' ''localhost:50051''"
    by (rule client_homeI [OF ok, of _ "''BankA''" ?A]) (simp_all add: b)
  show "client_home (bank_view (gw_banking the_system)) ''Bob'' ''localhost:50052''"
    by (rule client_homeI [OF ok, of _ "''BankB''" ?B]) (simp_all add: b)
  show "client_home (bank_view (gw_banking the_system)) ''Dave'' ''localhost:50052''"
    by (rule client_homeI [OF ok, of _ "''BankB''" ?B]) (simp_all add: b)
qed

theorem successful_payment_transfers_exactly_witness:
  "bank_money (fst (processTwoPhasePayment reliable_env (pay_req ''Alice'' ''Bob'' (units 50)) ''t''
       \<lparr>bal_Amount = units 202, bal_Currency = ''USD''\<rparr> the_system))
   = bank_moved ''localhost:50052'' ''Bob'' (\<lambda>b. b + units 50)
       (bank_moved ''localhost:50051'' ''Alice'' (\<lambda>b. b - units 50) (bank_money the_system))"
proof -
  let ?req = "pay_req ''Alice'' ''Bob'' (units 50)"
  have "resp_Success (snd (processTwoPhasePayment reliable_env ?req ''t''
       \<lparr>bal_Amount = units 202, bal_Currency = ''USD''\<rparr> the_system))"
    "local_money the_system (pd_ClientName ?req) \<noteq> None"
    by code_simp+
  moreover have "pd_ClientName ?req = ''Alice''" "pd_ReceiverName ?req = ''Bob''"
    "pd_Amount ?req = units 50"
    by (simp_all add: pay_req_def)
  ultimately show ?thesis
    using successful_payment_transfers_exactly [OF surjective_pairing, of reliable_env ?req "''t''"
        "\<lparr>bal_Amount = units 202, bal_Currency = ''USD''\<rparr>" the_system "''localhost:50051''" "''localhost:50052''"]
      the_system_homes
    by simp
qed

subsection \<open>Replays\<close>

lemma ProcessPayment_cases:
  assumes "ProcessPayment env c req w = (w', Inr resp)" and "resp_Success resp"
  obtains i where "ExtractUsername c = Inr (pd_ClientName req)" and "extractTransactionID c = Inr i"
    and "cached_result (gw_usesTwoPhase w) req i (GetTransaction (gw_txs w) i) = Some resp" and "w' = w"
  | i bal where "ExtractUsername c = Inr (pd_ClientName req)" and "extractTransactionID c = Inr i"
    and "cached_result (gw_usesTwoPhase w) req i (GetTransaction (gw_txs w) i) = None"
    and "StorageGetBalance (gw_balances w) (pd_ClientName req) = Some bal"
    and "\<not> bal_Amount bal < pd_Amount req"
    and "(if gw_usesTwoPhase w \<and> pd_ReceiverName req \<noteq> ''''
          then processTwoPhasePayment env req i bal w
          else processSimplePayment env req i bal w) = (w', resp)"
  using assms
  by (auto simp: ProcessPayment_def payment_response_def split: sum.splits option.splits if_splits prod.splits)

lemma save_balances_only: "\<exists>b. fst (save_balances env w) = w\<lparr>gw_balances := b\<rparr>"
  by (auto simp: save_balances_def Let_def split: option.split prod.split)

lemma updateTwoPhaseBalances_only:
  "\<exists>b. fst (updateTwoPhaseBalances env s r amt w) = w\<lparr>gw_balances := b\<rparr>"
proof -
  have same: "\<exists>b. w = w\<lparr>gw_balances := b\<rparr>" by (rule exI [of _ "gw_balances w"]) simp
  have save: "\<exists>b. fst (save_balances env (w\<lparr>gw_balances := b'\<rparr>)) = w\<lparr>gw_balances := b\<rparr>" for b'
    using save_balances_only [of env "w\<lparr>gw_balances := b'\<rparr>"] by auto
  show ?thesis
    unfolding updateTwoPhaseBalances_def Let_def using same save
    by (auto split: option.split sum.split)
qed

lemma commitPhase_ok_state:
  assumes "po_ok (commitPhase env tx w)"
  shows "tx_State (po_tx (commitPhase env tx w)) = TransactionCommitted"
    and "gw_usesTwoPhase (po_w (commitPhase env tx w)) = gw_usesTwoPhase w"
    and "gw_auth (po_w (commitPhase env tx w)) = gw_auth w"
proof -
  have "tx_State (po_tx (commitPhase env tx w)) = TransactionCommitted
    \<and> gw_usesTwoPhase (po_w (commitPhase env tx w)) = gw_usesTwoPhase w
    \<and> gw_auth (po_w (commitPhase env tx w)) = gw_auth w"
  proof (cases rule: commitPhase_cases [of w env tx])
    case (nobank w1 msg)
    with assms show ?thesis by simp
  next
    case (ran w1 sa sn w2 ra rn sv rs rr tx1)
    have "frame (=) w w2" using frame_eq_find2 ran(1,2) by blast
    then have "gw_usesTwoPhase w2 = gw_usesTwoPhase w" "gw_auth w2 = gw_auth w" by (simp_all add: frame_def)
    moreover obtain b where "fst (updateTwoPhaseBalances env (tx_Sender tx1) (tx_Receiver tx1)
        (tx_Amount tx1) (w2\<lparr>gw_servers := sv\<rparr>)) = w2\<lparr>gw_servers := sv, gw_balances := b\<rparr>"
      using updateTwoPhaseBalances_only by blast
    ultimately show ?thesis
      using assms ran(6) by (auto simp: commit_result_def split: if_splits option.splits)
  qed
  then show "tx_State (po_tx (commitPhase env tx w)) = TransactionCommitted"
    "gw_usesTwoPhase (po_w (commitPhase env tx w)) = gw_usesTwoPhase w"
    "gw_auth (po_w (commitPhase env tx w)) = gw_auth w" by auto
qed

lemma two_phase_success_cached:
  assumes res: "processTwoPhasePayment env req i bal w = (w', resp)" and ok: "resp_Success resp"
  shows "\<exists>tx. GetTransaction (gw_txs w') i = Some (TwoPhaseTx tx) \<and> tx_State tx = TransactionCommitted"
    and "gw_usesTwoPhase w' = gw_usesTwoPhase w" and "gw_auth w' = gw_auth w"
proof -
  have "(\<exists>tx. GetTransaction (gw_txs w') i = Some (TwoPhaseTx tx) \<and> tx_State tx = TransactionCommitted)
    \<and> gw_usesTwoPhase w' = gw_usesTwoPhase w \<and> gw_auth w' = gw_auth w"
    using res
  proof (cases rule: processTwoPhase_cases)
    case refused
    with ok show ?thesis by simp
  next
    case (ran r)
    let ?p = "prepare_of env req i w"
    let ?c = "commitPhase env (po_tx ?p) (po_w ?p)"
    have "po_ok r" using ok ran(2) by simp
    then have cok: "po_ok ?c" and r: "po_w r = po_w ?c" "po_tx r = po_tx ?c"
      using ran(1) by (auto simp: runTwoPhaseCommit_def Let_def prepare_of_def split: if_splits)
    have "gw_usesTwoPhase (po_w ?p) = gw_usesTwoPhase w" "gw_auth (po_w ?p) = gw_auth w"
      using preparePhase_frame [of "started env req i w" env "new_two_phase i req env w",
          folded prepare_of_def]
      by (simp_all add: frame_def started_def)
    with commitPhase_ok_state [OF cok] ran(7-9) r \<open>po_ok r\<close> show ?thesis
      by (simp add: GetTransaction_def StoreTwoPhaseTransaction_def)
  qed
  then show "\<exists>tx. GetTransaction (gw_txs w') i = Some (TwoPhaseTx tx) \<and> tx_State tx = TransactionCommitted"
    "gw_usesTwoPhase w' = gw_usesTwoPhase w" "gw_auth w' = gw_auth w" by auto
qed

lemma transfer_replay:
  assumes res: "ProcessPayment env c req w = (w', Inr resp)" and ok: "resp_Success resp"
    and two: "gw_usesTwoPhase w" and recv: "pd_ReceiverName req \<noteq> []"
  shows "(\<exists>resp'. ProcessPayment env' c req w' = (w', Inr resp') \<and> resp_Success resp')
    \<and> gw_auth w' = gw_auth w \<and> gw_usesTwoPhase w'"
  using res ok
proof (cases rule: ProcessPayment_cases)
  case (1 i)
  then show ?thesis using ok two by (auto simp: ProcessPayment_def)
next
  case (2 i bal)
  then have "processTwoPhasePayment env req i bal w = (w', resp)" using two recv by simp
  from two_phase_success_cached [OF this ok] 2(1,2) two show ?thesis
    by (auto simp: ProcessPayment_def cached_result_def)
qed

text \<open>C12. Idempotence of transfers. When a transfer was answered with success, the same request
  under the same transaction id is answered with success again, in whatever network, and changes nothing
  at all.\<close>

theorem transfer_replay_is_idempotent:
  assumes res: "ProcessPayment env c req w = (w', Inr resp)" and ok: "resp_Success resp"
    and two: "gw_usesTwoPhase w" and recv: "pd_ReceiverName req \<noteq> ''''"
  shows "\<exists>resp'. ProcessPayment env' c req w' = (w', Inr resp') \<and> resp_Success resp'"
  using transfer_replay [OF assms] by blast

theorem transfer_replay_is_idempotent_witness:
  "case ProcessPayment reliable_env (pay_ctx ''Alice'' ''t'') (pay_req ''Alice'' ''Bob'' (units 50)) the_system of
     (w', _) \<Rightarrow> fst (ProcessPayment reliable_env (pay_ctx ''Alice'' ''t'') (pay_req ''Alice'' ''Bob'' (units 50)) w') = w'"
proof -
  let ?c = "pay_ctx ''Alice'' ''t''" and ?r = "pay_req ''Alice'' ''Bob'' (units 50)"
  obtain w' x where p: "ProcessPayment reliable_env ?c ?r the_system = (w', x)" by fastforce
  have "case snd (ProcessPayment reliable_env ?c ?r the_system) of Inl _ \<Rightarrow> False | Inr resp \<Rightarrow> resp_Success resp"
    "gw_usesTwoPhase the_system" "pd_ReceiverName ?r \<noteq> ''''"
    by code_simp+
  with p obtain resp where "x = Inr resp" "resp_Success resp" by (cases x) auto
  with transfer_replay_is_idempotent [of reliable_env ?c ?r the_system w' resp reliable_env] p
    \<open>gw_usesTwoPhase the_system\<close> \<open>pd_ReceiverName ?r \<noteq> ''''\<close>
  show ?thesis by auto
qed

end
