(* ===== verification/Strife_Payment_Faults.thy ===== *)
theory Strife_Payment_Faults
  imports Strife_Gateway_Theorems
begin

text \<open>
  Payments that do not do what the README promises: transfers inside one bank, a lost commit
  answer, the replay of a simple payment, and amounts that no check refuses.
\<close>

subsection \<open>Transfers inside one bank\<close>

text \<open>Two successful calls at one address are executed one after the other on the same server.\<close>

lemma run_both_same_address:
  assumes "run_both rf cs cr sv = (sv', rs, rr)" and "phase_error s r rs rr = None"
    and "pc_address cs = a" and "pc_address cr = a"
  obtains c1 c2 b b1 x b2 y where "(c1, c2) = (if rf then (cr, cs) else (cs, cr))"
    and "map_of sv a = Some b"
    and "pc_method c1 b (pc_request c1) = Some (b1, x)" and "tpr_Success x"
    and "pc_method c2 b1 (pc_request c2) = Some (b2, y)" and "tpr_Success y"
proof -
  let ?c1 = "if rf then cr else cs" and ?c2 = "if rf then cs else cr"
  obtain sv1 e1 e2 where c1: "run_call ?c1 sv = (sv1, True, e1)" and c2: "run_call ?c2 sv1 = (sv', True, e2)"
    using assms(1) phase_error_None [OF assms(2)]
    by (cases rf; cases rs; cases rr) (auto simp: run_both_def split: prod.splits)
  have ad: "pc_address ?c1 = a" "pc_address ?c2 = a" using assms(3,4) by simp_all
  from c1 obtain b b1 x where 1: "map_of sv a = Some b" "pc_method ?c1 b (pc_request ?c1) = Some (b1, x)"
    "tpr_Success x" "sv1 = gput a b1 sv"
    unfolding ad(1) [symmetric] by (rule run_call_ok)
  from c2 obtain b' b2 y where 2: "map_of sv1 a = Some b'" "pc_method ?c2 b' (pc_request ?c2) = Some (b2, y)"
    "tpr_Success y"
    unfolding ad(2) [symmetric] by (rule run_call_ok)
  have "b' = b1" using 1(4) 2(1) by simp
  with 2(2) have "pc_method ?c2 b1 (pc_request ?c2) = Some (b2, y)" by simp
  then show ?thesis by (intro that [OF _ 1(1,2,3) _ 2(3)]) (auto split: if_splits)
qed

lemma commitPhase_same_bank:
  assumes hs: "client_home (bank_view (gw_banking w)) (tx_Sender tx) a"
    and hr: "client_home (bank_view (gw_banking w)) (tx_Receiver tx) a"
  shows "\<not> po_ok (commitPhase env tx w)"
proof
  assume ok: "po_ok (commitPhase env tx w)"
  show False
  proof (cases rule: commitPhase_cases [of w env tx])
    case (nobank w1 msg)
    with ok show ?thesis by simp
  next
    case (ran w1 sa' sn w2 ra' rn sv rs rr tx1)
    let ?cs = "fst (commit_calls env tx sa' ra')"
    let ?cr = "snd (commit_calls env tx sa' ra')"
    have fr: "frame (=) w w1" using frame_eq_find2 ran(1,2) by blast
    have "sa' = a" by (rule find_bank_home [OF ran(1) hs])
    moreover have "ra' = a"
      by (rule find_bank_home [OF ran(2)]) (use hr frame_home [OF fr] in simp)
    ultimately have ad: "pc_address ?cs = a" "pc_address ?cr = a" by simp_all
    have "phase_error ''sender bank commit failed: '' ''receiver bank commit failed: '' rs rr = None"
      using ok ran(6) by (auto simp: commit_result_def split: if_splits option.splits)
    then obtain c1 c2 b b1 x b2 y where
      cc: "(c1, c2) = (if pe_receiver_first env CommitPhase then (?cr, ?cs) else (?cs, ?cr))"
      and 1: "pc_method c1 b (pc_request c1) = Some (b1, x)" "tpr_Success x"
      and 2: "pc_method c2 b1 (pc_request c2) = Some (b2, y)" "tpr_Success y"
      by (rule run_both_same_address [OF ran(3) _ ad])
    show False
    proof (cases "pe_receiver_first env CommitPhase")
      case True
      then have "CommitCredit b (pc_request ?cr) = Some (b1, x)" "CommitDebit b1 (pc_request ?cs) = Some (b2, y)"
        using cc 1 2 by simp_all
      then show False
        using credit.commit_yes [of b "pc_request ?cr" b1 x] debit.commit_yes [of b1 "pc_request ?cs" b2 y] 1 2
        by simp
    next
      case False
      then have "CommitDebit b (pc_request ?cs) = Some (b1, x)" "CommitCredit b1 (pc_request ?cr) = Some (b2, y)"
        using cc 1 2 by simp_all
      then show False
        using debit.commit_yes [of b "pc_request ?cs" b1 x] credit.commit_yes [of b1 "pc_request ?cr" b2 y] 1 2
        by simp
    qed
  qed
qed

text \<open>C37. A transfer between two clients of the same bank is never answered with success, whatever the
  network does: both sides share one transaction record at the bank, so the second of the two commits is
  always refused.\<close>

theorem same_bank_transfer_never_succeeds:
  assumes res: "processTwoPhasePayment env req i bal w = (w', resp)"
    and hs: "client_home (bank_view (gw_banking w)) (pd_ClientName req) a"
    and hr: "client_home (bank_view (gw_banking w)) (pd_ReceiverName req) a"
  shows "\<not> resp_Success resp"
  using res
proof (cases rule: processTwoPhase_cases)
  case refused
  then show ?thesis by simp
next
  case (ran r)
  let ?p = "prepare_of env req i w"
  note fr = preparePhase_frame [of "started env req i w" env "new_two_phase i req env w",
      folded prepare_of_def]
  have "bank_view (gw_banking (po_w ?p)) = bank_view (gw_banking w)"
    using fr frame_home [of quiet_servers "started env req i w" "po_w ?p"] by simp
  moreover have "tx_Sender (po_tx ?p) = pd_ClientName req" "tx_Receiver (po_tx ?p) = pd_ReceiverName req"
    using fr by (simp_all add: same_tx_def)
  ultimately have "\<not> po_ok (commitPhase env (po_tx ?p) (po_w ?p))"
    by (intro commitPhase_same_bank [of _ _ a]) (use hs hr in simp_all)
  then have "\<not> po_ok r"
    using ran(1) by (simp add: runTwoPhaseCommit_def Let_def prepare_of_def)
  with ran(2) show ?thesis by simp
qed

theorem same_bank_transfer_never_succeeds_witness:
  "\<not> resp_Success (snd (processTwoPhasePayment reliable_env (pay_req ''Alice'' ''Charlie'' (units 50)) ''t''
       \<lparr>bal_Amount = units 202, bal_Currency = ''USD''\<rparr> the_system))"
proof -
  have "pd_ClientName (pay_req ''Alice'' ''Charlie'' (units 50)) = ''Alice''"
    "pd_ReceiverName (pay_req ''Alice'' ''Charlie'' (units 50)) = ''Charlie''"
    by (simp_all add: pay_req_def)
  then show ?thesis
    using same_bank_transfer_never_succeeds [OF surjective_pairing] the_system_homes by metis
qed

text \<open>That refused transfer still moves money. On a reliable network Alice's transfer of 50 to
  Charlie, both at BankA, is answered with failure; BankA has taken the 50 from Alice and given them to nobody, and
  the gateway still shows both old balances.\<close>

lemma same_bank_transfer_loses_money:
  "case run_payments the_system
       [(reliable_env, pay_ctx ''Alice'' ''t'', pay_req ''Alice'' ''Charlie'' (units 50))] of
     (w, answers) \<Rightarrow>
       answers = [False] \<and> at_A the_system ''Alice'' = Some 202 \<and> at_A the_system ''Charlie'' = Some 453
       \<and> at_A w ''Alice'' = Some 152 \<and> at_A w ''Charlie'' = Some 453
       \<and> at_gateway w ''Alice'' = Some 202 \<and> at_gateway w ''Charlie'' = Some 453"
  by code_simp

subsection \<open>Lost answers, replays and odd amounts\<close>

text \<open>A retry that charges again, under the transaction id of the first attempt. A transfer of 50 whose second
  commit does not reach its bank is answered with failure although the sender was debited, and its record is
  removed; the retry debits the sender again: Alice pays 100, Bob receives 50, and the gateway books 50.\<close>

lemma lost_commit_is_charged_again:
  "case run_payments the_system
       [(env_with (\<lambda>ph r. if ph = CommitPhase \<and> r = ReceiverRole then Unreached ''unavailable'' else Delivered),
         pay_ctx ''Alice'' ''t'', pay_req ''Alice'' ''Bob'' (units 50)),
        (reliable_env, pay_ctx ''Alice'' ''t'', pay_req ''Alice'' ''Bob'' (units 50))] of
     (w, answers) \<Rightarrow>
       answers = [False, True] \<and> at_A w ''Alice'' = Some (202 - 100) \<and> at_B w ''Bob'' = Some (160 + 50)
       \<and> at_gateway w ''Alice'' = Some (202 - 50)"
  by code_simp

text \<open>No check keeps the amount of a payment in bounds. Alice transfers -150 to Bob, the transfer succeeds
  and Bob's money is Alice's. And NaN is an amount like any other, it passes every comparison: Alice, who owns
  202, pays NaN, her balance is NaN from then on and covers every amount, and she transfers a million to Bob.\<close>

lemma amounts_are_not_checked:
  "(case run_payments the_system
       [(reliable_env, pay_ctx ''Alice'' ''t'', pay_req ''Alice'' ''Bob'' (units (- 150)))] of
     (w, answers) \<Rightarrow> answers = [True] \<and> at_A w ''Alice'' = Some (202 + 150) \<and> at_B w ''Bob'' = Some (160 - 150))
   \<and> (case run_payments the_system
       [(reliable_env, pay_ctx ''Alice'' ''t'', pay_req ''Alice'' '''' NaN),
        (reliable_env, pay_ctx ''Alice'' ''u'', pay_req ''Alice'' ''Bob'' (units 1000000))] of
     (w, answers) \<Rightarrow> answers = [True, True] \<and> bank_money w ''localhost:50051'' ''Alice'' = Some NaN
       \<and> local_money w ''Alice'' = Some NaN \<and> at_B w ''Bob'' = Some 1000160)"
  by (intro conjI; code_simp)

end
