(* ===== verification/Strife_Books.thy ===== *)
theory Strife_Books
  imports Strife_Gateway_Theorems Strife_Bank_Theorems
begin

text \<open>
  Payments on a reliable network: every call is delivered, every dial succeeds, the loops over the banks
  see all of them and no phase times out. Then a covered transfer succeeds, and the gateway's own balances agree with the
  banks' after any payment between different banks.
\<close>

definition reliable :: "payment_env \<Rightarrow> (string \<Rightarrow> Bank option) \<Rightarrow> bool" where
  "reliable env view \<longleftrightarrow>
     (\<forall>ph r. ce_fate (pe_call env ph r) = Delivered \<and> ce_dial (pe_call env ph r) = None
        \<and> dom view \<subseteq> set (ce_order (pe_call env ph r)))
     \<and> (\<forall>ph. \<not> pe_timed_out env ph)"

lemma bank_view_dom: "dom (bank_view banks) = dom (map_of banks)"
  by (auto simp: bank_view_def)

lemma getBankNameForClient_total:
  assumes "client_home (bank_view banks) c a" and "dom (bank_view banks) \<subseteq> set order"
  obtains n b where "getBankNameForClient order banks c = Inr n" and "map_of banks n = Some b"
    and "gb_Address b = a" and "map_of (gb_Clients b) c \<noteq> None"
proof -
  let ?p = "\<lambda>n. case map_of banks n of None \<Rightarrow> False | Some b \<Rightarrow> map_of (gb_Clients b) c \<noteq> None"
  from assms(1) obtain n0 b0 where "map_of banks n0 = Some b0" "map_of (gb_Clients b0) c \<noteq> None"
    unfolding client_home_def by (auto simp: bank_view_Some)
  moreover from this assms(2) have "n0 \<in> set order" by (auto simp: bank_view_dom)
  ultimately have "List.find ?p order \<noteq> None" by (auto simp: find_None_iff)
  then obtain n where n: "List.find ?p order = Some n" by auto
  then have g: "getBankNameForClient order banks c = Inr n" by (simp add: getBankNameForClient_def)
  from n have "?p n" by (auto simp: find_Some_iff)
  then obtain b where "map_of banks n = Some b" "map_of (gb_Clients b) c \<noteq> None"
    by (auto split: option.splits)
  with getBankNameForClient_home [OF assms(1) g] g show ?thesis by (intro that) auto
qed

lemma find_bank_reliable:
  assumes "reliable env (bank_view (gw_banking w))" and "client_home (bank_view (gw_banking w)) c a"
  obtains w1 n where "find_bank (pe_call env ph r) c w = (w1, Inr (a, n))"
proof -
  have "dom (bank_view (gw_banking w)) \<subseteq> set (ce_order (pe_call env ph r))" "ce_dial (pe_call env ph r) = None"
    using assms(1) by (simp_all add: reliable_def)
  with getBankNameForClient_total [OF assms(2)] obtain n b where
    "getBankNameForClient (ce_order (pe_call env ph r)) (gw_banking w) c = Inr n"
    "map_of (gw_banking w) n = Some b" "gb_Address b = a" by metis
  with \<open>ce_dial (pe_call env ph r) = None\<close> show ?thesis
    by (intro that [of "fst (find_bank (pe_call env ph r) c w)" "gb_Name b"])
      (auto simp: find_bank_def GetBankForClient_def connect_bank_def)
qed

lemma run_call_delivered:
  assumes "ce_fate (pc_env c) = Delivered" and "map_of sv (pc_address c) = Some b"
    and "pc_method c b (pc_request c) = Some (b', r)" and "tpr_Success r"
  shows "run_call c sv = (gput (pc_address c) b' sv, True, None)"
  using assms by (simp add: run_call_def grpc_call_def bank_rpc_def execute_call_def grpc_result_def)

lemma run_both_delivered:
  assumes "ce_fate (pc_env cs) = Delivered" and "map_of sv (pc_address cs) = Some b"
    and "pc_method cs b (pc_request cs) = Some (b', x)" and "tpr_Success x"
    and "ce_fate (pc_env cr) = Delivered" and "map_of sv (pc_address cr) = Some d"
    and "pc_method cr d (pc_request cr) = Some (d', y)" and "tpr_Success y"
    and "pc_address cs \<noteq> pc_address cr"
  obtains sv' where "run_both rf cs cr sv = (sv', (True, None), (True, None))"
    and "map_of sv' = (map_of sv)(pc_address cs \<mapsto> b', pc_address cr \<mapsto> d')"
proof (cases rf)
  case True
  have "run_call cs (gput (pc_address cr) d' sv) =
      (gput (pc_address cs) b' (gput (pc_address cr) d' sv), True, None)"
    by (rule run_call_delivered [OF assms(1) _ assms(3,4)]) (use assms in auto)
  with True run_call_delivered [OF assms(5-8)] show ?thesis
    by (intro that [of "gput (pc_address cs) b' (gput (pc_address cr) d' sv)"])
      (use assms(9) in \<open>simp_all add: run_both_def fun_upd_twist\<close>)
next
  case False
  have "run_call cr (gput (pc_address cs) b' sv) =
      (gput (pc_address cr) d' (gput (pc_address cs) b' sv), True, None)"
    by (rule run_call_delivered [OF assms(5) _ assms(7,8)]) (use assms in auto)
  with False run_call_delivered [OF assms(1-4)] show ?thesis
    by (intro that [of "gput (pc_address cr) d' (gput (pc_address cs) b' sv)"])
      (simp_all add: run_both_def)
qed

lemma preparePhase_forward:
  assumes "find_bank (pe_call env PreparePhase SenderRole) (tx_Sender tx) w = (w1, Inr (sa, sn))"
    and "find_bank (pe_call env PreparePhase ReceiverRole) (tx_Receiver tx) w1 = (w2, Inr (ra, rn))"
    and "run_both (pe_receiver_first env PreparePhase) (fst (prepare_calls env tx sa ra))
           (snd (prepare_calls env tx sa ra)) (gw_servers w2) = (sv, (True, None), (True, None))"
    and "\<not> pe_timed_out env PreparePhase"
  shows "po_ok (preparePhase env tx w)"
  using assms record_votes_all [of True True "pe_receiver_first env PreparePhase" sn rn "tx_PrepareVotes tx"]
  by (simp add: preparePhase_def Let_def phase_error_def)

lemma commitPhase_forward:
  assumes "find_bank (pe_call env CommitPhase SenderRole) (tx_Sender tx) w = (w1, Inr (sa, sn))"
    and "find_bank (pe_call env CommitPhase ReceiverRole) (tx_Receiver tx) w1 = (w2, Inr (ra, rn))"
    and "run_both (pe_receiver_first env CommitPhase) (fst (commit_calls env tx sa ra))
           (snd (commit_calls env tx sa ra)) (gw_servers w2) = (sv, (True, None), (True, None))"
    and "\<not> pe_timed_out env CommitPhase"
  shows "po_ok (commitPhase env tx w)"
  using assms record_votes_all [of True True "pe_receiver_first env CommitPhase" sn rn "tx_CommitVotes tx"]
  by (simp add: commitPhase_def Let_def phase_error_def)

subsection \<open>After a successful prepare the commit succeeds\<close>

lemma reliable_fate: "reliable env v \<Longrightarrow> ce_fate (pe_call env ph r) = Delivered"
  by (simp add: reliable_def)

lemma preparePhase_prepared:
  assumes ok: "po_ok (preparePhase env tx w)"
    and hs: "client_home (bank_view (gw_banking w)) (tx_Sender tx) sa"
    and hr: "client_home (bank_view (gw_banking w)) (tx_Receiver tx) ra" and ne: "sa \<noteq> ra"
  obtains b d where "map_of (gw_servers (po_w (preparePhase env tx w))) sa = Some b"
    and "tx_state b (tx_ID tx) = Some ''prepared''"
    and "map_of (gw_servers (po_w (preparePhase env tx w))) ra = Some d"
    and "tx_state d (tx_ID tx) = Some ''prepared''"
proof (cases rule: preparePhase_cases [of w tx env])
  case (failed tx1 w1 msg late)
  with ok show ?thesis by simp
next
  case (prepared w1 sa' sn w2 ra' rn sv rs rr tx1 late)
  let ?cs = "fst (prepare_calls env tx sa' ra')"
  let ?cr = "snd (prepare_calls env tx sa' ra')"
  have fr: "frame (=) w w1" using frame_eq_find2 prepared(1,2) by blast
  have "sa' = sa" by (rule find_bank_home [OF prepared(1) hs])
  moreover have "ra' = ra"
    by (rule find_bank_home [OF prepared(2)]) (use hr frame_home [OF fr] in simp)
  ultimately have ad: "pc_address ?cs = sa" "pc_address ?cr = ra" by simp_all
  with ne have "pc_address ?cs \<noteq> pc_address ?cr" by simp
  then obtain b b' x d d' y where
    b: "PrepareDebit b (pc_request ?cs) = Some (b', x)" "tpr_Success x"
    and d: "PrepareCredit d (pc_request ?cr) = Some (d', y)" "tpr_Success y"
    and sv: "map_of sv = (map_of (gw_servers w2))(sa \<mapsto> b', ra \<mapsto> d')"
    using run_both_ok [OF prepared(3,4)] ad
    by (metis (no_types, lifting) fst_conv phase_call_sel(1) snd_conv)
  have "tx_state b' (tx_ID tx) = Some ''prepared''" using debit.prepare_yes [OF b] by simp
  moreover have "tx_state d' (tx_ID tx) = Some ''prepared''" using credit.prepare_yes [OF d] by simp
  moreover have "gw_servers (po_w (preparePhase env tx w)) = sv" using prepared(9) by simp
  ultimately show ?thesis using sv ne by (intro that [of b' d']) simp_all
qed

lemma commit_after_prepare:
  assumes rel: "reliable env (bank_view (gw_banking w))"
    and hs: "client_home (bank_view (gw_banking w)) (tx_Sender tx) sa"
    and hr: "client_home (bank_view (gw_banking w)) (tx_Receiver tx) ra" and ne: "sa \<noteq> ra"
    and b: "map_of (gw_servers w) sa = Some b" "tx_state b (tx_ID tx) = Some ''prepared''"
    and d: "map_of (gw_servers w) ra = Some d" "tx_state d (tx_ID tx) = Some ''prepared''"
  shows "po_ok (commitPhase env tx w)"
proof -
  obtain w1 sn where f1: "find_bank (pe_call env CommitPhase SenderRole) (tx_Sender tx) w = (w1, Inr (sa, sn))"
    by (rule find_bank_reliable [OF rel hs])
  have fr1: "bank_view (gw_banking w1) = bank_view (gw_banking w)" "gw_servers w1 = gw_servers w"
    using find_bank_frame [of w "pe_call env CommitPhase SenderRole" "tx_Sender tx"] f1
    by (auto simp: frame_def)
  obtain w2 rn where f2: "find_bank (pe_call env CommitPhase ReceiverRole) (tx_Receiver tx) w1 = (w2, Inr (ra, rn))"
    by (rule find_bank_reliable [of env w1]) (use rel hr fr1 in simp_all)
  have sv2: "gw_servers w2 = gw_servers w"
    using find_bank_frame [of w1 "pe_call env CommitPhase ReceiverRole" "tx_Receiver tx"] f2 fr1
    by (auto simp: frame_def)
  let ?cs = "fst (commit_calls env tx sa ra)"
  let ?cr = "snd (commit_calls env tx sa ra)"
  obtain b' x where b': "CommitDebit b (pc_request ?cs) = Some (b', x)" "tpr_Success x"
    using debit.commit_prepared [of b "pc_request ?cs"] b(2) by auto
  obtain d' y where d': "CommitCredit d (pc_request ?cr) = Some (d', y)" "tpr_Success y"
    using credit.commit_prepared [of d "pc_request ?cr"] d(2) by auto
  obtain sv where "run_both (pe_receiver_first env CommitPhase) ?cs ?cr (gw_servers w2)
      = (sv, (True, None), (True, None))"
    by (rule run_both_delivered [of ?cs "gw_servers w2" b b' x ?cr d d' y])
      (use b d b' d' sv2 ne reliable_fate [OF rel] in simp_all)
  moreover have "\<not> pe_timed_out env CommitPhase" using rel by (simp add: reliable_def)
  ultimately show ?thesis by (rule commitPhase_forward [OF f1 f2])
qed

lemma runTwoPhaseCommit_reliable:
  assumes rel: "reliable env (bank_view (gw_banking w))"
    and hs: "client_home (bank_view (gw_banking w)) (tx_Sender tx) sa"
    and hr: "client_home (bank_view (gw_banking w)) (tx_Receiver tx) ra" and ne: "sa \<noteq> ra"
  shows "po_ok (runTwoPhaseCommit env tx w) \<longleftrightarrow> po_ok (preparePhase env tx w)"
proof (cases "po_ok (preparePhase env tx w)")
  case True
  let ?p = "preparePhase env tx w"
  obtain b d where bd: "map_of (gw_servers (po_w ?p)) sa = Some b" "tx_state b (tx_ID tx) = Some ''prepared''"
    "map_of (gw_servers (po_w ?p)) ra = Some d" "tx_state d (tx_ID tx) = Some ''prepared''"
    by (rule preparePhase_prepared [OF True hs hr ne])
  have fr: "bank_view (gw_banking (po_w ?p)) = bank_view (gw_banking w)" "same_tx tx (po_tx ?p)"
    using preparePhase_frame [of w env tx] frame_home by blast+
  have "po_ok (commitPhase env (po_tx ?p) (po_w ?p))"
    by (rule commit_after_prepare [where b = b and d = d and sa = sa and ra = ra])
      (use rel hs hr ne bd fr in \<open>simp_all add: same_tx_def\<close>)
  with True show ?thesis by (simp add: runTwoPhaseCommit_def Let_def)
next
  case False
  then show ?thesis by (simp add: runTwoPhaseCommit_def Let_def)
qed

subsection \<open>A covered transfer succeeds\<close>

text \<open>C17. On a reliable network a transfer between clients of different banks succeeds when its id is
  not in progress, both banks are up and know their client, and the sender's balance at its bank is
  not smaller than the amount.\<close>

theorem covered_transfer_succeeds:
  assumes rel: "reliable env (bank_view (gw_banking w))"
    and hs: "client_home (bank_view (gw_banking w)) (pd_ClientName req) sa"
    and hr: "client_home (bank_view (gw_banking w)) (pd_ReceiverName req) ra" and ne: "sa \<noteq> ra"
    and b: "map_of (gw_servers w) sa = Some b" "has_client b (pd_ClientName req)"
      "\<not> balance_of b (pd_ClientName req) < pd_Amount req"
    and d: "map_of (gw_servers w) ra = Some d" "has_client d (pd_ReceiverName req)"
    and new: "\<not> in_progress (gw_txs w) i" and recv: "pd_ReceiverName req \<noteq> ''''"
  shows "resp_Success (snd (processTwoPhasePayment env req i bal w))"
proof -
  let ?tx = "new_two_phase i req env w" and ?w = "started env req i w"
  obtain w1 sn where f1: "find_bank (pe_call env PreparePhase SenderRole) (tx_Sender ?tx) ?w = (w1, Inr (sa, sn))"
    by (rule find_bank_reliable [of env ?w "tx_Sender ?tx" sa]) (use rel hs in simp_all)
  have fr1: "bank_view (gw_banking w1) = bank_view (gw_banking w)" "gw_servers w1 = gw_servers w"
    using find_bank_frame [of ?w "pe_call env PreparePhase SenderRole" "tx_Sender ?tx"] f1
    by (auto simp: frame_def)
  obtain w2 rn where f2: "find_bank (pe_call env PreparePhase ReceiverRole) (tx_Receiver ?tx) w1 = (w2, Inr (ra, rn))"
    by (rule find_bank_reliable [of env w1 "tx_Receiver ?tx" ra]) (use rel hr fr1 in simp_all)
  have sv2: "gw_servers w2 = gw_servers w"
    using find_bank_frame [of w1 "pe_call env PreparePhase ReceiverRole" "tx_Receiver ?tx"] f2 fr1
    by (auto simp: frame_def)
  let ?cs = "fst (prepare_calls env ?tx sa ra)"
  let ?cr = "snd (prepare_calls env ?tx sa ra)"
  have b': "PrepareDebit b (pc_request ?cs) = Some (store_prepared b (pc_request ?cs), tp_response True ''Debit prepared'')"
    using b(2,3) by (simp add: PrepareDebit_def balance_of_def)
  have d': "PrepareCredit d (pc_request ?cr) = Some (store_prepared d (pc_request ?cr), tp_response True ''Credit prepared'')"
    using d(2) by (simp add: PrepareCredit_def)
  obtain sv where "run_both (pe_receiver_first env PreparePhase) ?cs ?cr (gw_servers w2)
      = (sv, (True, None), (True, None))"
    by (rule run_both_delivered [of ?cs "gw_servers w2" b "store_prepared b (pc_request ?cs)"
          "tp_response True ''Debit prepared''" ?cr d "store_prepared d (pc_request ?cr)"
          "tp_response True ''Credit prepared''"])
      (use b d b' d' sv2 ne reliable_fate [OF rel] in simp_all)
  moreover have "\<not> pe_timed_out env PreparePhase" using rel by (simp add: reliable_def)
  ultimately have "po_ok (preparePhase env ?tx ?w)" by (rule preparePhase_forward [OF f1 f2])
  then have "po_ok (runTwoPhaseCommit env ?tx ?w)"
    using runTwoPhaseCommit_reliable [of env ?w ?tx sa ra] rel hs hr ne by simp
  with new recv show ?thesis
    by (simp add: processTwoPhasePayment_def Let_def started_def)
qed

lemma reliable_env_reliable: "reliable reliable_env (bank_view (gw_banking the_system))"
proof -
  have "dom (bank_view (gw_banking the_system)) = fst ` set (gw_banking the_system)"
    by (simp add: bank_view_dom dom_map_of_conv_image_fst)
  also have "\<dots> = set [''BankA'', ''BankB'']" by code_simp
  finally show ?thesis by (simp add: reliable_def reliable_env_def env_with_def call_with_def)
qed

theorem covered_transfer_succeeds_witness:
  "resp_Success (snd (processTwoPhasePayment reliable_env (pay_req ''Alice'' ''Bob'' (units 50)) ''t''
       \<lparr>bal_Amount = units 202, bal_Currency = ''USD''\<rparr> the_system))"
proof -
  let ?req = "pay_req ''Alice'' ''Bob'' (units 50)"
  have req: "pd_ClientName ?req = ''Alice''" "pd_ReceiverName ?req = ''Bob''" "pd_Amount ?req = units 50"
    by (simp_all add: pay_req_def)
  have sv: "case map_of (gw_servers the_system) ''localhost:50051'' of None \<Rightarrow> False
      | Some b \<Rightarrow> has_client b ''Alice'' \<and> \<not> balance_of b ''Alice'' < units 50"
    "case map_of (gw_servers the_system) ''localhost:50052'' of None \<Rightarrow> False
      | Some d \<Rightarrow> has_client d ''Bob''"
    "\<not> in_progress (gw_txs the_system) ''t''"
    by code_simp+
  then obtain b d where "map_of (gw_servers the_system) ''localhost:50051'' = Some b" "has_client b ''Alice''"
    "\<not> balance_of b ''Alice'' < units 50"
    "map_of (gw_servers the_system) ''localhost:50052'' = Some d" "has_client d ''Bob''"
    by (auto split: option.splits)
  then show ?thesis
    by (intro covered_transfer_succeeds [OF reliable_env_reliable, of _ "''localhost:50051''" "''localhost:50052''" b d])
      (use the_system_homes sv req in simp_all)
qed

subsection \<open>Simple payments\<close>

text \<open>Every account number the gateway has for a client belongs to that client at its bank.\<close>

definition accounts_linked :: "(string \<Rightarrow> Bank option) \<Rightarrow> servers \<Rightarrow> bool" where
  "accounts_linked view sv \<longleftrightarrow>
     (\<forall>n bk c account b. view n = Some bk \<longrightarrow> map_of (gb_Clients bk) c = Some account \<longrightarrow>
        map_of sv (gb_Address bk) = Some b \<longrightarrow> gget '''' (bank_clients b) account = c)"

lemma accounts_linked_same:
  assumes "accounts_linked view sv" and "same_servers sv sv'"
  shows "accounts_linked view sv'"
  unfolding accounts_linked_def
proof (intro allI impI)
  fix n bk c account b
  assume v: "view n = Some bk" "map_of (gb_Clients bk) c = Some account"
    and b: "map_of sv' (gb_Address bk) = Some b"
  have "rel_option same_bank (map_of sv (gb_Address bk)) (map_of sv' (gb_Address bk))"
    using assms(2) by (simp add: same_servers_def)
  then obtain b0 where "map_of sv (gb_Address bk) = Some b0" "same_bank b0 b"
    using b by (cases "map_of sv (gb_Address bk)") auto
  with assms(1) v show "gget '''' (bank_clients b) account = c"
    by (auto simp: accounts_linked_def same_bank_def)
qed

definition unchanged :: "gateway \<Rightarrow> gateway \<Rightarrow> bool" where
  "unchanged w w' \<longleftrightarrow>
     bank_money w' = bank_money w \<and> local_money w' = local_money w
     \<and> bank_view (gw_banking w') = bank_view (gw_banking w)
     \<and> same_servers (gw_servers w) (gw_servers w') \<and> gw_usesTwoPhase w' = gw_usesTwoPhase w"

lemma unchanged_refl [simp]: "unchanged w w"
  by (simp add: unchanged_def)

lemma unchanged_banking:
  "bank_view banks = bank_view (gw_banking w) \<Longrightarrow> unchanged w (w\<lparr>gw_banking := banks\<rparr>)"
  by (simp add: unchanged_def bank_money_def local_money_def fun_eq_iff)

lemma GetBankClient_obs:
  assumes "GetBankClient ord d banks c = (banks', r)"
  shows "bank_view banks' = bank_view banks"
    and "client_home (bank_view banks) c a \<Longrightarrow> r = Inr a' \<Longrightarrow> a' = a"
proof -
  show "bank_view banks' = bank_view banks"
    using assms connect_bank_view
    by (auto simp: GetBankClient_def split: sum.splits prod.splits) (metis fst_conv)+
  assume h: "client_home (bank_view banks) c a" and r: "r = Inr a'"
  with assms obtain n nm where n: "getBankNameForClient ord banks c = Inr n"
    and "connect_bank d banks n = (banks', Inr (a', nm))"
    by (auto simp: GetBankClient_def split: sum.splits prod.splits)
  with getBankNameForClient_home [OF h n] show "a' = a"
    by (auto simp: connect_bank_def split: if_splits option.splits)
qed

lemma GetAccountNumber_obs:
  assumes "GetAccountNumber ord banks c = Inr account" and "client_home (bank_view banks) c a"
  obtains n bk where "bank_view banks n = Some bk" and "gb_Address bk = a"
    and "map_of (gb_Clients bk) c = Some account"
proof -
  from assms(1) obtain n b where n: "getBankNameForClient ord banks c = Inr n"
    and b: "map_of banks n = Some b" "map_of (gb_Clients b) c = Some account"
    by (auto simp: GetAccountNumber_def split: sum.splits option.splits)
  from getBankNameForClient_home [OF assms(2) n] b(1) have "gb_Address b = a" by simp
  with b show ?thesis
    by (intro that [of n "b\<lparr>gb_connected := False\<rparr>"]) (simp_all add: bank_view_def)
qed

text \<open>The bank's part: refused and nothing happens, or the amount is taken from the client.\<close>

lemma simple_bank_call_effect:
  assumes call: "simple_bank_call e r a w = (w', Inr resp)" and del: "ce_fate e = Delivered"
    and acc: "\<And>b. map_of (gw_servers w) a = Some b \<Longrightarrow> gget '''' (bank_clients b) (pr_AccountNumber r) = c"
  shows "\<exists>sv. w' = w\<lparr>gw_servers := sv\<rparr> \<and> same_servers (gw_servers w) sv
    \<and> bank_money w' = (if resp_Success resp then bank_moved a c (\<lambda>b. b - pr_Amount r) (bank_money w)
                       else bank_money w)"
proof -
  from call del obtain b b' where b: "map_of (gw_servers w) a = Some b"
    and p: "BankProcessPayment b r = (b', resp)" and w': "w' = w\<lparr>gw_servers := gput a b' (gw_servers w)\<rparr>"
    by (auto simp: simple_bank_call_def bank_rpc_def late_call_def execute_call_def split: option.splits prod.splits)
  have obs: "same_bank b b' \<and> balance_of b' x = (if resp_Success resp \<and> c = x then balance_of b x - pr_Amount r else balance_of b x)" for x
    using payment_obs [OF p, of x] acc [OF b] by simp
  have "bank_money w' = (if resp_Success resp then bank_moved a c (\<lambda>b. b - pr_Amount r) (bank_money w)
                       else bank_money w)"
    using obs b w' by (auto simp: bank_money_def bank_moved_def moved_def fun_eq_iff)
  moreover have "same_servers (gw_servers w) (gput a b' (gw_servers w))"
    using obs b by (auto simp: same_servers_def option.rel_refl)
  ultimately show ?thesis using w' by blast
qed

text \<open>A simple payment moves the amount at the bank and in the gateway, or nothing at all.\<close>

definition paid_simple :: "string \<Rightarrow> string \<Rightarrow> f32 \<Rightarrow> gateway \<Rightarrow> gateway \<Rightarrow> bool" where
  "paid_simple a c x w w' \<longleftrightarrow>
     bank_money w' = bank_moved a c (\<lambda>b. b - x) (bank_money w)
     \<and> local_money w' = moved c (\<lambda>b. b - x) (local_money w)
     \<and> bank_view (gw_banking w') = bank_view (gw_banking w)
     \<and> same_servers (gw_servers w) (gw_servers w') \<and> gw_usesTwoPhase w' = gw_usesTwoPhase w"

lemma simple_payment_effect:
  assumes res: "processSimplePayment env req i bal w = (w', resp)"
    and del: "ce_fate (pe_call env SimplePhase SenderRole) = Delivered"
    and home: "client_home (bank_view (gw_banking w)) (pd_ClientName req) a"
    and link: "accounts_linked (bank_view (gw_banking w)) (gw_servers w)"
    and bal: "StorageGetBalance (gw_balances w) (pd_ClientName req) = Some bal"
  shows "(\<not> resp_Success resp \<and> unchanged w w')
    \<or> (resp_Success resp \<and> paid_simple a (pd_ClientName req) (pd_Amount req) w w')"
proof -
  let ?e = "pe_call env SimplePhase SenderRole" and ?c = "pd_ClientName req"
  obtain banks r where g: "GetBankClient (ce_order ?e) (ce_dial ?e) (gw_banking w) ?c = (banks, r)"
    by fastforce
  let ?w1 = "w\<lparr>gw_banking := banks\<rparr>"
  have u1: "unchanged w ?w1" by (rule unchanged_banking [OF GetBankClient_obs(1) [OF g]])
  show ?thesis
  proof (cases r)
    case (Inl err)
    with res g u1 show ?thesis by (auto simp: processSimplePayment_def Let_def payment_response_def)
  next
    case (Inr a')
    then have a': "a' = a" using GetBankClient_obs(2) [OF g home] by simp
    let ?e' = "pe_call env SimplePhase ReceiverRole"
    show ?thesis
    proof (cases "GetAccountNumber (ce_order ?e') banks ?c")
      case (Inl err)
      with res g u1 Inr show ?thesis by (auto simp: processSimplePayment_def Let_def payment_response_def)
    next
      case acc: (Inr account)
      have view: "bank_view banks = bank_view (gw_banking w)" by (rule GetBankClient_obs(1) [OF g])
      obtain n bk where bk: "bank_view banks n = Some bk" "gb_Address bk = a"
        "map_of (gb_Clients bk) ?c = Some account"
        by (rule GetAccountNumber_obs [OF acc]) (use home view in simp_all)
      let ?r = "\<lparr>pr_AccountNumber = account, pr_Amount = pd_Amount req, pr_TransactionId = i\<rparr>"
      obtain w2 x where call: "simple_bank_call ?e ?r a ?w1 = (w2, x)" by fastforce
      show ?thesis
      proof (cases x)
        case (Inl err)
        have "w2 = ?w1"
          using call del Inl
          by (auto simp: simple_bank_call_def bank_rpc_def late_call_def execute_call_def
              split: option.splits prod.splits)
        with res g u1 Inr a' acc call Inl show ?thesis
          by (auto simp: processSimplePayment_def Let_def payment_response_def)
      next
        case bres: (Inr bresp)
        have lk: "gget '''' (bank_clients b) (pr_AccountNumber ?r) = ?c" if "map_of (gw_servers ?w1) a = Some b" for b
          using link bk that view unfolding accounts_linked_def by fastforce
        obtain sv where w2: "w2 = ?w1\<lparr>gw_servers := sv\<rparr>" "same_servers (gw_servers w) sv"
          and m: "bank_money w2 = (if resp_Success bresp then bank_moved a ?c (\<lambda>b. b - pd_Amount req) (bank_money ?w1)
                       else bank_money ?w1)"
          using simple_bank_call_effect [OF call [unfolded bres] del lk] by auto
        show ?thesis
        proof (cases "resp_Success bresp")
          case False
          with res g Inr a' acc call bres have "w' = w2" "\<not> resp_Success resp"
            by (auto simp: processSimplePayment_def Let_def payment_response_def)
          with w2 m u1 False show ?thesis by (simp add: unchanged_def)
        next
          case True
          have "StorageGetBalance (gw_balances w2) ?c = Some bal" using bal w2 by simp
          then obtain b' where b': "UpdateBalance (gw_balances w2) ?c (bal\<lparr>bal_Amount := bal_Amount bal - pd_Amount req\<rparr>) = Inr b'"
            and lm: "local_money (w2\<lparr>gw_balances := b'\<rparr>) = moved ?c (\<lambda>b. b - pd_Amount req) (local_money w2)"
            by (rule update_one)
          let ?b'' = "fst (SaveBalances (pe_save_order env) (pe_save_error env 0) b')"
          have w': "gw_balances w' = ?b''" "gw_servers w' = gw_servers w2" "gw_banking w' = gw_banking w2"
            "gw_usesTwoPhase w' = gw_usesTwoPhase w2" "resp_Success resp"
            using res g Inr a' acc call bres True b'
            by (auto simp: processSimplePayment_def Let_def payment_response_def)
          have "local_money w' = local_money (w2\<lparr>gw_balances := b'\<rparr>)"
            using w'(1) by (simp add: local_money_def fun_eq_iff)
          moreover have "local_money w2 = local_money w" using w2 u1 by (simp add: unchanged_def)
          moreover have "bank_money w' = bank_money w2" using w'(2) by (simp add: bank_money_def fun_eq_iff)
          ultimately have "paid_simple a ?c (pd_Amount req) w w'"
            using lm m True w' w2 view u1 by (simp add: paid_simple_def unchanged_def)
          with w'(5) show ?thesis by blast
        qed
      qed
    qed
  qed
qed

subsection \<open>The books of the gateway\<close>

definition books_agree :: "gateway \<Rightarrow> bool" where
  "books_agree w \<longleftrightarrow>
     (\<forall>c a x. client_home (bank_view (gw_banking w)) c a \<longrightarrow> local_money w c = Some x \<longrightarrow>
        bank_money w a c = Some x)"

definition system_ok :: "gateway \<Rightarrow> bool" where
  "system_ok w \<longleftrightarrow>
     gw_usesTwoPhase w \<and> accounts_linked (bank_view (gw_banking w)) (gw_servers w) \<and> books_agree w"

text \<open>A payment on a reliable network: a simple one, or a transfer between different banks.\<close>

definition proper_payment :: "(string \<Rightarrow> Bank option) \<Rightarrow> payment_env \<Rightarrow> PaymentDetails \<Rightarrow> bool" where
  "proper_payment view env req \<longleftrightarrow>
     reliable env view
     \<and> (\<exists>sa. client_home view (pd_ClientName req) sa
          \<and> (pd_ReceiverName req = '''' \<or> (\<exists>ra. client_home view (pd_ReceiverName req) ra \<and> sa \<noteq> ra)))"

lemma unchanged_ok: "unchanged w w' \<Longrightarrow> system_ok w \<Longrightarrow> system_ok w'"
  by (auto simp: system_ok_def unchanged_def books_agree_def intro: accounts_linked_same)

lemma paid_simple_ok:
  assumes p: "paid_simple a c x w w'" and ok: "system_ok w"
    and home: "client_home (bank_view (gw_banking w)) c a"
  shows "system_ok w'"
proof -
  have "books_agree w'"
    unfolding books_agree_def
  proof (intro allI impI)
    fix c' a' y
    assume h: "client_home (bank_view (gw_banking w')) c' a'" and l: "local_money w' c' = Some y"
    have h': "client_home (bank_view (gw_banking w)) c' a'" using h p by (simp add: paid_simple_def)
    show "bank_money w' a' c' = Some y"
    proof (cases "c' = c")
      case True
      then have "a' = a" using client_home_unique home h' by blast
      with True h' l p ok show ?thesis
        by (auto simp: paid_simple_def bank_moved_def moved_def system_ok_def books_agree_def)
    next
      case False
      with h' l p ok show ?thesis
        by (auto simp: paid_simple_def bank_moved_def moved_def system_ok_def books_agree_def)
    qed
  qed
  with p ok show ?thesis
    by (auto simp: system_ok_def paid_simple_def intro: accounts_linked_same)
qed

lemma transfer_ok:
  assumes res: "processTwoPhasePayment env req i bal w = (w', resp)" and ok: "system_ok w"
    and rel: "reliable env (bank_view (gw_banking w))"
    and hs: "client_home (bank_view (gw_banking w)) (pd_ClientName req) sa"
    and hr: "client_home (bank_view (gw_banking w)) (pd_ReceiverName req) ra" and ne: "sa \<noteq> ra"
    and loc: "local_money w (pd_ClientName req) \<noteq> None"
  shows "system_ok w' \<and> bank_view (gw_banking w') = bank_view (gw_banking w)"
proof (cases "resp_Success resp")
  case True
  note e = two_phase_success_effect [OF res True hs hr ne loc]
  have sr: "pd_ClientName req \<noteq> pd_ReceiverName req" using client_home_unique hs hr ne by metis
  have "books_agree w'"
    unfolding books_agree_def
  proof (intro allI impI)
    fix c' a' y
    assume h: "client_home (bank_view (gw_banking w')) c' a'" and l: "local_money w' c' = Some y"
    have h': "client_home (bank_view (gw_banking w)) c' a'" using h e by simp
    have a: "c' = pd_ClientName req \<Longrightarrow> a' = sa" "c' = pd_ReceiverName req \<Longrightarrow> a' = ra"
      using client_home_unique hs hr h' by blast+
    have old: "local_money w c' = Some x \<Longrightarrow> bank_money w a' c' = Some x" for x
      using ok h' by (simp add: system_ok_def books_agree_def)
    show "bank_money w' a' c' = Some y"
      using l e a old sr ne
      by (cases "c' = pd_ClientName req"; cases "c' = pd_ReceiverName req")
        (auto simp: bank_moved_def moved_def)
  qed
  then show ?thesis
    using e ok two_phase_success_cached(2) [OF res True]
    by (auto simp: system_ok_def intro: accounts_linked_same)
next
  case False
  show ?thesis
    using res
  proof (cases rule: processTwoPhase_cases)
    case refused
    with ok show ?thesis by simp
  next
    case (ran r)
    have "\<not> po_ok (prepare_of env req i w)"
      using runTwoPhaseCommit_reliable [of env "started env req i w" "new_two_phase i req env w" sa ra]
        rel hs hr ne ran(1,2) False by (simp add: prepare_of_def)
    from failed_prepare_effect [OF res this] have "unchanged w w'" by (simp add: unchanged_def)
    with unchanged_ok [OF this ok] show ?thesis by (simp add: unchanged_def)
  qed
qed

lemma ProcessPayment_ok:
  assumes ok: "system_ok w" and p: "proper_payment (bank_view (gw_banking w)) env req"
  shows "system_ok (fst (ProcessPayment env c req w))
    \<and> bank_view (gw_banking (fst (ProcessPayment env c req w))) = bank_view (gw_banking w)"
proof -
  obtain sa where rel: "reliable env (bank_view (gw_banking w))"
    and hs: "client_home (bank_view (gw_banking w)) (pd_ClientName req) sa"
    and recv: "pd_ReceiverName req = '''' \<or> (\<exists>ra. client_home (bank_view (gw_banking w)) (pd_ReceiverName req) ra \<and> sa \<noteq> ra)"
    using p unfolding proper_payment_def by blast
  have link: "accounts_linked (bank_view (gw_banking w)) (gw_servers w)" and two: "gw_usesTwoPhase w"
    using ok by (simp_all add: system_ok_def)
  have simple: "system_ok (fst (processSimplePayment env req i bal w))
      \<and> bank_view (gw_banking (fst (processSimplePayment env req i bal w))) = bank_view (gw_banking w)"
    if "StorageGetBalance (gw_balances w) (pd_ClientName req) = Some bal" for i bal
    using simple_payment_effect [OF surjective_pairing reliable_fate [OF rel] hs link that, of i]
      unchanged_ok [OF _ ok] paid_simple_ok [OF _ ok hs]
    by (auto simp: unchanged_def paid_simple_def)
  have transfer: "system_ok (fst (processTwoPhasePayment env req i bal w))
      \<and> bank_view (gw_banking (fst (processTwoPhasePayment env req i bal w))) = bank_view (gw_banking w)"
    if "StorageGetBalance (gw_balances w) (pd_ClientName req) = Some bal" "pd_ReceiverName req \<noteq> ''''" for i bal
  proof -
    from that(2) recv obtain ra where hr: "client_home (bank_view (gw_banking w)) (pd_ReceiverName req) ra" "sa \<noteq> ra"
      by blast
    have "local_money w (pd_ClientName req) \<noteq> None"
      using that(1) StorageGetBalance_local [of w "pd_ClientName req", symmetric] by simp
    from transfer_ok [OF surjective_pairing ok rel hs hr this] show ?thesis .
  qed
  show ?thesis
    using ok simple transfer two
    by (auto simp: ProcessPayment_def split: sum.split option.split prod.split)
      (metis fst_conv)+
qed

lemma run_payments_ok:
  "system_ok w \<Longrightarrow> (\<forall>(env, c, req) \<in> set ps. proper_payment (bank_view (gw_banking w)) env req) \<Longrightarrow>
     system_ok (fst (run_payments w ps))"
proof (induction ps arbitrary: w)
  case Nil
  then show ?case by simp
next
  case (Cons p ps)
  obtain env c req where p: "p = (env, c, req)" by (cases p)
  let ?w1 = "fst (ProcessPayment env c req w)"
  have "system_ok ?w1 \<and> bank_view (gw_banking ?w1) = bank_view (gw_banking w)"
    by (rule ProcessPayment_ok) (use Cons.prems p in auto)
  with Cons.IH [of ?w1] Cons.prems(2) p show ?case
    by (auto split: prod.splits)
qed

text \<open>C3. The books. Starting from a state in which the gateway's balances agree with the banks', any
  sequence of simple payments and of transfers between clients of different banks on a reliable network, with
  whatever amounts and answers, ends in a state in which they agree again. (A transfer inside one bank is left out: it
  does break the agreement, by the lemma same_bank_transfer_loses_money.)\<close>

theorem books_stay_in_agreement:
  assumes "system_ok w"
    and "\<forall>(env, c, req) \<in> set ps. proper_payment (bank_view (gw_banking w)) env req"
  shows "books_agree (fst (run_payments w ps))"
  using run_payments_ok [OF assms] by (simp add: system_ok_def)

text \<open>The data that comes with the program starts in agreement.\<close>

definition client_linked :: "servers \<Rightarrow> string \<Rightarrow> string \<times> string \<Rightarrow> bool" where
  "client_linked sv a ca =
     (case map_of sv a of None \<Rightarrow> True | Some b \<Rightarrow> gget '''' (bank_clients b) (snd ca) = fst ca)"

lemma accounts_linkedI:
  assumes "list_all (\<lambda>nb. list_all (client_linked sv (gb_Address (snd nb))) (gb_Clients (snd nb))) banks"
  shows "accounts_linked (bank_view banks) sv"
  unfolding accounts_linked_def
proof (intro allI impI)
  fix n bk c account b
  assume "bank_view banks n = Some bk" "map_of (gb_Clients bk) c = Some account"
    and b: "map_of sv (gb_Address bk) = Some b"
  then obtain bk' where "map_of banks n = Some bk'" "map_of (gb_Clients bk') c = Some account"
    and ad: "gb_Address bk' = gb_Address bk"
    by (auto simp: bank_view_Some)
  then have bk': "(n, bk') \<in> set banks" "(c, account) \<in> set (gb_Clients bk')"
    by (simp_all add: map_of_SomeD)
  have "list_all (client_linked sv (gb_Address bk')) (gb_Clients bk')"
    using assms bk'(1) by (auto simp: list_all_iff)
  with bk'(2) ad b show "gget '''' (bank_clients b) account = c"
    by (auto simp: list_all_iff client_linked_def)
qed

lemma the_system_linked: "accounts_linked (bank_view (gw_banking the_system)) (gw_servers the_system)"
  by (rule accounts_linkedI) code_simp

lemma the_system_books: "books_agree the_system"
  unfolding books_agree_def
proof (intro allI impI)
  fix c a x
  assume h: "client_home (bank_view (gw_banking the_system)) c a" and l: "local_money the_system c = Some x"
  have m: "bank_money the_system ''localhost:50051'' ''Alice'' = local_money the_system ''Alice''"
      "bank_money the_system ''localhost:50051'' ''Charlie'' = local_money the_system ''Charlie''"
      "bank_money the_system ''localhost:50052'' ''Bob'' = local_money the_system ''Bob''"
      "bank_money the_system ''localhost:50052'' ''Dave'' = local_money the_system ''Dave''"
    by code_simp+
  have "fst ` set (bs_accountBalances (gw_balances the_system))
      = set [''Dave'', ''Alice'', ''Bob'', ''Charlie'']"
    by code_simp
  then have "dom (local_money the_system) = set [''Dave'', ''Alice'', ''Bob'', ''Charlie'']"
    by (simp only: local_money_def [abs_def] dom_map_option dom_map_of_conv_image_fst)
  with l have "c \<in> set [''Dave'', ''Alice'', ''Bob'', ''Charlie'']" by blast
  then consider "c = ''Dave''" | "c = ''Alice''" | "c = ''Bob''" | "c = ''Charlie''"
    by (auto simp only: list.set insert_iff empty_iff)
  then show "bank_money the_system a c = Some x"
  proof cases
    case 1
    then show ?thesis using client_home_unique [OF the_system_homes(4)] h l m(4) by metis
  next
    case 2
    then show ?thesis using client_home_unique [OF the_system_homes(1)] h l m(1) by metis
  next
    case 3
    then show ?thesis using client_home_unique [OF the_system_homes(3)] h l m(3) by metis
  next
    case 4
    then show ?thesis using client_home_unique [OF the_system_homes(2)] h l m(2) by metis
  qed
qed

lemma the_system_ok: "system_ok the_system"
proof -
  have "gw_usesTwoPhase the_system" by code_simp
  with the_system_linked the_system_books show ?thesis by (simp add: system_ok_def)
qed

theorem books_stay_in_agreement_witness:
  "books_agree (fst (run_payments the_system
     [(reliable_env, pay_ctx ''Alice'' ''t'', pay_req ''Alice'' ''Bob'' (units 50)),
      (reliable_env, pay_ctx ''Dave'' ''u'', pay_req ''Dave'' '''' (units 7))]))"
proof -
  have "proper_payment (bank_view (gw_banking the_system)) reliable_env (pay_req ''Alice'' ''Bob'' (units 50))"
    "proper_payment (bank_view (gw_banking the_system)) reliable_env (pay_req ''Dave'' '''' (units 7))"
    unfolding proper_payment_def
    using reliable_env_reliable the_system_homes by (auto simp: pay_req_def)
  then show ?thesis
    by (intro books_stay_in_agreement [OF the_system_ok]) simp
qed

end
