(* ===== verification/Strife_Repeats.thy ===== *)
theory Strife_Repeats
  imports Strife_Books
begin

text \<open>
  Simple payments that are sent again. The gateway runs with two-phase commit switched on and then ignores the records
  of simple payments, so that every repetition of one under the same transaction id is charged again.
\<close>

subsection \<open>A covered simple payment succeeds\<close>

lemma GetBankClient_reliable:
  assumes "client_home (bank_view banks) c a" and "dom (bank_view banks) \<subseteq> set order"
  obtains banks' where "GetBankClient order None banks c = (banks', Inr a)"
    and "bank_view banks' = bank_view banks"
proof -
  obtain n b where n: "getBankNameForClient order banks c = Inr n" "map_of banks n = Some b" "gb_Address b = a"
    by (rule getBankNameForClient_total [OF assms])
  then obtain banks' where g: "GetBankClient order None banks c = (banks', Inr a)"
    by (cases "gb_connected b") (auto simp: GetBankClient_def connect_bank_def)
  then show ?thesis using GetBankClient_obs(1) [OF g] by (rule that)
qed

lemma GetAccountNumber_reliable:
  assumes "client_home (bank_view banks) c a" and "dom (bank_view banks) \<subseteq> set order"
  obtains account where "GetAccountNumber order banks c = Inr account"
proof -
  obtain n b where "getBankNameForClient order banks c = Inr n" "map_of banks n = Some b"
    "map_of (gb_Clients b) c \<noteq> None"
    by (rule getBankNameForClient_total [OF assms])
  then show ?thesis by (intro that [of "the (map_of (gb_Clients b) c)"]) (auto simp: GetAccountNumber_def)
qed

text \<open>What the bank does with a covered payment.\<close>

lemma BankProcessPayment_covered:
  assumes "gget '''' (bank_clients b) (pr_AccountNumber r) = c" and "c \<noteq> ''''"
    and "0 < pr_Amount r" and "\<not> balance_of b c < pr_Amount r"
  shows "\<exists>b' m. BankProcessPayment b r = (b', payment_response True m)"
proof -
  have "\<not> pr_Amount r \<le> 0" using assms(3) by (cases "pr_Amount r") (auto simp: zero_f32_def)
  moreover have "map_of (bank_balances b) c \<noteq> None"
    using assms(3,4) by (auto simp: balance_of_def gget_def split: option.splits)
  ultimately show ?thesis
    using assms(1,2,4) by (auto simp: BankProcessPayment_def Let_def balance_of_def gget_def split: option.splits)
qed

lemma simple_payment_covered:
  assumes rel: "reliable env (bank_view (gw_banking w))"
    and home: "client_home (bank_view (gw_banking w)) (pd_ClientName req) a"
    and link: "accounts_linked (bank_view (gw_banking w)) (gw_servers w)"
    and money: "bank_money w a (pd_ClientName req) = Some x" and name: "pd_ClientName req \<noteq> ''''"
    and covered: "0 < pd_Amount req" "\<not> x < pd_Amount req"
  shows "resp_Success (snd (processSimplePayment env req i bal w))"
proof -
  let ?c = "pd_ClientName req"
  let ?e = "pe_call env SimplePhase SenderRole" and ?e' = "pe_call env SimplePhase ReceiverRole"
  have env: "ce_fate ?e = Delivered" "ce_dial ?e = None" "dom (bank_view (gw_banking w)) \<subseteq> set (ce_order ?e)"
    "dom (bank_view (gw_banking w)) \<subseteq> set (ce_order ?e')"
    using rel by (simp_all add: reliable_def)
  obtain banks where g: "GetBankClient (ce_order ?e) None (gw_banking w) ?c = (banks, Inr a)"
    and view: "bank_view banks = bank_view (gw_banking w)"
    by (rule GetBankClient_reliable [OF home env(3)])
  obtain account where acc: "GetAccountNumber (ce_order ?e') banks ?c = Inr account"
    by (rule GetAccountNumber_reliable [of banks ?c a "ce_order ?e'"]) (use home view env(4) in simp_all)
  obtain n bk where bk: "bank_view banks n = Some bk" "gb_Address bk = a" "map_of (gb_Clients bk) ?c = Some account"
    by (rule GetAccountNumber_obs [OF acc]) (use home view in simp_all)
  obtain b where b: "map_of (gw_servers w) a = Some b" "balance_of b ?c = x"
    using money by (auto simp: bank_money_def)
  let ?r = "\<lparr>pr_AccountNumber = account, pr_Amount = pd_Amount req, pr_TransactionId = i\<rparr>"
  have "gget '''' (bank_clients b) (pr_AccountNumber ?r) = ?c"
    using link bk b(1) view unfolding accounts_linked_def by fastforce
  then obtain b' m where "BankProcessPayment b ?r = (b', payment_response True m)"
    using BankProcessPayment_covered [of b ?r ?c] name covered b(2) by auto
  then show ?thesis
    using g acc b(1) env(1,2)
    by (simp add: processSimplePayment_def simple_bank_call_def bank_rpc_def late_call_def execute_call_def Let_def
        payment_response_def)
qed

subsection \<open>The records of simple payments are ignored\<close>

definition no_transfer :: "gateway \<Rightarrow> string \<Rightarrow> bool" where
  "no_transfer w i \<longleftrightarrow> (\<forall>tx. GetTransaction (gw_txs w) i \<noteq> Some (TwoPhaseTx tx))"

lemma no_transfer_simple:
  assumes "no_transfer w i"
  shows "no_transfer (fst (processSimplePayment env req i bal w)) i"
  using assms
  by (auto simp: no_transfer_def processSimplePayment_def simple_bank_call_def Let_def GetTransaction_def
      StoreSimpleTransaction_def split: prod.splits sum.splits)

lemma cached_result_simple: "no_transfer w i \<Longrightarrow> cached_result True req i (GetTransaction (gw_txs w) i) = None"
  by (auto simp: no_transfer_def cached_result_def split: option.splits tx_record.splits)

text \<open>One repetition.\<close>

lemma repeated_once:
  assumes ok: "system_ok w" and rel: "reliable env (bank_view (gw_banking w))"
    and home: "client_home (bank_view (gw_banking w)) (pd_ClientName req) a"
    and ctx: "ExtractUsername c = Inr (pd_ClientName req)" "extractTransactionID c = Inr i"
    and simple: "pd_ReceiverName req = ''''" "pd_ClientName req \<noteq> ''''"
    and money: "local_money w (pd_ClientName req) = Some x" "bank_money w a (pd_ClientName req) = Some y"
    and covered: "0 < pd_Amount req" "\<not> x < pd_Amount req" "\<not> y < pd_Amount req" and new: "no_transfer w i"
  obtains w' resp where "ProcessPayment env c req w = (w', Inr resp)" and "resp_Success resp" and "no_transfer w' i"
    and "paid_simple a (pd_ClientName req) (pd_Amount req) w w'" and "system_ok w'"
proof -
  obtain bal where bal: "StorageGetBalance (gw_balances w) (pd_ClientName req) = Some bal" "bal_Amount bal = x"
    using money(1) by (auto simp flip: StorageGetBalance_local)
  have two: "gw_usesTwoPhase w" and link: "accounts_linked (bank_view (gw_banking w)) (gw_servers w)"
    using ok by (simp_all add: system_ok_def)
  obtain w' resp where p: "processSimplePayment env req i bal w = (w', resp)" by fastforce
  have success: "resp_Success resp"
    using simple_payment_covered [OF rel home link money(2) simple(2) covered(1,3), of i bal] p by simp
  then have paid: "paid_simple a (pd_ClientName req) (pd_Amount req) w w'"
    using simple_payment_effect [OF p reliable_fate [OF rel] home link bal(1)] by simp
  have "ProcessPayment env c req w = (w', Inr resp)"
    using ctx simple(1) bal covered(2) p two cached_result_simple [OF new] by (simp add: ProcessPayment_def)
  then show ?thesis
    using success paid no_transfer_simple [OF new, of env req bal] p paid_simple_ok [OF paid ok home]
    by (intro that) simp_all
qed

text \<open>C40. Every repetition of a simple payment is charged again. Let the gateway's books agree with the banks', let a
  client with a positive amount send the same simple payment under the same transaction id any number of times over
  a reliable network, and let its balance cover each of them in turn. Then every one is answered with success, and
  the amount has been taken from the client as often as the request was sent, at its bank and in the gateway. The only
  condition on the records of the gateway is that no transfer has that id: a record of a simple payment
  is no obstacle, though it is stored for this very purpose.\<close>

theorem repeated_simple_payments_charge_again:
  assumes "system_ok w" and "\<forall>env \<in> set envs. reliable env (bank_view (gw_banking w))"
    and "client_home (bank_view (gw_banking w)) (pd_ClientName req) a"
    and "ExtractUsername c = Inr (pd_ClientName req)" and "extractTransactionID c = Inr i"
    and "pd_ReceiverName req = ''''" and "pd_ClientName req \<noteq> ''''" and "no_transfer w i"
    and "local_money w (pd_ClientName req) = Some x" and "0 < pd_Amount req"
    and "\<forall>m < length envs. \<not> ((\<lambda>y. y - pd_Amount req) ^^ m) x < pd_Amount req"
    and "run_payments w (map (\<lambda>env. (env, c, req)) envs) = (w', answers)"
  shows "answers = replicate (length envs) True
    \<and> bank_money w' a (pd_ClientName req) = Some (((\<lambda>y. y - pd_Amount req) ^^ length envs) x)
    \<and> local_money w' (pd_ClientName req) = Some (((\<lambda>y. y - pd_Amount req) ^^ length envs) x)"
  using assms
proof (induction envs arbitrary: w x answers)
  case Nil
  then show ?case by (auto simp: system_ok_def books_agree_def)
next
  case (Cons env envs)
  let ?c = "pd_ClientName req" and ?f = "\<lambda>y. y - pd_Amount req"
  have "bank_money w a ?c = Some x" using Cons.prems(1,3,9) by (auto simp: system_ok_def books_agree_def)
  moreover have "\<not> x < pd_Amount req" using Cons.prems(11) by fastforce
  moreover have "reliable env (bank_view (gw_banking w))" using Cons.prems(2) by simp
  ultimately obtain w1 resp where w1: "ProcessPayment env c req w = (w1, Inr resp)" "resp_Success resp"
    "no_transfer w1 i" "paid_simple a ?c (pd_Amount req) w w1" "system_ok w1"
    using repeated_once [OF Cons.prems(1) _ Cons.prems(3-7,9) _ Cons.prems(10) _ _ Cons.prems(8)] by metis
  obtain bs where bs: "run_payments w1 (map (\<lambda>env. (env, c, req)) envs) = (w', bs)" and "answers = True # bs"
    using Cons.prems(12) w1(1,2) by (auto split: prod.splits)
  have view: "bank_view (gw_banking w1) = bank_view (gw_banking w)" using w1(4) by (simp add: paid_simple_def)
  have "local_money w1 ?c = Some (?f x)" using w1(4) Cons.prems(9) by (simp add: paid_simple_def moved_def)
  moreover have "\<forall>m < length envs. \<not> (?f ^^ m) (?f x) < pd_Amount req"
  proof (intro allI impI)
    fix m
    assume "m < length envs"
    then have "\<not> (?f ^^ Suc m) x < pd_Amount req" using Cons.prems(11) by (metis Suc_less_eq length_Cons)
    then show "\<not> (?f ^^ m) (?f x) < pd_Amount req" by (simp only: funpow_Suc_right comp_apply not_False_eq_True)
  qed
  ultimately have "bs = replicate (length envs) True
    \<and> bank_money w' a ?c = Some ((?f ^^ length envs) (?f x)) \<and> local_money w' ?c = Some ((?f ^^ length envs) (?f x))"
    using Cons.prems(2-7,10) view w1(3) by (intro Cons.IH [OF w1(5) _ _ _ _ _ _ _ _ _ _ bs]) simp_all
  with \<open>answers = True # bs\<close> show ?case by (simp add: funpow_Suc_right del: funpow.simps)
qed

theorem repeated_simple_payments_charge_again_witness:
  "let (w, answers) = run_payments the_system
       [(reliable_env, pay_ctx ''Alice'' ''t'', pay_req ''Alice'' '''' (units 50)),
        (reliable_env, pay_ctx ''Alice'' ''t'', pay_req ''Alice'' '''' (units 50))]
   in answers = [True, True] \<and> bank_money w ''localhost:50051'' ''Alice'' = Some (units 102)"
proof -
  let ?req = "pay_req ''Alice'' '''' (units 50)" and ?c = "pay_ctx ''Alice'' ''t''"
  have req: "pd_ClientName ?req = ''Alice''" "pd_ReceiverName ?req = ''''" "pd_Amount ?req = units 50"
    by (simp_all add: pay_req_def)
  have facts: "ExtractUsername ?c = Inr ''Alice''" "extractTransactionID ?c = Inr ''t''"
    "GetTransaction (gw_txs the_system) ''t'' = None" "local_money the_system ''Alice'' = Some (units 202)"
    "0 < units 50" "\<not> units 202 < units 50" "\<not> units 202 - units 50 < units 50" "units 202 - units 50 - units 50 = units 102"
    by code_simp+
  then have "no_transfer the_system ''t''" by (simp add: no_transfer_def)
  moreover obtain w answers where run: "run_payments the_system (map (\<lambda>env. (env, ?c, ?req)) [reliable_env, reliable_env])
      = (w, answers)" by fastforce
  ultimately have "answers = replicate (length [reliable_env, reliable_env]) True
    \<and> bank_money w ''localhost:50051'' (pd_ClientName ?req)
        = Some (((\<lambda>y. y - pd_Amount ?req) ^^ length [reliable_env, reliable_env]) (units 202))"
    using repeated_simple_payments_charge_again [OF the_system_ok _ _ _ _ _ _ _ _ _ _ run, of "''localhost:50051''" "''t''" "units 202"]
      reliable_env_reliable the_system_homes facts req
    by (auto simp: less_Suc_eq)
  then show ?thesis using run facts req by (simp add: Let_def)
qed

end
