(* ===== verification/Strife_Access.thy ===== *)
theory Strife_Access
  imports Strife_Gateway_Theorems
begin

text \<open>
  Who may pay and ask, and what becomes of a panic: properties of the interceptors together with
  the methods of the gateway.
\<close>

lemma server_chain_unfold:
  "server_chain svc m h = RecoveryInterceptor m (LoggingInterceptor m (AuthInterceptor svc m h))"
  by (simp add: server_chain_def ChainInterceptors_def fun_eq_iff)

lemma AuthInterceptor_passes:
  assumes "AuthInterceptor svc m h c req w = (w', Some (Some r, None))"
    and "gget False PublicMethods m = False" and "map_of MethodPermissions m = Some roles"
  obtains md u where "ctx_metadata c = Some md" and "md_first md ''username'' = Some u"
    and "HasRole (svc w) u roles" and "h c req w = (w', Some (Some r, None))"
  using assms by (auto simp: AuthInterceptor_def fails_def split: option.splits if_splits)

lemma pay_methods:
  "gget False PublicMethods ''/proto.PaymentGateway/MakePayment'' = False"
  "map_of MethodPermissions ''/proto.PaymentGateway/MakePayment'' = Some [''user'', ''admin'']"
  "gget False PublicMethods ''/proto.PaymentGateway/GetBalance'' = False"
  "map_of MethodPermissions ''/proto.PaymentGateway/GetBalance'' = Some [''user'', ''admin'']"
  by (simp_all add: PublicMethods_def MethodPermissions_def gget_def)

lemma RecoveryInterceptor_ok:
  "RecoveryInterceptor m h c req w = (w', Some (Some r, None)) \<Longrightarrow> h c req w = (w', Some (Some r, None))"
  by (auto simp: RecoveryInterceptor_def split: prod.splits option.splits)

definition authorized :: "gateway \<Rightarrow> ctx \<Rightarrow> string \<Rightarrow> bool" where
  "authorized w c client \<longleftrightarrow>
     ExtractUsername c = Inr client
     \<and> (\<exists>user. GetUser (as_userStorage (gw_auth w)) client = Some user
          \<and> (''user'' \<in> set (us_Roles user) \<or> ''admin'' \<in> set (us_Roles user)))"

lemma ExtractUsername_md:
  "ctx_metadata c = Some md \<Longrightarrow> md_first md ''username'' = Some u \<Longrightarrow> ExtractUsername c = Inr u"
  by (simp add: ExtractUsername_def)

lemma HasRole_iff:
  "HasRole a u [''user'', ''admin''] \<longleftrightarrow>
     (\<exists>user. GetUser (as_userStorage a) u = Some user
        \<and> (''user'' \<in> set (us_Roles user) \<or> ''admin'' \<in> set (us_Roles user)))"
  by (auto simp: HasRole_def list_ex_iff split: option.split)

text \<open>A request for a payment without authority is answered, without success, and nothing has changed.\<close>

lemma MakePayment_refused:
  assumes "\<not> authorized w c (pd_ClientName req)"
  shows "\<exists>r. MakePayment env c req w = (w, Some r) \<and> (\<forall>resp. fst r = Some resp \<longrightarrow> \<not> resp_Success resp)"
proof -
  let ?m = "''/proto.PaymentGateway/MakePayment''"
  let ?h = "\<lambda>c req w. of_rpc (ProcessPayment env c req w)"
  have "\<exists>r. AuthInterceptor gw_auth ?m ?h c req w = (w, Some r) \<and> (\<forall>resp. fst r = Some resp \<longrightarrow> \<not> resp_Success resp)"
  proof (cases "\<exists>md u. ctx_metadata c = Some md \<and> md_first md ''username'' = Some u
      \<and> HasRole (gw_auth w) u [''user'', ''admin'']")
    case True
    then obtain md u where u: "ctx_metadata c = Some md" "md_first md ''username'' = Some u"
      and role: "HasRole (gw_auth w) u [''user'', ''admin'']" by blast
    have name: "ExtractUsername c = Inr u" using u by (rule ExtractUsername_md)
    have "u \<noteq> pd_ClientName req" using assms role name by (auto simp: authorized_def HasRole_iff)
    then have "ProcessPayment env c req w =
        (w, Inr (payment_response False ''You can only make payments for your own account''))"
      by (simp add: ProcessPayment_def name)
    then show ?thesis
      using u role by (simp add: AuthInterceptor_def pay_methods of_rpc_def payment_response_def)
  next
    case False
    then show ?thesis
      by (cases "ctx_metadata c"; cases "md_first (the (ctx_metadata c)) ''username''")
        (auto simp: AuthInterceptor_def pay_methods fails_def)
  qed
  then show ?thesis
    by (auto simp: MakePayment_def server_chain_unfold LoggingInterceptor_def RecoveryInterceptor_def)
qed

lemma GetBalance_state: "fst (GetBalanceMethod c breq w) = w"
  by (auto simp: GetBalanceMethod_def server_chain_unfold LoggingInterceptor_def RecoveryInterceptor_def
      AuthInterceptor_def fails_def of_rpc_def split: prod.splits option.splits sum.splits if_splits)

lemma GetBalance_authorized:
  assumes "snd (GetBalanceMethod c breq w) = Some (Some bresp, None)"
  shows "authorized w c (bq_ClientName breq) \<and> local_money w (bq_ClientName breq) = Some (br_Balance bresp)"
proof -
  obtain w' where "GetBalanceMethod c breq w = (w', Some (Some bresp, None))" using assms by (metis prod.collapse)
  then have "AuthInterceptor gw_auth ''/proto.PaymentGateway/GetBalance''
      (\<lambda>c req w. of_rpc (w, GetBalance c req w)) c breq w = (w', Some (Some bresp, None))"
    by (auto simp: GetBalanceMethod_def server_chain_unfold LoggingInterceptor_def dest!: RecoveryInterceptor_ok)
  then obtain md u where u: "ctx_metadata c = Some md" "md_first md ''username'' = Some u"
    and role: "HasRole (gw_auth w) u [''user'', ''admin'']"
    and h: "of_rpc (w, GetBalance c breq w) = (w', Some (Some bresp, None))"
    by (rule AuthInterceptor_passes [OF _ pay_methods(3,4)])
  from h have bal: "GetBalance c breq w = Inr bresp"
    by (auto simp: of_rpc_def split: sum.splits)
  then have "ExtractUsername c = Inr (bq_ClientName breq)"
    by (auto simp: GetBalance_def split: sum.splits if_splits)
  with ExtractUsername_md [OF u] role bal show ?thesis
    by (auto simp: authorized_def GetBalance_def HasRole_iff simp flip: StorageGetBalance_local
        split: option.splits)
qed

text \<open>C19. Authorization. Let authorized w c client say that the first user name in the metadata of the request
  is client, and that it is a known user with the role user or admin. A MakePayment for the account of a client
  for which the request is not authorized is answered without success and leaves the whole state as it was: the
  banks, their transactions, the balances and the records of the gateway. A GetBalance never changes anything, and
  answers with a balance only when the request is authorized for that client; it is then the gateway's balance of
  that client.\<close>

theorem only_the_owner_pays_and_asks:
  "(\<not> authorized w c (pd_ClientName req) \<longrightarrow>
      fst (MakePayment env c req w) = w
      \<and> (\<forall>resp e. snd (MakePayment env c req w) = Some (Some resp, e) \<longrightarrow> \<not> resp_Success resp))
   \<and> fst (GetBalanceMethod c breq w) = w
   \<and> (\<forall>bresp. snd (GetBalanceMethod c breq w) = Some (Some bresp, None) \<longrightarrow>
        authorized w c (bq_ClientName breq) \<and> local_money w (bq_ClientName breq) = Some (br_Balance bresp))"
  using MakePayment_refused [of w c req env] GetBalance_state [of c breq w] GetBalance_authorized [of c breq w]
  by fastforce

theorem only_the_owner_pays_and_asks_witness:
  "authorized the_system (pay_ctx ''Alice'' ''t'') ''Alice''
   \<and> fst (MakePayment reliable_env (pay_ctx ''Alice'' ''t'') (pay_req ''Bob'' ''Alice'' (units 50)) the_system) = the_system"
proof -
  let ?c = "pay_ctx ''Alice'' ''t''" and ?b = "\<lparr>bq_ClientName = ''Alice''\<rparr>"
  let ?r = "pay_req ''Bob'' ''Alice'' (units 50)"
  note spec = only_the_owner_pays_and_asks [of the_system ?c ?r reliable_env ?b]
  have "snd (GetBalanceMethod ?c ?b the_system)
      = Some (Some \<lparr>br_Balance = units 202, br_Currency = ''USD''\<rparr>, None)"
    by code_simp
  with spec have "authorized the_system ?c ''Alice''" by simp
  moreover from this have "\<not> authorized the_system ?c ''Bob''" by (auto simp: authorized_def)
  then have "\<not> authorized the_system ?c (pd_ClientName ?r)" by (simp add: pay_req_def)
  with spec have "fst (MakePayment reliable_env ?c ?r the_system) = the_system" by blast
  ultimately show ?thesis by blast
qed

text \<open>Nobody has to authenticate. On the freshly started system no user is authenticated, and a
  request that merely names Alice in its metadata pays from her account.\<close>

lemma unauthenticated_payment_succeeds:
  "as_authenticatedUsers (gw_auth the_system) = []
   \<and> (case MakePayment reliable_env (pay_ctx ''Alice'' ''t'') (pay_req ''Alice'' ''Bob'' (units 50)) the_system of
        (w, Some (Some resp, None)) \<Rightarrow> resp_Success resp \<and> at_B w ''Bob'' = Some (160 + 50)
      | _ \<Rightarrow> False)"
  by code_simp

text \<open>A panic behind the chain of interceptors is answered without a response and without an error.\<close>

lemma panic_is_answered_without_error:
  "AuthInterceptor svc m h c req w = (w', None) \<Longrightarrow> server_chain svc m h c req w = (w', Some (None, None))"
  by (simp add: server_chain_unfold RecoveryInterceptor_def LoggingInterceptor_def)

end
