(* ===== verification/Strife_Concurrent.thy ===== *)
theory Strife_Concurrent
  imports Strife_Payment
begin

text \<open>
  Two-phase payments that run at the gateway at the same time (P3-Strife/gateway/payment/processor.go and
  transaction.go once more). Where \<open>Strife_Payment\<close> runs a payment as one step, here each remote call,
  each access to the transaction records, to the local balances and to the banking service is a step of its own, and
  \<open>concurrent_step\<close> executes one step of one payment, so that a list of events is an interleaving. The two goroutines of
  a phase, the timeout of its select, calls that reach their bank late and the clean-up routine are events, too.
  HasActiveTransaction and the GetTransaction that follows it are one step, Guard: when the first finds no record the
  payment goes on with a new transaction as if Guard were at that moment, otherwise the result of the second alone
  decides, as if Guard were at its moment. Simple payments are not among the payments here.
\<close>

subsection \<open>Calls to the banks\<close>

datatype tp_method = DoPrepareDebit | DoPrepareCredit | DoCommitDebit | DoCommitCredit | DoAbort

fun method_of :: "tp_method \<Rightarrow> participant_method" where
  "method_of DoPrepareDebit = PrepareDebit"
| "method_of DoPrepareCredit = PrepareCredit"
| "method_of DoCommitDebit = CommitDebit"
| "method_of DoCommitCredit = CommitCredit"
| "method_of DoAbort = BankAbort"

record remote_call =
  rc_method :: tp_method
  rc_request :: TwoPhaseRequest
  rc_address :: string

subsection \<open>One payment\<close>

text \<open>
  Where a payment stands. The strings are, in this order: address and name of the sender's bank, address and
  name of the receiver's bank; the message of an abort is the one that the payment will answer with.
\<close>

datatype pc =
    Begin
  | Inspect nat
  | Funds
  | Guard
  | GuardInspect nat
  | Enter
  | FindSender phase
  | FindReceiver phase string string
  | Mark phase string string string string
  | Calls phase string string string string
  | AbortFind role string
  | AbortRemote role string string
  | AbortEnd string
  | ReadSender
  | WriteSender Balance
  | ReadReceiver
  | WriteReceiver Balance
  | Saving nat
  | CleanUp string
  | Finished PaymentResponse

text \<open>
  The transaction record is the object that the map of the transaction manager points to. The results of
  the two goroutines of the running phase are \<open>None\<close> until they are done.
\<close>

record payment =
  pm_req :: PaymentDetails
  pm_id :: string
  pm_pc :: pc
  pm_balance :: Balance
  pm_tx :: TwoPhaseTransactionRecord
  pm_sender_result :: "(bool \<times> string option) option"
  pm_receiver_result :: "(bool \<times> string option) option"

definition new_payment :: "string \<Rightarrow> PaymentDetails \<Rightarrow> payment" where
  "new_payment i req =
     \<lparr>pm_req = req, pm_id = i, pm_pc = Begin, pm_balance = \<lparr>bal_Amount = 0, bal_Currency = ''''\<rparr>,
      pm_tx = \<lparr>tx_ID = i, tx_Sender = pd_ClientName req, tx_Receiver = pd_ReceiverName req,
               tx_Amount = pd_Amount req, tx_State = TransactionPreparing, tx_PrepareVotes = [],
               tx_CommitVotes = [], tx_Timestamp = 0, tx_Timeout = 0\<rparr>,
      pm_sender_result = None, pm_receiver_result = None\<rparr>"

subsection \<open>The system\<close>

text \<open>
  The records of two-phase transactions are kept apart from the other ones in \<open>gw_txs\<close>: an entry of \<open>sys_records\<close>
  is the number of the payment whose record it points to. \<open>sys_flight\<close> are calls that nobody waits for any
  more. \<open>sys_log\<close> is a history variable, which no step reads: the commits that the banks executed.
\<close>

record sys =
  sys_gw :: gateway
  sys_payments :: "payment list"
  sys_records :: "(string, nat) gomap"
  sys_flight :: "remote_call list"
  sys_log :: "remote_call list"

definition set_payment :: "nat \<Rightarrow> payment \<Rightarrow> sys \<Rightarrow> sys" where
  "set_payment k p s = s\<lparr>sys_payments := (sys_payments s)[k := p]\<rparr>"

definition object :: "sys \<Rightarrow> nat \<Rightarrow> TwoPhaseTransactionRecord" where
  "object s k = pm_tx (sys_payments s ! k)"

definition put_record :: "string \<Rightarrow> nat \<Rightarrow> sys \<Rightarrow> sys" where
  "put_record i k s =
     s\<lparr>sys_records := gput i k (sys_records s),
       sys_gw := (sys_gw s)\<lparr>gw_txs := CleanupTransaction (gw_txs (sys_gw s)) i\<rparr>\<rparr>"

definition drop_record :: "string \<Rightarrow> sys \<Rightarrow> sys" where
  "drop_record i s =
     s\<lparr>sys_records := gdel i (sys_records s),
       sys_gw := (sys_gw s)\<lparr>gw_txs := CleanupTransaction (gw_txs (sys_gw s)) i\<rparr>\<rparr>"

text \<open>A bank executes a call; the answer, or the error that the caller sees.\<close>

definition executes :: "string \<Rightarrow> remote_call \<Rightarrow> servers \<Rightarrow> servers \<times> (string + TwoPhaseResponse)" where
  "executes down c sv =
     execute_call down (\<lambda>b. method_of (rc_method c) b (rc_request c)) (rc_address c) sv"

definition is_commit :: "tp_method \<Rightarrow> bool" where
  "is_commit m \<longleftrightarrow> m = DoCommitDebit \<or> m = DoCommitCredit"

definition run_remote :: "string \<Rightarrow> remote_call \<Rightarrow> sys \<Rightarrow> sys \<times> (string + TwoPhaseResponse)" where
  "run_remote down c s =
     (case executes down c (gw_servers (sys_gw s)) of
        (sv, r) \<Rightarrow>
          (s\<lparr>sys_gw := (sys_gw s)\<lparr>gw_servers := sv\<rparr>,
             sys_log := (case r of
                 Inl _ \<Rightarrow> sys_log s
               | Inr resp \<Rightarrow> if is_commit (rc_method c) \<and> tpr_Success resp then c # sys_log s else sys_log s)\<rparr>, r))"

text \<open>A call with its fate, as \<open>grpc_call\<close>; a late one stays in flight.\<close>

definition remote :: "string \<Rightarrow> fate \<Rightarrow> remote_call \<Rightarrow> sys \<Rightarrow> sys \<times> (bool \<times> string option)" where
  "remote down fate c s =
     (case fate of
        Delivered \<Rightarrow> (case run_remote down c s of (s', r) \<Rightarrow> (s', grpc_result r))
      | Unreached e \<Rightarrow> (s, grpc_result (Inl e))
      | ReplyLost e \<Rightarrow> (fst (run_remote down c s), grpc_result (Inl e))
      | Late e \<Rightarrow> (s\<lparr>sys_flight := c # sys_flight s\<rparr>, grpc_result (Inl e)))"

subsection \<open>Steps of a payment\<close>

definition answer :: "bool \<Rightarrow> string \<Rightarrow> payment \<Rightarrow> PaymentResponse" where
  "answer success message p =
     \<lparr>resp_Success = success, resp_Message = message, resp_TransactionId = pm_id p,
      resp_Amount = pd_Amount (pm_req p), resp_Currency = bal_Currency (pm_balance p)\<rparr>"

definition paid :: "payment \<Rightarrow> payment" where
  "paid p = p\<lparr>pm_pc := Finished (answer True ''Payment processed successfully'' p)\<rparr>"

definition aborting :: "string \<Rightarrow> payment \<Rightarrow> payment" where
  "aborting msg p =
     p\<lparr>pm_tx := (pm_tx p)\<lparr>tx_State := TransactionAborting\<rparr>, pm_pc := AbortFind SenderRole msg\<rparr>"

text \<open>The decision of a phase when both of its goroutines are done.\<close>

definition decide ::
  "phase \<Rightarrow> string \<Rightarrow> string \<Rightarrow> bool \<times> string option \<Rightarrow> bool \<times> string option \<Rightarrow> payment \<Rightarrow> payment" where
  "decide ph sname rname rs rr p =
     (if ph = PreparePhase
      then (case phase_error ''sender bank declined: '' ''receiver bank declined: '' rs rr of
              Some e \<Rightarrow> aborting (''Prepare phase failed: '' @ e) p
            | None \<Rightarrow>
                if \<not> (gget False (tx_PrepareVotes (pm_tx p)) sname \<and> gget False (tx_PrepareVotes (pm_tx p)) rname)
                then aborting ''One or more banks declined the transaction'' p
                else p\<lparr>pm_tx := (pm_tx p)\<lparr>tx_State := TransactionPrepared\<rparr>, pm_pc := FindSender CommitPhase\<rparr>)
      else (case phase_error ''sender bank commit failed: '' ''receiver bank commit failed: '' rs rr of
              Some e \<Rightarrow> p\<lparr>pm_pc := CleanUp (''Commit phase failed: '' @ e)\<rparr>
            | None \<Rightarrow>
                if \<not> (gget False (tx_CommitVotes (pm_tx p)) sname \<and> gget False (tx_CommitVotes (pm_tx p)) rname)
                then p\<lparr>pm_pc := CleanUp ''One or more banks failed to commit the transaction''\<rparr>
                else p\<lparr>pm_tx := (pm_tx p)\<lparr>tx_State := TransactionCommitted\<rparr>, pm_pc := ReadSender\<rparr>))"

text \<open>What a balance becomes.\<close>

definition set_balance :: "nat \<Rightarrow> payment \<Rightarrow> string \<Rightarrow> Balance \<Rightarrow> pc \<Rightarrow> sys \<Rightarrow> sys" where
  "set_balance k p client b next s =
     (case UpdateBalance (gw_balances (sys_gw s)) client b of
        Inl _ \<Rightarrow> set_payment k (paid p) s
      | Inr bs \<Rightarrow>
          set_payment k (p\<lparr>pm_pc := next\<rparr>) (s\<lparr>sys_gw := (sys_gw s)\<lparr>gw_balances := bs\<rparr>\<rparr>))"

text \<open>The record found under an id, and its inspection.\<close>

definition find_record :: "nat \<Rightarrow> payment \<Rightarrow> (nat \<Rightarrow> pc) \<Rightarrow> pc \<Rightarrow> sys \<Rightarrow> sys" where
  "find_record k p inspect next s =
     set_payment k
       (p\<lparr>pm_pc := (case map_of (sys_records s) (pm_id p) of Some j \<Rightarrow> inspect j | None \<Rightarrow> next)\<rparr>) s"

text \<open>
  The steps that need no choice, at time \<open>now\<close>; \<open>None\<close> where the payment waits for something else. A record of
  another type than the two-phase one is passed over in \<open>Begin\<close>, as the gateway uses the two-phase commit.
\<close>

definition pay_go :: "int \<Rightarrow> nat \<Rightarrow> payment \<Rightarrow> sys \<Rightarrow> sys option" where
  "pay_go now k p s =
     (let w = sys_gw s; req = pm_req p; i = pm_id p
      in case pm_pc p of
           Begin \<Rightarrow> Some (find_record k p Inspect Funds s)
         | Inspect j \<Rightarrow>
             Some (set_payment k (p\<lparr>pm_pc :=
               (case cached_result True req i (Some (TwoPhaseTx (object s j))) of
                  Some resp \<Rightarrow> Finished resp | None \<Rightarrow> Funds)\<rparr>) s)
         | Funds \<Rightarrow>
             Some (set_payment k
               (case StorageGetBalance (gw_balances w) (pd_ClientName req) of
                  None \<Rightarrow> p\<lparr>pm_pc := Finished (payment_response False ''No balance information for client'')\<rparr>
                | Some balance \<Rightarrow>
                    if bal_Amount balance < pd_Amount req
                    then p\<lparr>pm_pc := Finished (payment_response False ''Insufficient funds'')\<rparr>
                    else p\<lparr>pm_balance := balance, pm_pc := Guard\<rparr>) s)
         | Guard \<Rightarrow> Some (find_record k p GuardInspect Enter s)
         | GuardInspect j \<Rightarrow>
             Some (set_payment k (p\<lparr>pm_pc :=
               (if tx_State (object s j) = TransactionPreparing \<or> tx_State (object s j) = TransactionCommitting
                then Finished (payment_response False ''Transaction already in progress'') else Enter)\<rparr>) s)
         | Enter \<Rightarrow>
             Some (put_record i k
               (set_payment k (p\<lparr>pm_tx := \<lparr>tx_ID = i, tx_Sender = pd_ClientName req,
                    tx_Receiver = pd_ReceiverName req, tx_Amount = pd_Amount req, tx_State = TransactionPreparing,
                    tx_PrepareVotes = [], tx_CommitVotes = [], tx_Timestamp = now,
                    tx_Timeout = gw_paymentTimeout w\<rparr>,
                  pm_pc := FindSender PreparePhase\<rparr>) s))
         | Mark ph sa sname ra rname \<Rightarrow>
             Some (set_payment k
               (p\<lparr>pm_tx := (pm_tx p)\<lparr>tx_State :=
                    (if ph = PreparePhase then TransactionPreparing else TransactionCommitting)\<rparr>,
                  pm_sender_result := None, pm_receiver_result := None, pm_pc := Calls ph sa sname ra rname\<rparr>) s)
         | Calls ph sa sname ra rname \<Rightarrow>
             (case (pm_sender_result p, pm_receiver_result p) of
                (Some rs, Some rr) \<Rightarrow> Some (set_payment k (decide ph sname rname rs rr p) s)
              | _ \<Rightarrow> None)
         | AbortEnd msg \<Rightarrow>
             Some (set_payment k
               (p\<lparr>pm_tx := (pm_tx p)\<lparr>tx_State := TransactionAborted\<rparr>, pm_pc := CleanUp msg\<rparr>) s)
         | ReadSender \<Rightarrow>
             Some (set_payment k
               (case StorageGetBalance (gw_balances w) (tx_Sender (pm_tx p)) of
                  None \<Rightarrow> paid p | Some b \<Rightarrow> p\<lparr>pm_pc := WriteSender b\<rparr>) s)
         | WriteSender b \<Rightarrow>
             Some (set_balance k p (tx_Sender (pm_tx p)) (b\<lparr>bal_Amount := bal_Amount b - tx_Amount (pm_tx p)\<rparr>)
               ReadReceiver s)
         | ReadReceiver \<Rightarrow>
             Some (set_payment k
               (case StorageGetBalance (gw_balances w) (tx_Receiver (pm_tx p)) of
                  None \<Rightarrow> paid p | Some b \<Rightarrow> p\<lparr>pm_pc := WriteReceiver b\<rparr>) s)
         | WriteReceiver b \<Rightarrow>
             Some (set_balance k p (tx_Receiver (pm_tx p)) (b\<lparr>bal_Amount := bal_Amount b + tx_Amount (pm_tx p)\<rparr>)
               (Saving 0) s)
         | CleanUp msg \<Rightarrow>
             Some (drop_record i (set_payment k (p\<lparr>pm_pc := Finished (answer False msg p)\<rparr>) s))
         | _ \<Rightarrow> None)"

text \<open>A look at the banking service, with the order of its loop and the outcome of the dial.\<close>

definition pay_look :: "call_env \<Rightarrow> nat \<Rightarrow> payment \<Rightarrow> sys \<Rightarrow> sys option" where
  "pay_look e k p s =
     (let find = (\<lambda>client. case find_bank e client (sys_gw s) of (w, r) \<Rightarrow> (s\<lparr>sys_gw := w\<rparr>, r));
          during = (\<lambda>ph. if ph = PreparePhase then '''' else '' during commit'')
      in case pm_pc p of
           FindSender ph \<Rightarrow>
             (case find (tx_Sender (pm_tx p)) of
                (s', Inl err) \<Rightarrow>
                  Some (set_payment k (aborting (''Failed to determine sender's bank'' @ during ph @ '': '' @ err) p) s')
              | (s', Inr (sa, sname)) \<Rightarrow> Some (set_payment k (p\<lparr>pm_pc := FindReceiver ph sa sname\<rparr>) s'))
         | FindReceiver ph sa sname \<Rightarrow>
             (case find (tx_Receiver (pm_tx p)) of
                (s', Inl err) \<Rightarrow>
                  Some (set_payment k (aborting (''Failed to determine receiver's bank'' @ during ph @ '': '' @ err) p) s')
              | (s', Inr (ra, rname)) \<Rightarrow> Some (set_payment k (p\<lparr>pm_pc := Mark ph sa sname ra rname\<rparr>) s'))
         | AbortFind role msg \<Rightarrow>
             (case find (if role = SenderRole then tx_Sender (pm_tx p) else tx_Receiver (pm_tx p)) of
                (s', Inl err) \<Rightarrow>
                  Some (set_payment k (p\<lparr>pm_pc := (if role = SenderRole then AbortFind ReceiverRole msg else AbortEnd msg)\<rparr>) s')
              | (s', Inr (a, _)) \<Rightarrow> Some (set_payment k (p\<lparr>pm_pc := AbortRemote role a msg\<rparr>) s'))
         | _ \<Rightarrow> None)"

text \<open>The call that a goroutine of a phase makes.\<close>

definition phase_remote :: "phase \<Rightarrow> role \<Rightarrow> string \<Rightarrow> TwoPhaseTransactionRecord \<Rightarrow> remote_call" where
  "phase_remote ph role address tx =
     \<lparr>rc_method =
        (if ph = PreparePhase then (if role = SenderRole then DoPrepareDebit else DoPrepareCredit)
         else (if role = SenderRole then DoCommitDebit else DoCommitCredit)),
      rc_request = two_phase_request (tx_ID tx) (if role = SenderRole then tx_Sender tx else tx_Receiver tx) (tx_Amount tx),
      rc_address = address\<rparr>"

definition add_vote :: "phase \<Rightarrow> string \<Rightarrow> bool \<Rightarrow> TwoPhaseTransactionRecord \<Rightarrow> TwoPhaseTransactionRecord" where
  "add_vote ph name v tx =
     (if ph = PreparePhase then tx\<lparr>tx_PrepareVotes := gput name v (tx_PrepareVotes tx)\<rparr>
      else tx\<lparr>tx_CommitVotes := gput name v (tx_CommitVotes tx)\<rparr>)"

text \<open>A remote call of the payment returns: one of the two goroutines, or a call of the abort.\<close>

definition pay_call :: "role \<Rightarrow> fate \<Rightarrow> string \<Rightarrow> nat \<Rightarrow> payment \<Rightarrow> sys \<Rightarrow> sys option" where
  "pay_call role fate down k p s =
     (case pm_pc p of
        Calls ph sa sname ra rname \<Rightarrow>
          (if role = SenderRole
           then (if pm_sender_result p \<noteq> None then None
                 else case remote down fate (phase_remote ph SenderRole sa (pm_tx p)) s of
                        (s', r) \<Rightarrow>
                          Some (set_payment k (p\<lparr>pm_sender_result := Some r,
                                  pm_tx := add_vote ph sname (fst r) (pm_tx p)\<rparr>) s'))
           else (if pm_receiver_result p \<noteq> None then None
                 else case remote down fate (phase_remote ph ReceiverRole ra (pm_tx p)) s of
                        (s', r) \<Rightarrow>
                          Some (set_payment k (p\<lparr>pm_receiver_result := Some r,
                                  pm_tx := add_vote ph rname (fst r) (pm_tx p)\<rparr>) s')))
      | AbortRemote role' a msg \<Rightarrow>
          (case remote down fate \<lparr>rc_method = DoAbort, rc_request = abort_request (pm_id p), rc_address = a\<rparr> s of
             (s', _) \<Rightarrow>
               Some (set_payment k
                 (p\<lparr>pm_pc := (if role' = SenderRole then AbortFind ReceiverRole msg else AbortEnd msg)\<rparr>) s'))
      | _ \<Rightarrow> None)"

text \<open>
  The select of a phase leaves through the timeout, which it can also do when the calls are done. Calls that have
  not returned may still reach their banks; the votes they record then are not read any more.
\<close>

definition pay_timeout :: "nat \<Rightarrow> payment \<Rightarrow> sys \<Rightarrow> sys option" where
  "pay_timeout k p s =
     (case pm_pc p of
        Calls ph sa sname ra rname \<Rightarrow>
          (let late = (if pm_sender_result p = None then [phase_remote ph SenderRole sa (pm_tx p)] else [])
                 @ (if pm_receiver_result p = None then [phase_remote ph ReceiverRole ra (pm_tx p)] else []);
               msg = (if ph = PreparePhase then ''Transaction timed out during prepare phase''
                      else ''Transaction timed out during commit phase'')
           in Some (set_payment k (aborting msg p) (s\<lparr>sys_flight := late @ sys_flight s\<rparr>)))
      | _ \<Rightarrow> None)"

definition pay_save :: "string list \<Rightarrow> string option \<Rightarrow> nat \<Rightarrow> payment \<Rightarrow> sys \<Rightarrow> sys option" where
  "pay_save order write_error k p s =
     (case pm_pc p of
        Saving n \<Rightarrow>
          (case SaveBalances order write_error (gw_balances (sys_gw s)) of
             (b, r) \<Rightarrow>
               Some (set_payment k
                 (if r = None \<or> n \<ge> 2 then paid p else p\<lparr>pm_pc := Saving (n + 1)\<rparr>)
                 (s\<lparr>sys_gw := (sys_gw s)\<lparr>gw_balances := b\<rparr>\<rparr>)))
      | _ \<Rightarrow> None)"

subsection \<open>Steps of the system\<close>

datatype event =
    Go int nat
  | Look call_env nat
  | Return role fate string nat
  | Timeout nat
  | Save "string list" "string option" nat
  | Arrive string nat
  | Expire int

text \<open>The clean-up routine: expired records are removed, those of unfinished transactions marked as aborted.\<close>

definition expired :: "int \<Rightarrow> sys \<Rightarrow> nat \<Rightarrow> bool" where
  "expired now s k \<longleftrightarrow> now - tx_Timestamp (object s k) > tm_ttl (gw_txs (sys_gw s))"

definition expire :: "int \<Rightarrow> sys \<Rightarrow> sys" where
  "expire now s =
     (let old = map snd (filter (\<lambda>(i, k). expired now s k) (sys_records s));
          mark = (\<lambda>p. if tx_State (pm_tx p) \<noteq> TransactionCommitted \<and> tx_State (pm_tx p) \<noteq> TransactionAborted
                      then p\<lparr>pm_tx := (pm_tx p)\<lparr>tx_State := TransactionAborted\<rparr>\<rparr> else p)
      in s\<lparr>sys_payments := map (\<lambda>(k, p). if k \<in> set old then mark p else p)
                             (zip [0..<length (sys_payments s)] (sys_payments s)),
           sys_records := filter (\<lambda>(i, k). \<not> expired now s k) (sys_records s),
           sys_gw := (sys_gw s)\<lparr>gw_txs := cleanupExpiredTransactions now (gw_txs (sys_gw s))\<rparr>\<rparr>)"

definition with_payment :: "(nat \<Rightarrow> payment \<Rightarrow> sys \<Rightarrow> sys option) \<Rightarrow> nat \<Rightarrow> sys \<Rightarrow> sys option" where
  "with_payment f k s = (if k < length (sys_payments s) then f k (sys_payments s ! k) s else None)"

definition drop_nth :: "nat \<Rightarrow> 'a list \<Rightarrow> 'a list" where
  "drop_nth n xs = take n xs @ drop (Suc n) xs"

fun concurrent_step :: "event \<Rightarrow> sys \<Rightarrow> sys option" where
  "concurrent_step (Go now k) s = with_payment (pay_go now) k s"
| "concurrent_step (Look e k) s = with_payment (pay_look e) k s"
| "concurrent_step (Return role fate down k) s = with_payment (pay_call role fate down) k s"
| "concurrent_step (Timeout k) s = with_payment pay_timeout k s"
| "concurrent_step (Save order err k) s = with_payment (pay_save order err) k s"
| "concurrent_step (Arrive down n) s =
     (if n < length (sys_flight s)
      then Some (fst (run_remote down (sys_flight s ! n) (s\<lparr>sys_flight := drop_nth n (sys_flight s)\<rparr>)))
      else None)"
| "concurrent_step (Expire now) s = Some (expire now s)"

fun run_events :: "event list \<Rightarrow> sys \<Rightarrow> sys option" where
  "run_events [] s = Some s"
| "run_events (e # es) s = (case concurrent_step e s of None \<Rightarrow> None | Some s' \<Rightarrow> run_events es s')"

text \<open>Requests that have passed the checks of user name and transaction id, at a gateway that runs none yet.\<close>

definition arrivals :: "gateway \<Rightarrow> (string \<times> PaymentDetails) list \<Rightarrow> sys" where
  "arrivals w reqs =
     \<lparr>sys_gw = w, sys_payments = map (\<lambda>(i, req). new_payment i req) reqs, sys_records = [],
      sys_flight = [], sys_log = []\<rparr>"

end
