(* ===== verification/Strife_Concurrent_Laws.thy ===== *)
theory Strife_Concurrent_Laws
  imports Strife_Concurrent Strife_Gateway_Theorems
begin

text \<open>
  The invariant of payments that run at the same time (Strife_Concurrent). A plan fixes the requests of a run and
  the homes of their clients. The invariant says which promises of the banks each place of a payment can rely on, that
  the commit of a payment is executed or in flight at most once, and that a balance at a bank is what the executed
  commits make of the initial one, in the order of their execution. Every step keeps it.
\<close>

subsection \<open>The payments of a run\<close>

text \<open>What is fixed in a run: the requests, and the addresses of the banks of their senders and receivers.\<close>

record plan =
  pl_requests :: "(string \<times> PaymentDetails) list"
  pl_sender_bank :: "nat \<Rightarrow> string"
  pl_receiver_bank :: "nat \<Rightarrow> string"

abbreviation pl_size :: "plan \<Rightarrow> nat" where
  "pl_size P \<equiv> length (pl_requests P)"

abbreviation pl_id :: "plan \<Rightarrow> nat \<Rightarrow> string" where
  "pl_id P k \<equiv> fst (pl_requests P ! k)"

abbreviation pl_sender :: "plan \<Rightarrow> nat \<Rightarrow> string" where
  "pl_sender P k \<equiv> pd_ClientName (snd (pl_requests P ! k))"

abbreviation pl_receiver :: "plan \<Rightarrow> nat \<Rightarrow> string" where
  "pl_receiver P k \<equiv> pd_ReceiverName (snd (pl_requests P ! k))"

abbreviation pl_amount :: "plan \<Rightarrow> nat \<Rightarrow> f32" where
  "pl_amount P k \<equiv> pd_Amount (snd (pl_requests P ! k))"

text \<open>
  Two-phase payments with ids of their own, from and to clients who each have an account at one of the banks
  that the gateway knows, and at one only. Amounts and balances are any values of float32, and the two banks may
  be one.
\<close>

definition proper_plan :: "plan \<Rightarrow> gateway \<Rightarrow> bool" where
  "proper_plan P w \<longleftrightarrow>
     distinct (map fst (pl_requests P))
     \<and> (\<forall>k < pl_size P. pl_receiver P k \<noteq> ''''
          \<and> client_home (bank_view (gw_banking w)) (pl_sender P k) (pl_sender_bank P k)
          \<and> client_home (bank_view (gw_banking w)) (pl_receiver P k) (pl_receiver_bank P k))"

subsection \<open>What has happened at the banks\<close>

definition occurrences :: "tp_method \<Rightarrow> string \<Rightarrow> remote_call list \<Rightarrow> nat" where
  "occurrences m i cs = length (filter (\<lambda>c. rc_method c = m \<and> tp_TransactionId (rc_request c) = i) cs)"

lemma occurrences_simps [simp]:
  "occurrences m i [] = 0"
  "occurrences m i (c # cs) =
     (if rc_method c = m \<and> tp_TransactionId (rc_request c) = i then Suc (occurrences m i cs) else occurrences m i cs)"
  "occurrences m i (cs @ ds) = occurrences m i cs + occurrences m i ds"
  by (simp_all add: occurrences_def)

text \<open>What an executed commit does to the balance of client \<open>cl\<close> at the bank at address \<open>a\<close>.\<close>

definition effect_on :: "tp_method \<Rightarrow> f32 \<Rightarrow> f32 \<Rightarrow> f32" where
  "effect_on m b x = (if m = DoCommitDebit then b - x else b + x)"

definition booked :: "string \<Rightarrow> string \<Rightarrow> remote_call \<Rightarrow> f32 \<Rightarrow> f32" where
  "booked a cl c x =
     (if rc_address c = a \<and> tp_ClientName (rc_request c) = cl
      then effect_on (rc_method c) x (tp_Amount (rc_request c)) else x)"

text \<open>The bank at an address knows a transaction.\<close>

definition known :: "sys \<Rightarrow> string \<Rightarrow> string \<Rightarrow> bool" where
  "known s a i \<longleftrightarrow> (\<exists>b. map_of (gw_servers (sys_gw s)) a = Some b \<and> tx_state b i \<noteq> None)"

subsection \<open>Where a payment can stand\<close>

text \<open>Answers that leave open what happened at the banks.\<close>

definition doubtful :: "string \<Rightarrow> bool" where
  "doubtful m \<longleftrightarrow> m = ''Transaction timed out during commit phase''
     \<or> m = ''One or more banks failed to commit the transaction'' \<or> take 21 m = ''Commit phase failed: ''"

fun settled :: "pc \<Rightarrow> bool" where
  "settled ReadSender = True"
| "settled (WriteSender _) = True"
| "settled ReadReceiver = True"
| "settled (WriteReceiver _) = True"
| "settled (Saving _) = True"
| "settled (Finished r) = resp_Success r"
| "settled _ = False"

fun may_commit :: "pc \<Rightarrow> bool" where
  "may_commit (Calls ph _ _ _ _) = (ph \<noteq> PreparePhase)"
| "may_commit (AbortFind _ m) = doubtful m"
| "may_commit (AbortRemote _ _ m) = doubtful m"
| "may_commit (AbortEnd m) = doubtful m"
| "may_commit (CleanUp m) = doubtful m"
| "may_commit (Finished r) = (resp_Success r \<or> doubtful (resp_Message r))"
| "may_commit pc = settled pc"

fun both_known :: "pc \<Rightarrow> bool" where
  "both_known (FindSender ph) = (ph \<noteq> PreparePhase)"
| "both_known (FindReceiver ph _ _) = (ph \<noteq> PreparePhase)"
| "both_known (Mark ph _ _ _ _) = (ph \<noteq> PreparePhase)"
| "both_known pc = may_commit pc"

fun homes_ok :: "string \<Rightarrow> string \<Rightarrow> pc \<Rightarrow> bool" where
  "homes_ok sa ra (FindReceiver _ a _) = (a = sa)"
| "homes_ok sa ra (Mark _ a _ b _) = (a = sa \<and> b = ra)"
| "homes_ok sa ra (Calls _ a _ b _) = (a = sa \<and> b = ra)"
| "homes_ok sa ra (Inspect _) = False"
| "homes_ok sa ra (GuardInspect _) = False"
| "homes_ok sa ra _ = True"

text \<open>The result of a goroutine tells what happened: \<open>kn\<close> known to the bank, \<open>l\<close> executed, \<open>f\<close> in flight.\<close>

definition result_ok :: "phase \<Rightarrow> bool \<Rightarrow> nat \<Rightarrow> nat \<Rightarrow> (bool \<times> string option) option \<Rightarrow> bool" where
  "result_ok ph kn l f r \<longleftrightarrow>
     (if ph = PreparePhase then (case r of Some (True, _) \<Rightarrow> kn | _ \<Rightarrow> True)
      else (case r of None \<Rightarrow> l + f = 0 | Some (True, _) \<Rightarrow> l = 1 | _ \<Rightarrow> True))"

fun calls_ok :: "bool \<Rightarrow> bool \<Rightarrow> nat \<Rightarrow> nat \<Rightarrow> nat \<Rightarrow> nat \<Rightarrow> payment \<Rightarrow> pc \<Rightarrow> bool" where
  "calls_ok ks kr ls lr fs fr p (Calls ph _ _ _ _) =
     (result_ok ph ks ls fs (pm_sender_result p) \<and> result_ok ph kr lr fr (pm_receiver_result p))"
| "calls_ok ks kr ls lr fs fr p _ = True"

definition pay_ok ::
  "bool \<Rightarrow> bool \<Rightarrow> nat \<Rightarrow> nat \<Rightarrow> nat \<Rightarrow> nat \<Rightarrow> string \<Rightarrow> string \<Rightarrow> payment \<Rightarrow> bool" where
  "pay_ok ks kr ls lr fs fr sa ra p \<longleftrightarrow>
     homes_ok sa ra (pm_pc p) \<and> (both_known (pm_pc p) \<longrightarrow> ks \<and> kr)
     \<and> (\<not> may_commit (pm_pc p) \<longrightarrow> ls + fs = 0 \<and> lr + fr = 0) \<and> ls + fs \<le> 1 \<and> lr + fr \<le> 1
     \<and> (settled (pm_pc p) \<longrightarrow> ls = 1 \<and> lr = 1) \<and> calls_ok ks kr ls lr fs fr p (pm_pc p)"

subsection \<open>The invariant\<close>

definition payment_ok :: "plan \<Rightarrow> sys \<Rightarrow> nat \<Rightarrow> payment \<Rightarrow> bool" where
  "payment_ok P s k p \<longleftrightarrow>
     pay_ok (known s (pl_sender_bank P k) (pl_id P k)) (known s (pl_receiver_bank P k) (pl_id P k))
       (occurrences DoCommitDebit (pl_id P k) (sys_log s)) (occurrences DoCommitCredit (pl_id P k) (sys_log s))
       (occurrences DoCommitDebit (pl_id P k) (sys_flight s)) (occurrences DoCommitCredit (pl_id P k) (sys_flight s))
       (pl_sender_bank P k) (pl_receiver_bank P k) p"

text \<open>The fields of a payment that no step changes.\<close>

definition static :: "plan \<Rightarrow> nat \<Rightarrow> payment \<Rightarrow> bool" where
  "static P k p \<longleftrightarrow>
     pm_req p = snd (pl_requests P ! k) \<and> pm_id p = pl_id P k \<and> tx_ID (pm_tx p) = pl_id P k
     \<and> tx_Sender (pm_tx p) = pl_sender P k \<and> tx_Receiver (pm_tx p) = pl_receiver P k
     \<and> tx_Amount (pm_tx p) = pl_amount P k"

fun early :: "pc \<Rightarrow> bool" where
  "early Begin = True"
| "early Funds = True"
| "early Guard = True"
| "early Enter = True"
| "early _ = False"

text \<open>A commit that is in flight or executed is the one of its payment.\<close>

definition commit_of :: "plan \<Rightarrow> nat \<Rightarrow> remote_call \<Rightarrow> bool" where
  "commit_of P k c \<longleftrightarrow>
     (rc_method c = DoCommitDebit
        \<and> rc_request c = two_phase_request (pl_id P k) (pl_sender P k) (pl_amount P k)
        \<and> rc_address c = pl_sender_bank P k)
     \<or> (rc_method c = DoCommitCredit
        \<and> rc_request c = two_phase_request (pl_id P k) (pl_receiver P k) (pl_amount P k)
        \<and> rc_address c = pl_receiver_bank P k)"

definition flights_ok :: "plan \<Rightarrow> remote_call list \<Rightarrow> bool" where
  "flights_ok P cs \<longleftrightarrow> (\<forall>c \<in> set cs. is_commit (rc_method c) \<longrightarrow> (\<exists>k < pl_size P. commit_of P k c))"

definition banks_ok :: "plan \<Rightarrow> gateway \<Rightarrow> sys \<Rightarrow> bool" where
  "banks_ok P w s \<longleftrightarrow>
     bank_view (gw_banking (sys_gw s)) = bank_view (gw_banking w)
     \<and> dom (map_of (gw_servers (sys_gw s))) = dom (map_of (gw_servers w))
     \<and> (\<forall>a b0 b cl. map_of (gw_servers w) a = Some b0 \<longrightarrow> map_of (gw_servers (sys_gw s)) a = Some b \<longrightarrow>
          balance_of b cl = foldr (booked a cl) (sys_log s) (balance_of b0 cl))
     \<and> (\<forall>c \<in> set (sys_log s). \<exists>k < pl_size P. commit_of P k c)"

definition records_ok :: "plan \<Rightarrow> sys \<Rightarrow> bool" where
  "records_ok P s \<longleftrightarrow>
     (\<forall>(i, k) \<in> set (sys_records s). k < pl_size P \<and> pl_id P k = i \<and> \<not> early (pm_pc (sys_payments s ! k)))"

definition run_ok :: "plan \<Rightarrow> gateway \<Rightarrow> sys \<Rightarrow> bool" where
  "run_ok P w s \<longleftrightarrow>
     length (sys_payments s) = pl_size P
     \<and> (\<forall>k < pl_size P. static P k (sys_payments s ! k) \<and> payment_ok P s k (sys_payments s ! k))
     \<and> banks_ok P w s \<and> records_ok P s \<and> flights_ok P (sys_flight s)"

subsection \<open>Calls\<close>

text \<open>What every call does to the bank that executes it; only the commit of an unknown debit would end the process.\<close>

lemma method_cases:
  assumes "m = DoCommitDebit \<Longrightarrow> tx_state b (tp_TransactionId req) \<noteq> None"
  obtains b' r where "method_of m b req = Some (b', r)"
    and "\<And>j. tx_state b j \<noteq> None \<Longrightarrow> tx_state b' j \<noteq> None"
    and "tpr_Success r \<Longrightarrow> m \<noteq> DoAbort \<Longrightarrow> tx_state b' (tp_TransactionId req) \<noteq> None"
    and "balance_of b' = (if is_commit m \<and> tpr_Success r
      then (balance_of b)(tp_ClientName req := effect_on m (balance_of b (tp_ClientName req)) (tp_Amount req))
      else balance_of b)"
proof (cases m)
  case DoPrepareDebit
  show ?thesis
  proof (rule debit.prepare_cases [of b req])
    fix b' r
    assume "PrepareDebit b req = Some (b', r)" "tpr_Success r" "balance_of b' = balance_of b"
      "tx_state b' = (tx_state b)(tp_TransactionId req \<mapsto> ''prepared'')"
    then show ?thesis
      by (intro that [of b' r]) (use DoPrepareDebit in \<open>auto simp: is_commit_def split: if_splits\<close>)
  next
    fix r
    assume "PrepareDebit b req = Some (b, r)" "\<not> tpr_Success r"
    then show ?thesis
      by (intro that [of b r]) (use DoPrepareDebit in \<open>auto simp: is_commit_def\<close>)
  qed
next
  case DoPrepareCredit
  show ?thesis
  proof (rule credit.prepare_cases [of b req])
    fix b' r
    assume "PrepareCredit b req = Some (b', r)" "tpr_Success r" "balance_of b' = balance_of b"
      "tx_state b' = (tx_state b)(tp_TransactionId req \<mapsto> ''prepared'')"
    then show ?thesis
      by (intro that [of b' r]) (use DoPrepareCredit in \<open>auto simp: is_commit_def split: if_splits\<close>)
  next
    fix r
    assume "PrepareCredit b req = Some (b, r)" "\<not> tpr_Success r"
    then show ?thesis
      by (intro that [of b r]) (use DoPrepareCredit in \<open>auto simp: is_commit_def\<close>)
  qed
next
  case DoCommitDebit
  then obtain b' r where c: "CommitDebit b req = Some (b', r)"
    using debit.commit_total_known [of b req] assms by fastforce
  show ?thesis
  proof (cases "tpr_Success r")
    case True
    show ?thesis
      by (rule that [of b' r])
        (use DoCommitDebit c True debit.commit_yes [OF c True] in \<open>auto simp: is_commit_def effect_on_def split: if_splits\<close>)
  next
    case False
    show ?thesis
      by (rule that [of b' r])
        (use DoCommitDebit c False debit.commit_no [OF c False] in \<open>auto simp: is_commit_def\<close>)
  qed
next
  case DoCommitCredit
  then obtain b' r where c: "CommitCredit b req = Some (b', r)"
    by (cases "tx_state b (tp_TransactionId req) = Some ''prepared''")
      (use CommitCredit_cases [of b req] in \<open>fastforce+\<close>)
  show ?thesis
  proof (cases "tpr_Success r")
    case True
    show ?thesis
      by (rule that [of b' r])
        (use DoCommitCredit c True credit.commit_yes [OF c True] in \<open>auto simp: is_commit_def effect_on_def split: if_splits\<close>)
  next
    case False
    show ?thesis
      by (rule that [of b' r])
        (use DoCommitCredit c False credit.commit_no [OF c False] in \<open>auto simp: is_commit_def\<close>)
  qed
next
  case DoAbort
  obtain b' r where c: "BankAbort b req = Some (b', r)"
    by (cases "map_of (bank_transactions b) (tp_TransactionId req)") (auto simp: BankAbort_def)
  then have "b' = b \<or> (\<exists>tx. b' = set_state (tp_TransactionId req) tx ''aborted'' b)"
    by (auto simp: BankAbort_def split: option.splits)
  then show ?thesis
    by (intro that [of b' r]) (use DoAbort c in \<open>auto simp: is_commit_def bank_simps split: if_splits\<close>)
qed

lemma run_remote_cases:
  assumes "\<forall>b. map_of (gw_servers (sys_gw s)) (rc_address c) = Some b \<and> rc_method c = DoCommitDebit \<longrightarrow>
    tx_state b (tp_TransactionId (rc_request c)) \<noteq> None"
  obtains (absent) "run_remote down c s = (s, Inl down)"
      and "map_of (gw_servers (sys_gw s)) (rc_address c) = None"
  | (executed) b b' r where "map_of (gw_servers (sys_gw s)) (rc_address c) = Some b"
      and "run_remote down c s =
        (s\<lparr>sys_gw := (sys_gw s)\<lparr>gw_servers := gput (rc_address c) b' (gw_servers (sys_gw s))\<rparr>,
           sys_log := (if is_commit (rc_method c) \<and> tpr_Success r then c # sys_log s else sys_log s)\<rparr>, Inr r)"
      and "\<And>j. tx_state b j \<noteq> None \<Longrightarrow> tx_state b' j \<noteq> None"
      and "tpr_Success r \<Longrightarrow> rc_method c \<noteq> DoAbort \<Longrightarrow> tx_state b' (tp_TransactionId (rc_request c)) \<noteq> None"
      and "balance_of b' = (if is_commit (rc_method c) \<and> tpr_Success r
        then (balance_of b)(tp_ClientName (rc_request c) :=
          effect_on (rc_method c) (balance_of b (tp_ClientName (rc_request c))) (tp_Amount (rc_request c)))
        else balance_of b)"
proof (cases "map_of (gw_servers (sys_gw s)) (rc_address c)")
  case None
  then have "run_remote down c s = (s, Inl down)"
    by (simp add: run_remote_def executes_def execute_call_def)
  then show ?thesis using None by (rule absent)
next
  case (Some b)
  show ?thesis
  proof (rule method_cases [of "rc_method c" b "rc_request c"])
    show "rc_method c = DoCommitDebit \<Longrightarrow> tx_state b (tp_TransactionId (rc_request c)) \<noteq> None"
      using assms Some by simp
  next
    fix b' r
    assume m: "method_of (rc_method c) b (rc_request c) = Some (b', r)"
      and *: "\<And>j. tx_state b j \<noteq> None \<Longrightarrow> tx_state b' j \<noteq> None"
        "tpr_Success r \<Longrightarrow> rc_method c \<noteq> DoAbort \<Longrightarrow> tx_state b' (tp_TransactionId (rc_request c)) \<noteq> None"
        "balance_of b' = (if is_commit (rc_method c) \<and> tpr_Success r
        then (balance_of b)(tp_ClientName (rc_request c) :=
          effect_on (rc_method c) (balance_of b (tp_ClientName (rc_request c))) (tp_Amount (rc_request c)))
        else balance_of b)"
    have "run_remote down c s =
        (s\<lparr>sys_gw := (sys_gw s)\<lparr>gw_servers := gput (rc_address c) b' (gw_servers (sys_gw s))\<rparr>,
           sys_log := (if is_commit (rc_method c) \<and> tpr_Success r then c # sys_log s else sys_log s)\<rparr>, Inr r)"
      using Some m by (simp add: run_remote_def executes_def execute_call_def)
    then show ?thesis using * by (rule executed [OF Some])
  qed
qed


lemma plan_ids: "proper_plan P w \<Longrightarrow> j < pl_size P \<Longrightarrow> k < pl_size P \<Longrightarrow> pl_id P j = pl_id P k \<longleftrightarrow> j = k"
  by (metis length_map nth_eq_iff_index_eq nth_map proper_plan_def)

lemma banks_ok_same:
  "banks_ok P w s \<Longrightarrow> sys_log s' = sys_log s \<Longrightarrow> gw_servers (sys_gw s') = gw_servers (sys_gw s) \<Longrightarrow>
    bank_view (gw_banking (sys_gw s')) = bank_view (gw_banking (sys_gw s)) \<Longrightarrow> banks_ok P w s'"
  by (simp add: banks_ok_def)


subsection \<open>Remote calls keep the banks in order\<close>

text \<open>A commit may only be made for a payment that the bank knows, and once.\<close>

definition legal :: "plan \<Rightarrow> sys \<Rightarrow> remote_call \<Rightarrow> bool" where
  "legal P s c \<longleftrightarrow>
     (is_commit (rc_method c) \<longrightarrow>
        (\<exists>k < pl_size P. commit_of P k c \<and> known s (rc_address c) (pl_id P k)
           \<and> occurrences (rc_method c) (pl_id P k) (sys_log s) = 0))"

lemma commit_of_id: "commit_of P k c \<Longrightarrow> tp_TransactionId (rc_request c) = pl_id P k"
  by (auto simp: commit_of_def two_phase_request_def)

lemma run_remote_ok:
  assumes P: "proper_plan P w" and banks: "banks_ok P w s" and legal: "legal P s c"
    and run: "run_remote down c s = (s', r)"
  shows "banks_ok P w s'" and "known s a i \<Longrightarrow> known s' a i"
    and "sys_payments s' = sys_payments s \<and> sys_records s' = sys_records s \<and> sys_flight s' = sys_flight s"
    and "sys_log s' = (case r of Inl _ \<Rightarrow> sys_log s
      | Inr resp \<Rightarrow> if is_commit (rc_method c) \<and> tpr_Success resp then c # sys_log s else sys_log s)"
    and "r = Inr resp \<Longrightarrow> tpr_Success resp \<Longrightarrow> rc_method c \<noteq> DoAbort \<Longrightarrow>
      known s' (rc_address c) (tp_TransactionId (rc_request c))"
proof -
  have tx: "\<forall>b. map_of (gw_servers (sys_gw s)) (rc_address c) = Some b \<and> rc_method c = DoCommitDebit \<longrightarrow>
      tx_state b (tp_TransactionId (rc_request c)) \<noteq> None"
    using legal commit_of_id by (fastforce simp: legal_def is_commit_def known_def)
  have "banks_ok P w s' \<and> (\<forall>a i. known s a i \<longrightarrow> known s' a i)
    \<and> sys_payments s' = sys_payments s \<and> sys_records s' = sys_records s \<and> sys_flight s' = sys_flight s
    \<and> sys_log s' = (case r of Inl _ \<Rightarrow> sys_log s
      | Inr resp \<Rightarrow> if is_commit (rc_method c) \<and> tpr_Success resp then c # sys_log s else sys_log s)
    \<and> (\<forall>resp. r = Inr resp \<and> tpr_Success resp \<and> rc_method c \<noteq> DoAbort \<longrightarrow>
      known s' (rc_address c) (tp_TransactionId (rc_request c)))"
  proof (cases rule: run_remote_cases [where s = s and c = c and down = down, OF tx, case_names absent executed])
    case absent
    then have "s' = s" "r = Inl down" using run by simp_all
    then show ?thesis using banks by simp
  next
    case (executed b b' resp)
    let ?moves = "is_commit (rc_method c) \<and> tpr_Success resp"
    have s': "s' = s\<lparr>sys_gw := (sys_gw s)\<lparr>gw_servers := gput (rc_address c) b' (gw_servers (sys_gw s))\<rparr>,
        sys_log := (if ?moves then c # sys_log s else sys_log s)\<rparr>" and r: "r = Inr resp"
      using run executed(2) by simp_all
    have servers: "map_of (gw_servers (sys_gw s')) = (map_of (gw_servers (sys_gw s)))(rc_address c \<mapsto> b')"
      by (simp add: s')
    have log: "sys_log s' = (if ?moves then c # sys_log s else sys_log s)" by (simp add: s')
    have old: "balance_of d cl = foldr (booked a cl) (sys_log s) (balance_of b0 cl)"
      if "map_of (gw_servers w) a = Some b0" "map_of (gw_servers (sys_gw s)) a = Some d" for a b0 d cl
      using banks that by (simp add: banks_ok_def)
    have bal: "balance_of d cl = foldr (booked a cl) (sys_log s') (balance_of b0 cl)"
      if b0: "map_of (gw_servers w) a = Some b0" and d: "map_of (gw_servers (sys_gw s')) a = Some d" for a b0 d cl
    proof (cases "a = rc_address c")
      case True
      then have "d = b'" and b: "map_of (gw_servers (sys_gw s)) a = Some b" using d servers executed(1) by simp_all
      then show ?thesis using old [OF b0 b, of cl] executed(5) True by (auto simp: log booked_def)
    next
      case False
      then have "map_of (gw_servers (sys_gw s)) a = Some d" using d servers by simp
      from old [OF b0 this] show ?thesis using False by (simp add: log booked_def)
    qed
    have "\<forall>c \<in> set (sys_log s'). \<exists>k < pl_size P. commit_of P k c"
      using banks legal by (auto simp: log banks_ok_def legal_def)
    moreover     have "dom (map_of (gw_servers (sys_gw s'))) = dom (map_of (gw_servers w))"
      using banks executed(1) servers by (auto simp: banks_ok_def)
    ultimately have "banks_ok P w s'" using banks bal by (simp add: banks_ok_def) (simp add: s')
    moreover have "known s' a i" if "known s a i" for a i
      using that executed(1,3) servers by (auto simp: known_def)
    moreover have "known s' (rc_address c) (tp_TransactionId (rc_request c))"
      if "tpr_Success resp" "rc_method c \<noteq> DoAbort"
      using executed(4) [OF that] servers by (auto simp: known_def)
    ultimately show ?thesis by (auto simp: s' r)
  qed
  then show "banks_ok P w s'" and "known s a i \<Longrightarrow> known s' a i"
    and "sys_payments s' = sys_payments s \<and> sys_records s' = sys_records s \<and> sys_flight s' = sys_flight s"
    and "sys_log s' = (case r of Inl _ \<Rightarrow> sys_log s
      | Inr resp \<Rightarrow> if is_commit (rc_method c) \<and> tpr_Success resp then c # sys_log s else sys_log s)"
    and "r = Inr resp \<Longrightarrow> tpr_Success resp \<Longrightarrow> rc_method c \<noteq> DoAbort \<Longrightarrow>
      known s' (rc_address c) (tp_TransactionId (rc_request c))"
    by blast+
qed


text \<open>The same for a call with its fate; a late commit goes into flight.\<close>

definition call_effect :: "remote_call \<Rightarrow> sys \<Rightarrow> sys \<Rightarrow> bool \<Rightarrow> bool" where
  "call_effect c s s' ok \<longleftrightarrow>
     sys_log s' = sys_log s \<and> sys_flight s' = sys_flight s \<and> (ok \<longrightarrow> \<not> is_commit (rc_method c))
     \<or> is_commit (rc_method c) \<and> sys_log s' = c # sys_log s \<and> sys_flight s' = sys_flight s
     \<or> sys_log s' = sys_log s \<and> sys_flight s' = c # sys_flight s \<and> \<not> ok"

lemma remote_ok:
  assumes P: "proper_plan P w" and banks: "banks_ok P w s" and legal: "legal P s c"
    and run: "remote down fate c s = (s', r)"
  shows "banks_ok P w s'" and "known s a i \<Longrightarrow> known s' a i"
    and "sys_payments s' = sys_payments s" and "sys_records s' = sys_records s"
    and "call_effect c s s' (fst r)"
    and "fst r \<Longrightarrow> rc_method c \<noteq> DoAbort \<Longrightarrow> known s' (rc_address c) (tp_TransactionId (rc_request c))"
proof -
  obtain s1 x where x: "run_remote down c s = (s1, x)" by fastforce
  note one = run_remote_ok [OF P banks legal x]
  have x_ok: "fst (grpc_result x) \<longleftrightarrow> (\<exists>resp. x = Inr resp \<and> tpr_Success resp)"
    by (auto simp: grpc_result_def split: sum.splits)
  have lost: "\<not> fst (grpc_result (Inl e))" for e by (simp add: grpc_result_def)
  have effect: "call_effect c s s1 ok" if "ok \<longrightarrow> fst (grpc_result x)" for ok
    using one(3,4) that x_ok by (cases x) (auto simp: call_effect_def)
  have "banks_ok P w s' \<and> (\<forall>a i. known s a i \<longrightarrow> known s' a i)
    \<and> sys_payments s' = sys_payments s \<and> sys_records s' = sys_records s \<and> call_effect c s s' (fst r)
    \<and> (fst r \<and> rc_method c \<noteq> DoAbort \<longrightarrow> known s' (rc_address c) (tp_TransactionId (rc_request c)))"
  proof (cases fate)
    case Delivered
    then have "s' = s1" "r = grpc_result x" using run x by (simp_all add: remote_def)
    then show ?thesis using one(1,3) one(2) effect x_ok one(5) by blast
  next
    case (Unreached e)
    then show ?thesis using run banks lost by (auto simp: remote_def call_effect_def)
  next
    case (ReplyLost e)
    then have "s' = s1" "\<not> fst r" using run x lost by (auto simp: remote_def)
    then show ?thesis using one(1,3) one(2) effect by blast
  next
    case (Late e)
    then have s': "s' = s\<lparr>sys_flight := c # sys_flight s\<rparr>" and r: "\<not> fst r"
      using run lost by (auto simp: remote_def)
    then show ?thesis using banks r by (simp add: s' banks_ok_def known_def call_effect_def)
  qed
  then show "banks_ok P w s'" and "known s a i \<Longrightarrow> known s' a i"
    and "sys_payments s' = sys_payments s" and "sys_records s' = sys_records s"
    and "call_effect c s s' (fst r)"
    and "fst r \<Longrightarrow> rc_method c \<noteq> DoAbort \<Longrightarrow> known s' (rc_address c) (tp_TransactionId (rc_request c))"
    by blast+
qed

subsection \<open>Steps that touch no bank\<close>

lemma may_commit_known: "may_commit pc \<Longrightarrow> both_known pc"
  by (cases pc) auto

lemma result_ok_mono: "result_ok ph kn l f r \<Longrightarrow> kn \<longrightarrow> kn' \<Longrightarrow> result_ok ph kn' l f r"
  by (auto simp: result_ok_def split: option.splits bool.splits)

lemma calls_ok_mono:
  "calls_ok ks kr ls lr fs fr p pc \<Longrightarrow> ks \<longrightarrow> ks' \<Longrightarrow> kr \<longrightarrow> kr' \<Longrightarrow> calls_ok ks' kr' ls lr fs fr p pc"
  by (cases pc) (simp_all only: calls_ok.simps, blast intro: result_ok_mono)

lemma pay_ok_mono:
  assumes "pay_ok ks kr ls lr fs fr sa ra p" and "ks \<longrightarrow> ks'" and "kr \<longrightarrow> kr'"
  shows "pay_ok ks' kr' ls lr fs fr sa ra p"
  using assms calls_ok_mono [OF _ assms(2,3)] unfolding pay_ok_def by blast

lemma payment_ok_mono:
  assumes p: "payment_ok P s k p" and kn: "\<And>a i. known s a i \<Longrightarrow> known s' a i"
    and same: "\<And>m. is_commit m \<Longrightarrow>
      occurrences m (pl_id P k) (sys_log s') = occurrences m (pl_id P k) (sys_log s)
      \<and> occurrences m (pl_id P k) (sys_flight s') = occurrences m (pl_id P k) (sys_flight s)"
  shows "payment_ok P s' k p"
proof -
  note d = same [of DoCommitDebit] same [of DoCommitCredit]
  have mono: "known s a i \<longrightarrow> known s' a i" for a i using kn by blast
  show ?thesis unfolding payment_ok_def
    by (rule pay_ok_mono [OF _ mono mono]) (use p d in \<open>simp add: payment_ok_def is_commit_def\<close>)
qed

text \<open>A step of one payment, which may have executed one of its calls.\<close>

lemma run_ok_update:
  assumes ok: "run_ok P w s" and k: "k < pl_size P"
    and pays: "sys_payments s' = (sys_payments s)[k := p']" and st: "static P k p'" and p': "payment_ok P s' k p'"
    and banks: "banks_ok P w s'" and recs: "records_ok P s'" and fl: "flights_ok P (sys_flight s')"
    and kn: "\<And>a i. known s a i \<Longrightarrow> known s' a i"
    and others: "\<And>j m. j < pl_size P \<Longrightarrow> j \<noteq> k \<Longrightarrow> is_commit m \<Longrightarrow>
      occurrences m (pl_id P j) (sys_log s') = occurrences m (pl_id P j) (sys_log s)
      \<and> occurrences m (pl_id P j) (sys_flight s') = occurrences m (pl_id P j) (sys_flight s)"
  shows "run_ok P w s'"
proof -
  have "static P j (sys_payments s' ! j) \<and> payment_ok P s' j (sys_payments s' ! j)" if j: "j < pl_size P" for j
  proof (cases "j = k")
    case True
    then show ?thesis using st p' ok k by (simp add: pays run_ok_def)
  next
    case False
    have "payment_ok P s j (sys_payments s ! j)" and static: "static P j (sys_payments s ! j)"
      using ok j by (simp_all add: run_ok_def)
    from this(1) kn others [OF j False] have "payment_ok P s' j (sys_payments s ! j)" by (rule payment_ok_mono)
    then show ?thesis using static False by (simp add: pays)
  qed
  then show ?thesis using ok banks recs fl by (simp add: run_ok_def pays)
qed

text \<open>What the invariant depends on apart from the payments.\<close>

definition same_world :: "sys \<Rightarrow> sys \<Rightarrow> bool" where
  "same_world s s' \<longleftrightarrow>
     gw_servers (sys_gw s') = gw_servers (sys_gw s) \<and> bank_view (gw_banking (sys_gw s')) = bank_view (gw_banking (sys_gw s))
     \<and> sys_flight s' = sys_flight s \<and> sys_log s' = sys_log s"

lemma same_world_known: "same_world s s' \<Longrightarrow> known s' a i = known s a i"
  by (simp add: same_world_def known_def)

lemma same_world_payment: "same_world s s' \<Longrightarrow> payment_ok P s' k p = payment_ok P s k p"
  by (simp add: same_world_known payment_ok_def) (simp add: same_world_def)

lemma same_world_banks: "same_world s s' \<Longrightarrow> banks_ok P w s \<Longrightarrow> banks_ok P w s'"
  by (simp add: same_world_def banks_ok_same)

lemma set_gput: "set (gput k v m) \<subseteq> insert (k, v) (set m)"
  by (induction k v m rule: gput.induct) auto

lemma records_ok_update:
  assumes "records_ok P s" and "k < length (sys_payments s)" and "k < pl_size P"
    and "sys_payments s' = (sys_payments s)[k := p']"
    and "early (pm_pc p') \<longrightarrow> early (pm_pc (sys_payments s ! k))"
    and "set (sys_records s') \<subseteq> set (sys_records s) \<or>
      set (sys_records s') \<subseteq> insert (pl_id P k, k) (set (sys_records s)) \<and> \<not> early (pm_pc p')"
  shows "records_ok P s'"
  using assms by (fastforce simp: records_ok_def nth_list_update)

lemma run_ok_local:
  assumes "run_ok P w s" and "k < pl_size P" and "sys_payments s' = (sys_payments s)[k := p']"
    and "same_world s s'" and "records_ok P s'" and "static P k p'" and "payment_ok P s k p'"
  shows "run_ok P w s'"
proof (rule run_ok_update [OF assms(1,2,3,6)])
  show "payment_ok P s' k p'" using assms(4,7) by (simp add: same_world_payment)
  show "banks_ok P w s'" using assms(1) by (intro same_world_banks [OF assms(4)]) (simp add: run_ok_def)
  show "flights_ok P (sys_flight s')" using assms(1,4) by (simp add: run_ok_def same_world_def)
  show "known s a i \<Longrightarrow> known s' a i" for a i using assms(4) by (simp add: same_world_known)
qed (use assms(4,5) in \<open>simp_all add: same_world_def\<close>)


text \<open>A move of the program counter that promises no more than the old place, and forgets nothing.\<close>

fun is_calls :: "pc \<Rightarrow> bool" where
  "is_calls (Calls _ _ _ _ _) = True"
| "is_calls _ = False"

definition pc_step :: "string \<Rightarrow> string \<Rightarrow> pc \<Rightarrow> pc \<Rightarrow> bool" where
  "pc_step sa ra pc pc' \<longleftrightarrow>
     homes_ok sa ra pc' \<and> (both_known pc' \<longrightarrow> both_known pc) \<and> (may_commit pc \<longrightarrow> may_commit pc')
     \<and> (settled pc' \<longrightarrow> settled pc) \<and> (early pc' \<longrightarrow> early pc) \<and> \<not> is_calls pc'"

lemma pay_ok_pc:
  assumes "pay_ok ks kr ls lr fs fr sa ra p" and "pc_step sa ra (pm_pc p) (pm_pc p')"
  shows "pay_ok ks kr ls lr fs fr sa ra p'"
proof -
  have "calls_ok ks kr ls lr fs fr p' (pm_pc p')"
    using assms(2) by (cases "pm_pc p'") (simp_all add: pc_step_def)
  then show ?thesis using assms by (auto simp: pay_ok_def pc_step_def)
qed

lemma run_okD:
  assumes "run_ok P w s" and "k < pl_size P"
  shows "k < length (sys_payments s)" "static P k (sys_payments s ! k)" "payment_ok P s k (sys_payments s ! k)"
    "records_ok P s" "banks_ok P w s" "flights_ok P (sys_flight s)"
  using assms by (simp_all add: run_ok_def)

lemma run_ok_pc:
  assumes ok: "run_ok P w s" and k: "k < pl_size P" and "sys_payments s' = (sys_payments s)[k := p']"
    and "same_world s s'" and "static P k p'"
    and step: "pc_step (pl_sender_bank P k) (pl_receiver_bank P k) (pm_pc (sys_payments s ! k)) (pm_pc p')"
    and recs: "set (sys_records s') \<subseteq> set (sys_records s) \<or>
      set (sys_records s') \<subseteq> insert (pl_id P k, k) (set (sys_records s)) \<and> \<not> early (pm_pc p')"
  shows "run_ok P w s'"
proof (rule run_ok_local [OF assms(1-4) _ assms(5)])
  show "payment_ok P s k p'" using run_okD [OF ok k] step by (auto simp: payment_ok_def intro: pay_ok_pc)
  show "records_ok P s'"
    by (rule records_ok_update [OF run_okD(4,1) [OF ok k] k assms(3) _ recs]) (use step in \<open>simp add: pc_step_def\<close>)
qed

lemma run_ok_set:
  assumes "run_ok P w s" and "k < pl_size P" and "static P k p'"
    and "pc_step (pl_sender_bank P k) (pl_receiver_bank P k) (pm_pc (sys_payments s ! k)) (pm_pc p')"
  shows "run_ok P w (set_payment k p' s)"
  by (rule run_ok_pc [OF assms(1,2) _ _ assms(3,4)]) (simp_all add: set_payment_def same_world_def)

lemma records_id:
  assumes P: "proper_plan P w" and ok: "run_ok P w s" and k: "k < pl_size P"
    and j: "map_of (sys_records s) (pm_id (sys_payments s ! k)) = Some j"
  shows "\<not> early (pm_pc (sys_payments s ! k))"
proof -
  have "pm_id (sys_payments s ! k) = pl_id P k" using run_okD(2) [OF ok k] by (simp add: static_def)
  then have "j < pl_size P" "pl_id P j = pl_id P k" "\<not> early (pm_pc (sys_payments s ! j))"
    using map_of_SomeD [OF j] run_okD(4) [OF ok k] by (auto simp: records_ok_def)
  then show ?thesis using plan_ids [OF P _ k, of j] by simp
qed


subsection \<open>Every step keeps the invariant\<close>

lemmas static_simps = static_def paid_def aborting_def
lemmas pc_step_simps = pc_step_def paid_def aborting_def answer_def doubtful_def payment_response_def

lemma gdel_set: "set (gdel k m) \<subseteq> set m"
  by (induction k m rule: gdel.induct) auto

lemma mark_ok:
  assumes "pay_ok ks kr ls lr fs fr sa ra p" and "pm_pc p = Mark ph a n b m"
    and "pm_pc p' = Calls ph a n b m" and "pm_sender_result p' = None" and "pm_receiver_result p' = None"
  shows "pay_ok ks kr ls lr fs fr sa ra p'"
  using assms by (auto simp: pay_ok_def result_ok_def)

lemma decide_pc:
  "pm_pc (decide ph sname rname rs rr p) =
     (if ph = PreparePhase
      then (case phase_error ''sender bank declined: '' ''receiver bank declined: '' rs rr of
              Some e \<Rightarrow> AbortFind SenderRole (''Prepare phase failed: '' @ e)
            | None \<Rightarrow>
                if gget False (tx_PrepareVotes (pm_tx p)) sname \<and> gget False (tx_PrepareVotes (pm_tx p)) rname
                then FindSender CommitPhase
                else AbortFind SenderRole ''One or more banks declined the transaction'')
      else (case phase_error ''sender bank commit failed: '' ''receiver bank commit failed: '' rs rr of
              Some e \<Rightarrow> CleanUp (''Commit phase failed: '' @ e)
            | None \<Rightarrow>
                if gget False (tx_CommitVotes (pm_tx p)) sname \<and> gget False (tx_CommitVotes (pm_tx p)) rname
                then ReadSender else CleanUp ''One or more banks failed to commit the transaction''))"
  by (auto simp: decide_def aborting_def split: option.split)

lemma decide_ok:
  assumes p: "pay_ok ks kr ls lr fs fr sa ra p" and pc: "pm_pc p = Calls ph a sname b rname"
    and r: "pm_sender_result p = Some rs" "pm_receiver_result p = Some rr"
  shows "pay_ok ks kr ls lr fs fr sa ra (decide ph sname rname rs rr p)"
proof -
  have calls: "result_ok ph ks ls fs (Some rs)" "result_ok ph kr lr fr (Some rr)" using p pc r by (auto simp: pay_ok_def)
  show ?thesis
  proof (cases "ph = PreparePhase")
    case True
    show ?thesis
    proof (cases "pm_pc (decide ph sname rname rs rr p) = FindSender CommitPhase")
      case commit: True
      then have "fst rs" "fst rr"
        using True phase_error_None by (auto simp: decide_pc split: option.splits if_splits)
      then have "ks" "kr" using calls True by (cases rs; cases rr; simp add: result_ok_def)+
      then show ?thesis using p pc True commit by (simp add: pay_ok_def)
    next
      case False
      have "pc_step sa ra (Calls ph a sname b rname) (pm_pc (decide ph sname rname rs rr p))"
        using False True by (auto simp: decide_pc pc_step_simps split: option.splits if_splits)
      then show ?thesis using p pc by (intro pay_ok_pc [OF p]) simp
    qed
  next
    case False
    show ?thesis
    proof (cases "pm_pc (decide ph sname rname rs rr p) = ReadSender")
      case last: True
      then have "fst rs" "fst rr"
        using False phase_error_None by (auto simp: decide_pc split: option.splits if_splits)
      then have "ls = 1" "lr = 1" using calls False by (cases rs; cases rr; simp add: result_ok_def)+
      then show ?thesis using p pc False last by (simp add: pay_ok_def)
    next
      case other: False
      have "pc_step sa ra (Calls ph a sname b rname) (pm_pc (decide ph sname rname rs rr p))"
        using False other by (auto simp: decide_pc pc_step_simps split: option.splits if_splits)
      then show ?thesis using p pc by (intro pay_ok_pc [OF p]) simp
    qed
  qed
qed

lemma decide_static: "static P k p \<Longrightarrow> static P k (decide ph sname rname rs rr p)"
  by (auto simp: decide_def static_simps split: option.splits)


lemma set_balance_ok:
  assumes ok: "run_ok P w s" and k: "k < pl_size P" and p: "p = sys_payments s ! k"
    and "pc_step (pl_sender_bank P k) (pl_receiver_bank P k) (pm_pc p) next"
    and "pc_step (pl_sender_bank P k) (pl_receiver_bank P k) (pm_pc p) (pm_pc (paid p))"
  shows "run_ok P w (set_balance k p client b next s)"
proof -
  have st: "static P k p" using run_okD(2) [OF ok k] p by simp
  show ?thesis
  proof (cases "UpdateBalance (gw_balances (sys_gw s)) client b")
    case (Inl e)
    have "run_ok P w (set_payment k (paid p) s)"
      by (rule run_ok_set [OF ok k]) (use st assms(5) p in \<open>simp_all add: static_simps\<close>)
    then show ?thesis using Inl by (simp add: set_balance_def)
  next
    case (Inr bs)
    have "run_ok P w (set_payment k (p\<lparr>pm_pc := next\<rparr>) (s\<lparr>sys_gw := (sys_gw s)\<lparr>gw_balances := bs\<rparr>\<rparr>))"
      by (rule run_ok_pc [OF ok k, of _ "p\<lparr>pm_pc := next\<rparr>"])
        (use st assms(4) p in \<open>simp_all add: static_simps set_payment_def same_world_def\<close>)
    then show ?thesis using Inr by (simp add: set_balance_def)
  qed
qed

lemma enter_ok:
  assumes P: "proper_plan P w" and ok: "run_ok P w s" and k: "k < pl_size P" and p: "p = sys_payments s ! k" "pm_pc p = Enter"
    and go: "pay_go now k p s = Some s'"
  shows "run_ok P w s'"
proof -
  have st: "static P k p" using run_okD(2) [OF ok k] p by simp
  let ?p = "p\<lparr>pm_tx := \<lparr>tx_ID = pm_id p, tx_Sender = pd_ClientName (pm_req p), tx_Receiver = pd_ReceiverName (pm_req p),
      tx_Amount = pd_Amount (pm_req p), tx_State = TransactionPreparing, tx_PrepareVotes = [], tx_CommitVotes = [],
      tx_Timestamp = now, tx_Timeout = gw_paymentTimeout (sys_gw s)\<rparr>, pm_pc := FindSender PreparePhase\<rparr>"
  have s': "s' = put_record (pm_id p) k (set_payment k ?p s)" using go p(2) by (simp add: pay_go_def Let_def)
  have i: "pm_id p = pl_id P k" using st by (simp add: static_def)
  have recs: "sys_records s' = gput (pl_id P k) k (sys_records s)"
    by (simp add: s' put_record_def set_payment_def i)
  show ?thesis
  proof (rule run_ok_pc [OF ok k, where p' = ?p])
    show "sys_payments s' = (sys_payments s)[k := ?p]" by (simp add: s' put_record_def set_payment_def)
    show "same_world s s'" by (simp add: s' put_record_def set_payment_def same_world_def)
    show "static P k ?p" using st P k by (simp add: static_def proper_plan_def)
    show "pc_step (pl_sender_bank P k) (pl_receiver_bank P k) (pm_pc (sys_payments s ! k)) (pm_pc ?p)"
      using p by (simp add: pc_step_def)
  qed (use recs set_gput [of "pl_id P k" k "sys_records s"] in simp)
qed

lemma calls_go_ok:
  assumes ok: "run_ok P w s" and k: "k < pl_size P" and p: "p = sys_payments s ! k" "pm_pc p = Calls ph a n b m"
    and go: "pay_go now k p s = Some s'"
  shows "run_ok P w s'"
proof -
  obtain rs rr where r: "pm_sender_result p = Some rs" "pm_receiver_result p = Some rr"
    using go p(2) by (auto simp: pay_go_def Let_def split: option.splits)
  then have s': "s' = set_payment k (decide ph n m rs rr p) s" using go p(2) by (simp add: pay_go_def Let_def)
  have "payment_ok P s k (decide ph n m rs rr p)"
    unfolding payment_ok_def
    by (rule decide_ok [OF _ p(2) r]) (use run_okD(3) [OF ok k] p(1) in \<open>simp add: payment_ok_def\<close>)
  moreover have "static P k (decide ph n m rs rr p)" using run_okD(2) [OF ok k] p(1) by (intro decide_static) simp
  moreover have "\<not> early (pm_pc (decide ph n m rs rr p))" by (auto simp: decide_pc split: option.split)
  then have "records_ok P s'"
    by (intro records_ok_update [OF run_okD(4,1) [OF ok k] k, where p' = "decide ph n m rs rr p"])
      (simp_all add: s' set_payment_def)
  ultimately show ?thesis
    by (intro run_ok_local [OF ok k, of s' "decide ph n m rs rr p"]) (simp_all add: s' set_payment_def same_world_def)
qed

lemma mark_go_ok:
  assumes ok: "run_ok P w s" and k: "k < pl_size P" and p: "p = sys_payments s ! k" "pm_pc p = Mark ph a n b m"
    and go: "pay_go now k p s = Some s'"
  shows "run_ok P w s'"
proof -
  obtain p' where s': "s' = set_payment k p' s"
    and p': "pm_pc p' = Calls ph a n b m" "pm_sender_result p' = None" "pm_receiver_result p' = None"
    and st: "static P k p'"
    using go p(2) run_okD(2) [OF ok k] p(1) by (fastforce simp: pay_go_def Let_def static_def)
  have "payment_ok P s k p'"
    unfolding payment_ok_def
    by (rule mark_ok [OF _ p(2) p']) (use run_okD(3) [OF ok k] p(1) in \<open>simp add: payment_ok_def\<close>)
  moreover have "records_ok P s'"
    by (rule records_ok_update [OF run_okD(4,1) [OF ok k] k, where p' = p']) (simp_all add: s' set_payment_def p')
  ultimately show ?thesis using st
    by (intro run_ok_local [OF ok k, of s' p']) (simp_all add: s' set_payment_def same_world_def)
qed


lemma pay_go_ok:
  assumes P: "proper_plan P w" and ok: "run_ok P w s" and k: "k < pl_size P" and p: "p = sys_payments s ! k"
    and go: "pay_go now k p s = Some s'"
  shows "run_ok P w s'"
proof -
  have st: "static P k p" using run_okD(2) [OF ok k] p by simp
  have homes: "homes_ok (pl_sender_bank P k) (pl_receiver_bank P k) (pm_pc p)"
    using run_okD(3) [OF ok k] p by (simp add: payment_ok_def pay_ok_def)
  have new: "run_ok P w (set_payment k p' s)"
    if "static P k p'" "pc_step (pl_sender_bank P k) (pl_receiver_bank P k) (pm_pc p) (pm_pc p')" for p'
    using that p by (intro run_ok_set [OF ok k]) simp_all
  note go_simps = pay_go_def Let_def
  show ?thesis
  proof (cases "pm_pc p")
    case Begin
    then have "map_of (sys_records s) (pm_id p) = None"
      using records_id [OF P ok k] p by (cases "map_of (sys_records s) (pm_id p)") auto
    then show ?thesis using go Begin st
      by (auto simp: go_simps find_record_def pc_step_simps static_simps intro!: new)
  next
    case Guard
    then have "map_of (sys_records s) (pm_id p) = None"
      using records_id [OF P ok k] p by (cases "map_of (sys_records s) (pm_id p)") auto
    then show ?thesis using go Guard st
      by (auto simp: go_simps find_record_def pc_step_simps static_simps intro!: new)
  next
    case Funds
    then show ?thesis using go st
      by (auto simp: go_simps pc_step_simps static_simps intro!: new split: option.splits)
  next
    case Enter
    then show ?thesis by (rule enter_ok [OF P ok k p _ go])
  next
    case (Mark ph a n b m)
    then show ?thesis by (rule mark_go_ok [OF ok k p _ go])
  next
    case (Calls ph a n b m)
    then show ?thesis by (rule calls_go_ok [OF ok k p _ go])
  next
    case (AbortEnd msg)
    then show ?thesis using go st by (auto simp: go_simps pc_step_simps static_simps intro!: new)
  next
    case ReadSender
    then show ?thesis using go st
      by (auto simp: go_simps pc_step_simps static_simps intro!: new split: option.splits)
  next
    case ReadReceiver
    then show ?thesis using go st
      by (auto simp: go_simps pc_step_simps static_simps intro!: new split: option.splits)
  next
    case (WriteSender b)
    then show ?thesis using go
      by (auto simp: go_simps pc_step_simps intro!: set_balance_ok [OF ok k p])
  next
    case (WriteReceiver b)
    then show ?thesis using go
      by (auto simp: go_simps pc_step_simps intro!: set_balance_ok [OF ok k p])
  next
    case (CleanUp msg)
    let ?p = "p\<lparr>pm_pc := Finished (answer False msg p)\<rparr>"
    have s': "s' = drop_record (pm_id p) (set_payment k ?p s)" using go CleanUp by (simp add: go_simps)
    show ?thesis
      by (rule run_ok_pc [OF ok k, where p' = ?p])
        (use st CleanUp p in \<open>simp_all add: gdel_set s' drop_record_def set_payment_def same_world_def static_simps pc_step_simps\<close>)
  qed (use go homes in \<open>simp_all add: go_simps\<close>)
qed

lemma pay_save_ok:
  assumes ok: "run_ok P w s" and k: "k < pl_size P" and p: "p = sys_payments s ! k"
    and save: "pay_save order err k p s = Some s'"
  shows "run_ok P w s'"
proof (cases "pm_pc p")
  case (Saving n)
  have st: "static P k p" using run_okD(2) [OF ok k] p by simp
  obtain b r where b: "SaveBalances order err (gw_balances (sys_gw s)) = (b, r)" by fastforce
  let ?p = "if r = None \<or> n \<ge> 2 then paid p else p\<lparr>pm_pc := Saving (n + 1)\<rparr>"
  have s': "s' = set_payment k ?p (s\<lparr>sys_gw := (sys_gw s)\<lparr>gw_balances := b\<rparr>\<rparr>)"
    using save b Saving by (simp add: pay_save_def)
  show ?thesis
    by (rule run_ok_pc [OF ok k, where p' = ?p])
      (use st Saving p in \<open>simp_all add: s' set_payment_def same_world_def static_simps pc_step_simps\<close>)
qed (use save in \<open>simp_all add: pay_save_def\<close>)

text \<open>Looking for a bank only opens a connection, and finds the home of the client.\<close>

lemma look_world:
  assumes "find_bank e c (sys_gw s) = (w', r)"
  shows "same_world s (set_payment k p (s\<lparr>sys_gw := w'\<rparr>))"
  using find_bank_frame [of "sys_gw s" e c] assms by (simp add: same_world_def set_payment_def frame_def)

lemma plan_homes:
  assumes P: "proper_plan P w" and ok: "run_ok P w s" and k: "k < pl_size P" and p: "p = sys_payments s ! k"
  shows "client_home (bank_view (gw_banking (sys_gw s))) (tx_Sender (pm_tx p)) (pl_sender_bank P k)"
    and "client_home (bank_view (gw_banking (sys_gw s))) (tx_Receiver (pm_tx p)) (pl_receiver_bank P k)"
  using P run_okD(2,5) [OF ok k] k p by (auto simp: proper_plan_def static_def banks_ok_def)

lemma look_ok:
  assumes ok: "run_ok P w s" and k: "k < pl_size P" and f: "find_bank e c (sys_gw s) = (w', r)"
    and "static P k p'"
    and "pc_step (pl_sender_bank P k) (pl_receiver_bank P k) (pm_pc (sys_payments s ! k)) (pm_pc p')"
  shows "run_ok P w (set_payment k p' (s\<lparr>sys_gw := w'\<rparr>))"
  by (rule run_ok_pc [OF ok k _ look_world [OF f] assms(4,5)]) (simp_all add: set_payment_def)


lemma pay_look_ok:
  assumes P: "proper_plan P w" and ok: "run_ok P w s" and k: "k < pl_size P" and p: "p = sys_payments s ! k"
    and look: "pay_look e k p s = Some s'"
  shows "run_ok P w s'"
proof -
  have st: "static P k p" using run_okD(2) [OF ok k] p by simp
  have homes: "homes_ok (pl_sender_bank P k) (pl_receiver_bank P k) (pm_pc p)"
    using run_okD(3) [OF ok k] p by (simp add: payment_ok_def pay_ok_def)
  have new: "run_ok P w (set_payment k p' (s\<lparr>sys_gw := w'\<rparr>))"
    if "find_bank e c (sys_gw s) = (w', r)" "static P k p'"
      "pc_step (pl_sender_bank P k) (pl_receiver_bank P k) (pm_pc p) (pm_pc p')" for c w' r p'
    using that p by (intro look_ok [OF ok k]) simp_all
  note homeS = find_bank_home [OF _ plan_homes(1) [OF P ok k p]]
  note homeR = find_bank_home [OF _ plan_homes(2) [OF P ok k p]]
  show ?thesis
  proof (cases "pm_pc p")
    case (FindSender ph)
    obtain w' r where f: "find_bank e (tx_Sender (pm_tx p)) (sys_gw s) = (w', r)" by fastforce
    show ?thesis
    proof (cases r)
      case (Inl err)
      then show ?thesis using look f FindSender st
        by (auto simp: pay_look_def pc_step_simps static_simps intro!: new [OF f] split: if_splits)
    next
      case (Inr an)
      obtain a n where "an = (a, n)" by (cases an)
      then show ?thesis using look f FindSender st Inr homeS
        by (auto simp: pay_look_def pc_step_simps static_simps intro!: new [OF f])
    qed
  next
    case (FindReceiver ph sa sname)
    obtain w' r where f: "find_bank e (tx_Receiver (pm_tx p)) (sys_gw s) = (w', r)" by fastforce
    show ?thesis
    proof (cases r)
      case (Inl err)
      then show ?thesis using look f FindReceiver st
        by (auto simp: pay_look_def pc_step_simps static_simps intro!: new [OF f] split: if_splits)
    next
      case (Inr an)
      obtain a n where "an = (a, n)" by (cases an)
      then show ?thesis using look f FindReceiver st Inr homeR homes
        by (auto simp: pay_look_def pc_step_simps static_simps intro!: new [OF f])
    qed
  next
    case (AbortFind role msg)
    let ?c = "if role = SenderRole then tx_Sender (pm_tx p) else tx_Receiver (pm_tx p)"
    obtain w' r where f: "find_bank e ?c (sys_gw s) = (w', r)" by fastforce
    show ?thesis
    proof (cases r)
      case (Inl err)
      then show ?thesis using look f AbortFind st
        by (auto simp: pay_look_def pc_step_simps static_simps intro!: new [OF f] split: if_splits)
    next
      case (Inr an)
      obtain a n where "an = (a, n)" by (cases an)
      then show ?thesis using look f AbortFind st Inr
        by (auto simp: pay_look_def pc_step_simps static_simps intro!: new [OF f] split: if_splits)
    qed
  qed (use look in \<open>simp_all add: pay_look_def\<close>)
qed

subsection \<open>Steps that make calls\<close>

lemma call_effect_occurrences:
  assumes "call_effect c s s' b" and "tp_TransactionId (rc_request c) \<noteq> i \<or> rc_method c \<noteq> m"
  shows "occurrences m i (sys_log s') = occurrences m i (sys_log s)"
    and "occurrences m i (sys_flight s') = occurrences m i (sys_flight s)"
  using assms by (auto simp: call_effect_def)

text \<open>The commit that a payment makes counts once, in the log or in flight.\<close>

lemma call_effect_commit:
  assumes "call_effect c s s' ok" and "tp_TransactionId (rc_request c) = i" and "is_commit (rc_method c)"
    and "occurrences (rc_method c) i (sys_log s) + occurrences (rc_method c) i (sys_flight s) = 0"
  shows "occurrences (rc_method c) i (sys_log s') + occurrences (rc_method c) i (sys_flight s') \<le> 1"
    and "ok \<Longrightarrow> occurrences (rc_method c) i (sys_log s') = 1"
  using assms by (auto simp: call_effect_def)

lemma call_effect_flights:
  assumes "call_effect c s s' ok" and "flights_ok P (sys_flight s)"
    and "is_commit (rc_method c) \<Longrightarrow> \<exists>k < pl_size P. commit_of P k c"
  shows "flights_ok P (sys_flight s')"
  using assms by (auto simp: call_effect_def flights_ok_def)


lemma call_ok:
  assumes P: "proper_plan P w" and ok: "run_ok P w s" and k: "k < pl_size P"
    and legal: "legal P s c" and run: "remote down fate c s = (s1, r)"
    and i: "tp_TransactionId (rc_request c) = pl_id P k"
    and p': "static P k p'" "\<not> early (pm_pc p')" "payment_ok P s1 k p'"
  shows "run_ok P w (set_payment k p' s1)"
proof -
  note after = remote_ok [OF P run_okD(5) [OF ok k] legal run]
  let ?s = "set_payment k p' s1"
  have s: "sys_payments ?s = (sys_payments s)[k := p']" "same_world s1 ?s"
    by (simp_all add: set_payment_def after(3) same_world_def)
  show ?thesis
  proof (rule run_ok_update [OF ok k s(1) p'(1)])
    show "payment_ok P ?s k p'" using p'(3) same_world_payment [OF s(2)] by simp
    show "banks_ok P w ?s" by (rule same_world_banks [OF s(2) after(1)])
    show "records_ok P ?s"
      by (rule records_ok_update [OF run_okD(4,1) [OF ok k] k s(1)])
        (use p'(2) after(4) in \<open>simp_all add: set_payment_def\<close>)
    have "\<exists>k < pl_size P. commit_of P k c" if "is_commit (rc_method c)" using legal that by (auto simp: legal_def)
    then show "flights_ok P (sys_flight ?s)"
      using call_effect_flights [OF after(5) run_okD(6) [OF ok k]] by (simp add: set_payment_def)
    show "known s a i \<Longrightarrow> known ?s a i" for a i using after(2) same_world_known [OF s(2)] by simp
  next
    fix j m
    assume j: "j < pl_size P" "j \<noteq> k"
    then have "tp_TransactionId (rc_request c) \<noteq> pl_id P j" using plan_ids [OF P j(1) k] i by simp
    then show "occurrences m (pl_id P j) (sys_log ?s) = occurrences m (pl_id P j) (sys_log s)
      \<and> occurrences m (pl_id P j) (sys_flight ?s) = occurrences m (pl_id P j) (sys_flight s)"
      using call_effect_occurrences [OF after(5), of "pl_id P j" m] by (simp add: set_payment_def)
  qed
qed

text \<open>What the return of a goroutine does to the payment.\<close>

lemma sender_return:
  assumes p: "pay_ok ks kr ls lr fs fr sa ra p" and pc: "pm_pc p = Calls ph a n b m" and "pm_sender_result p = None"
    and p': "pm_pc p' = pm_pc p" "pm_sender_result p' = Some r" "pm_receiver_result p' = pm_receiver_result p"
    and mono: "ks \<longrightarrow> ks'" "kr \<longrightarrow> kr'"
    and prep: "ph = PreparePhase \<Longrightarrow> ls' = ls \<and> fs' = fs \<and> (fst r \<longrightarrow> ks')"
    and comm: "ph \<noteq> PreparePhase \<Longrightarrow> ls' + fs' \<le> 1 \<and> (fst r \<longrightarrow> ls' = 1)"
  shows "pay_ok ks' kr' ls' lr fs' fr sa ra p'"
proof -
  have old: "result_ok ph ks ls fs None" "result_ok ph kr lr fr (pm_receiver_result p)"
    using p pc assms(3) by (simp_all add: pay_ok_def)
  have one: "ls' + fs' \<le> 1" using old(1) comm p prep by (cases "ph = PreparePhase") (auto simp: result_ok_def pay_ok_def)
  have "result_ok ph ks' ls' fs' (Some r)" using prep comm by (cases r) (auto simp: result_ok_def split: bool.split)
  moreover have "result_ok ph kr' lr fr (pm_receiver_result p)" using old(2) mono(2) by (rule result_ok_mono)
  ultimately show ?thesis using p pc p' mono one prep by (auto simp: pay_ok_def)
qed

lemma receiver_return:
  assumes p: "pay_ok ks kr ls lr fs fr sa ra p" and pc: "pm_pc p = Calls ph a n b m" and "pm_receiver_result p = None"
    and p': "pm_pc p' = pm_pc p" "pm_receiver_result p' = Some r" "pm_sender_result p' = pm_sender_result p"
    and mono: "ks \<longrightarrow> ks'" "kr \<longrightarrow> kr'"
    and prep: "ph = PreparePhase \<Longrightarrow> lr' = lr \<and> fr' = fr \<and> (fst r \<longrightarrow> kr')"
    and comm: "ph \<noteq> PreparePhase \<Longrightarrow> lr' + fr' \<le> 1 \<and> (fst r \<longrightarrow> lr' = 1)"
  shows "pay_ok ks' kr' ls lr' fs fr' sa ra p'"
proof -
  have old: "result_ok ph kr lr fr None" "result_ok ph ks ls fs (pm_sender_result p)"
    using p pc assms(3) by (simp_all add: pay_ok_def)
  have one: "lr' + fr' \<le> 1" using old(1) comm p prep by (cases "ph = PreparePhase") (auto simp: result_ok_def pay_ok_def)
  have "result_ok ph kr' lr' fr' (Some r)" using prep comm by (cases r) (auto simp: result_ok_def split: bool.split)
  moreover have "result_ok ph ks' ls fs (pm_sender_result p)" using old(2) mono(1) by (rule result_ok_mono)
  ultimately show ?thesis using p pc p' mono one prep by (auto simp: pay_ok_def)
qed

lemma phase_remote_sel [simp]:
  "rc_method (phase_remote ph role a tx) =
     (if ph = PreparePhase then (if role = SenderRole then DoPrepareDebit else DoPrepareCredit)
      else (if role = SenderRole then DoCommitDebit else DoCommitCredit))"
  "rc_address (phase_remote ph role a tx) = a"
  "tp_TransactionId (rc_request (phase_remote ph role a tx)) = tx_ID tx"
  by (simp_all add: phase_remote_def two_phase_request_def)

lemma is_commit_simps [simp]:
  "is_commit DoCommitDebit" "is_commit DoCommitCredit" "\<not> is_commit DoPrepareDebit" "\<not> is_commit DoPrepareCredit"
  "\<not> is_commit DoAbort"
  by (simp_all add: is_commit_def)


lemma calls_facts:
  assumes ok: "run_ok P w s" and k: "k < pl_size P" and p: "p = sys_payments s ! k" "pm_pc p = Calls ph a n b m"
  shows "a = pl_sender_bank P k" "b = pl_receiver_bank P k"
    and "ph \<noteq> PreparePhase \<Longrightarrow> known s a (pl_id P k) \<and> known s b (pl_id P k)"
    and "ph \<noteq> PreparePhase \<Longrightarrow> pm_sender_result p = None \<Longrightarrow>
      occurrences DoCommitDebit (pl_id P k) (sys_log s) + occurrences DoCommitDebit (pl_id P k) (sys_flight s) = 0"
    and "ph \<noteq> PreparePhase \<Longrightarrow> pm_receiver_result p = None \<Longrightarrow>
      occurrences DoCommitCredit (pl_id P k) (sys_log s) + occurrences DoCommitCredit (pl_id P k) (sys_flight s) = 0"
  using run_okD(3) [OF ok k] p by (auto simp: payment_ok_def pay_ok_def result_ok_def)

lemma phase_legal:
  assumes ok: "run_ok P w s" and k: "k < pl_size P" and p: "p = sys_payments s ! k" "pm_pc p = Calls ph a n b m"
  shows "pm_sender_result p = None \<Longrightarrow> legal P s (phase_remote ph SenderRole a (pm_tx p))"
    and "pm_receiver_result p = None \<Longrightarrow> legal P s (phase_remote ph ReceiverRole b (pm_tx p))"
proof -
  note facts = calls_facts [OF ok k p]
  have st: "static P k p" using run_okD(2) [OF ok k] p by simp
  have "commit_of P k (phase_remote ph SenderRole a (pm_tx p))" "commit_of P k (phase_remote ph ReceiverRole b (pm_tx p))"
    if "ph \<noteq> PreparePhase"
    using that st facts(1,2) by (auto simp: commit_of_def static_def phase_remote_def)
  then show "pm_sender_result p = None \<Longrightarrow> legal P s (phase_remote ph SenderRole a (pm_tx p))"
    and "pm_receiver_result p = None \<Longrightarrow> legal P s (phase_remote ph ReceiverRole b (pm_tx p))"
    using k facts(3,4,5) by (cases "ph = PreparePhase"; auto simp: legal_def)+
qed

definition role_commit :: "role \<Rightarrow> tp_method" where
  "role_commit role = (if role = SenderRole then DoCommitDebit else DoCommitCredit)"

lemma phase_call_effect:
  assumes e: "call_effect (phase_remote ph role a tx) s s1 ok" and i: "tx_ID tx = i"
  shows "is_commit q \<Longrightarrow> q \<noteq> role_commit role \<or> ph = PreparePhase \<Longrightarrow>
      occurrences q i (sys_log s1) = occurrences q i (sys_log s)
      \<and> occurrences q i (sys_flight s1) = occurrences q i (sys_flight s)"
    and "ph \<noteq> PreparePhase \<Longrightarrow> occurrences (role_commit role) i (sys_log s) + occurrences (role_commit role) i (sys_flight s) = 0 \<Longrightarrow>
      occurrences (role_commit role) i (sys_log s1) + occurrences (role_commit role) i (sys_flight s1) \<le> 1
      \<and> (ok \<longrightarrow> occurrences (role_commit role) i (sys_log s1) = 1)"
proof -
  have i': "tp_TransactionId (rc_request (phase_remote ph role a tx)) = i" using i by simp
  show "occurrences q i (sys_log s1) = occurrences q i (sys_log s)
      \<and> occurrences q i (sys_flight s1) = occurrences q i (sys_flight s)"
    if "is_commit q" "q \<noteq> role_commit role \<or> ph = PreparePhase"
  proof -
    have "rc_method (phase_remote ph role a tx) \<noteq> q" using that by (auto simp: role_commit_def is_commit_def)
    then show ?thesis using call_effect_occurrences [OF e] by blast
  qed
  show "occurrences (role_commit role) i (sys_log s1) + occurrences (role_commit role) i (sys_flight s1) \<le> 1
      \<and> (ok \<longrightarrow> occurrences (role_commit role) i (sys_log s1) = 1)"
    if "ph \<noteq> PreparePhase" "occurrences (role_commit role) i (sys_log s) + occurrences (role_commit role) i (sys_flight s) = 0"
    using call_effect_commit [OF e i'] that by (cases "role = SenderRole") (simp_all add: role_commit_def)
qed

lemma sender_call_ok:
  assumes P: "proper_plan P w" and ok: "run_ok P w s" and k: "k < pl_size P"
    and p: "p = sys_payments s ! k" "pm_pc p = Calls ph a n b m" and none: "pm_sender_result p = None"
    and run: "remote down fate (phase_remote ph SenderRole a (pm_tx p)) s = (s1, r)"
  shows "run_ok P w (set_payment k (p\<lparr>pm_sender_result := Some r, pm_tx := add_vote ph n (fst r) (pm_tx p)\<rparr>) s1)"
proof -
  let ?p = "p\<lparr>pm_sender_result := Some r, pm_tx := add_vote ph n (fst r) (pm_tx p)\<rparr>"
  note facts = calls_facts [OF ok k p]
  have st: "static P k p" using run_okD(2) [OF ok k] p by simp
  then have i: "tx_ID (pm_tx p) = pl_id P k" by (simp add: static_def)
  note legal = phase_legal(1) [OF ok k p none]
  note after = remote_ok [OF P run_okD(5) [OF ok k] legal run]
  note effect = phase_call_effect [OF after(5) i, unfolded role_commit_def, simplified]
  have p_ok: "payment_ok P s k p" using run_okD(3) [OF ok k] p(1) by simp
  have now_known: "fst r \<longrightarrow> known s1 a (pl_id P k)" using after(6) i by (cases "ph = PreparePhase") simp_all
  have "payment_ok P s1 k ?p"
    unfolding payment_ok_def effect(1) [of DoCommitCredit, simplified, THEN conjunct1] effect(1) [of DoCommitCredit, simplified, THEN conjunct2]
    by (rule sender_return [OF p_ok [unfolded payment_ok_def] p(2) none])
      (use after(2) effect(1) [of DoCommitDebit] effect(2) facts(1) facts(4) [OF _ none] now_known in \<open>auto\<close>)
  then show ?thesis
    using st p by (intro call_ok [OF P ok k legal run]) (simp_all add: i static_def add_vote_def)
qed

lemma receiver_call_ok:
  assumes P: "proper_plan P w" and ok: "run_ok P w s" and k: "k < pl_size P"
    and p: "p = sys_payments s ! k" "pm_pc p = Calls ph a n b m" and none: "pm_receiver_result p = None"
    and run: "remote down fate (phase_remote ph ReceiverRole b (pm_tx p)) s = (s1, r)"
  shows "run_ok P w (set_payment k (p\<lparr>pm_receiver_result := Some r, pm_tx := add_vote ph m (fst r) (pm_tx p)\<rparr>) s1)"
proof -
  let ?p = "p\<lparr>pm_receiver_result := Some r, pm_tx := add_vote ph m (fst r) (pm_tx p)\<rparr>"
  note facts = calls_facts [OF ok k p]
  have st: "static P k p" using run_okD(2) [OF ok k] p by simp
  then have i: "tx_ID (pm_tx p) = pl_id P k" by (simp add: static_def)
  note legal = phase_legal(2) [OF ok k p none]
  note after = remote_ok [OF P run_okD(5) [OF ok k] legal run]
  note effect = phase_call_effect [OF after(5) i, unfolded role_commit_def, simplified]
  have p_ok: "payment_ok P s k p" using run_okD(3) [OF ok k] p(1) by simp
  have now_known: "fst r \<longrightarrow> known s1 b (pl_id P k)" using after(6) i by (cases "ph = PreparePhase") simp_all
  have "payment_ok P s1 k ?p"
    unfolding payment_ok_def effect(1) [of DoCommitDebit, simplified, THEN conjunct1] effect(1) [of DoCommitDebit, simplified, THEN conjunct2]
    by (rule receiver_return [OF p_ok [unfolded payment_ok_def] p(2) none])
      (use after(2) effect(1) [of DoCommitCredit] effect(2) facts(2) facts(5) [OF _ none] now_known in \<open>auto\<close>)
  then show ?thesis
    using st p by (intro call_ok [OF P ok k legal run]) (simp_all add: i static_def add_vote_def)
qed


lemma pay_call_ok:
  assumes P: "proper_plan P w" and ok: "run_ok P w s" and k: "k < pl_size P" and p: "p = sys_payments s ! k"
    and call: "pay_call role fate down k p s = Some s'"
  shows "run_ok P w s'"
proof (cases "pm_pc p")
  case (Calls ph a n b m)
  show ?thesis
  proof (cases "role = SenderRole")
    case True
    obtain s1 r where run: "remote down fate (phase_remote ph SenderRole a (pm_tx p)) s = (s1, r)" by (meson surj_pair)
    have none: "pm_sender_result p = None"
      using call Calls True by (cases "pm_sender_result p") (simp_all add: pay_call_def)
    then have s': "s' = set_payment k (p\<lparr>pm_sender_result := Some r, pm_tx := add_vote ph n (fst r) (pm_tx p)\<rparr>) s1"
      using call Calls True run by (simp add: pay_call_def)
    show ?thesis unfolding s' by (rule sender_call_ok [OF P ok k p Calls none run])
  next
    case False
    obtain s1 r where run: "remote down fate (phase_remote ph ReceiverRole b (pm_tx p)) s = (s1, r)" by (meson surj_pair)
    have none: "pm_receiver_result p = None"
      using call Calls False by (cases "pm_receiver_result p") (simp_all add: pay_call_def)
    then have s': "s' = set_payment k (p\<lparr>pm_receiver_result := Some r, pm_tx := add_vote ph m (fst r) (pm_tx p)\<rparr>) s1"
      using call Calls False run by (simp add: pay_call_def)
    show ?thesis unfolding s' by (rule receiver_call_ok [OF P ok k p Calls none run])
  qed
next
  case (AbortRemote role' a msg)
  let ?c = "\<lparr>rc_method = DoAbort, rc_request = abort_request (pm_id p), rc_address = a\<rparr>"
  let ?p = "p\<lparr>pm_pc := (if role' = SenderRole then AbortFind ReceiverRole msg else AbortEnd msg)\<rparr>"
  obtain s1 r where run: "remote down fate ?c s = (s1, r)" by (meson surj_pair)
  have s': "s' = set_payment k ?p s1" using call AbortRemote run by (simp add: pay_call_def)
  have st: "static P k p" using run_okD(2) [OF ok k] p by simp
  then have i: "tp_TransactionId (rc_request ?c) = pl_id P k" by (simp add: static_def abort_request_def)
  have legal: "legal P s ?c" by (simp add: legal_def)
  note after = remote_ok [OF P run_okD(5) [OF ok k] legal run]
  have "payment_ok P s k ?p"
    unfolding payment_ok_def
    by (rule pay_ok_pc [OF run_okD(3) [OF ok k, folded p, unfolded payment_ok_def]]) (simp add: AbortRemote pc_step_def)
  moreover have "occurrences q (pl_id P k) (sys_log s1) = occurrences q (pl_id P k) (sys_log s)
      \<and> occurrences q (pl_id P k) (sys_flight s1) = occurrences q (pl_id P k) (sys_flight s)" if "is_commit q" for q
    using call_effect_occurrences [OF after(5), of "pl_id P k" q] that by (cases "q = DoAbort") auto
  ultimately have "payment_ok P s1 k ?p" using after(2) by (blast intro: payment_ok_mono)
  then show ?thesis unfolding s' using st
    by (intro call_ok [OF P ok k legal run i]) (simp_all add: static_def)
qed (use call in \<open>simp_all add: pay_call_def\<close>)

text \<open>A phase that times out leaves the commits of its unfinished goroutines in flight.\<close>

lemma pay_timeout_ok:
  assumes P: "proper_plan P w" and ok: "run_ok P w s" and k: "k < pl_size P" and p: "p = sys_payments s ! k"
    and timeout: "pay_timeout k p s = Some s'"
  shows "run_ok P w s'"
proof (cases "pm_pc p")
  case (Calls ph a n b m)
  let ?late = "(if pm_sender_result p = None then [phase_remote ph SenderRole a (pm_tx p)] else [])
    @ (if pm_receiver_result p = None then [phase_remote ph ReceiverRole b (pm_tx p)] else [])"
  let ?p = "aborting (if ph = PreparePhase then ''Transaction timed out during prepare phase''
    else ''Transaction timed out during commit phase'') p"
  have s': "s' = set_payment k ?p (s\<lparr>sys_flight := ?late @ sys_flight s\<rparr>)"
    using timeout Calls by (simp add: pay_timeout_def)
  have st: "static P k p" using run_okD(2) [OF ok k] p by simp
  then have i: "tx_ID (pm_tx p) = pl_id P k" by (simp add: static_def)
  note facts = calls_facts [OF ok k p Calls] and legal = phase_legal [OF ok k p Calls]
  have log: "sys_log s' = sys_log s" by (simp add: s' set_payment_def)
  have known: "known s' c j = known s c j" for c j by (simp add: s' set_payment_def known_def)
  have flight:
    "occurrences DoCommitDebit (pl_id P k) (sys_flight s') = (if ph \<noteq> PreparePhase \<and> pm_sender_result p = None then 1 else 0)
      + occurrences DoCommitDebit (pl_id P k) (sys_flight s)"
    "occurrences DoCommitCredit (pl_id P k) (sys_flight s') = (if ph \<noteq> PreparePhase \<and> pm_receiver_result p = None then 1 else 0)
      + occurrences DoCommitCredit (pl_id P k) (sys_flight s)"
    using i by (simp_all add: s' set_payment_def)
  show ?thesis
  proof (rule run_ok_update [OF ok k, where p' = ?p])
    show "sys_payments s' = (sys_payments s)[k := ?p]" by (simp add: s' set_payment_def)
    show "static P k ?p" using st by (simp add: static_simps)
    have "payment_ok P s k p" using run_okD(3) [OF ok k] p by simp
    then show "payment_ok P s' k ?p"
      using Calls facts(4,5) by (auto simp: payment_ok_def known log flight pay_ok_def aborting_def doubtful_def)
    show "banks_ok P w s'"
      by (rule banks_ok_same [OF run_okD(5) [OF ok k] log]) (simp_all add: s' set_payment_def)
    show "records_ok P s'"
      by (rule records_ok_update [OF run_okD(4,1) [OF ok k] k, where p' = ?p])
        (simp_all add: s' set_payment_def aborting_def)
    have "\<forall>c \<in> set ?late. is_commit (rc_method c) \<longrightarrow> (\<exists>k < pl_size P. commit_of P k c)"
      using legal unfolding legal_def by (cases "pm_sender_result p"; cases "pm_receiver_result p") auto
    then show "flights_ok P (sys_flight s')"
      using run_okD(6) [OF ok k] unfolding flights_ok_def s' set_payment_def by auto
    show "known s c j \<Longrightarrow> known s' c j" for c j by (simp add: known)
    show "occurrences q (pl_id P j) (sys_log s') = occurrences q (pl_id P j) (sys_log s)
        \<and> occurrences q (pl_id P j) (sys_flight s') = occurrences q (pl_id P j) (sys_flight s)"
      if "j < pl_size P" "j \<noteq> k" for j q
      using plan_ids [OF P that(1) k] that(2) i by (simp add: s' set_payment_def)
  qed
qed (use timeout in \<open>simp_all add: pay_timeout_def\<close>)


subsection \<open>Late calls and the clean-up routine\<close>

lemma pay_ok_arrive:
  assumes p: "pay_ok ks kr ls lr fs fr sa ra p" and mono: "ks \<longrightarrow> ks'" "kr \<longrightarrow> kr'"
    and s: "ls' = ls \<and> fs' = fs \<or> fs = Suc fs' \<and> ls' \<le> Suc ls"
    and r: "lr' = lr \<and> fr' = fr \<or> fr = Suc fr' \<and> lr' \<le> Suc lr"
  shows "pay_ok ks' kr' ls' lr' fs' fr' sa ra p"
proof -
  have result: "result_ok ph kn l' f' x" if "result_ok ph kn l f x" "l' = l \<and> f' = f \<or> f = Suc f' \<and> l' \<le> Suc l" "l + f \<le> 1"
    for ph kn l f l' f' x
    using that by (auto simp: result_ok_def split: option.splits bool.splits)
  have "calls_ok ks kr ls' lr' fs' fr' p (pm_pc p)"
    using p result [OF _ s] result [OF _ r] by (cases "pm_pc p") (simp_all add: pay_ok_def)
  then have "calls_ok ks' kr' ls' lr' fs' fr' p (pm_pc p)" using mono by (rule calls_ok_mono)
  then show ?thesis using p mono s r unfolding pay_ok_def by auto
qed

lemma occurrences_drop_nth:
  assumes "n < length cs"
  shows "occurrences m i cs =
    (if rc_method (cs ! n) = m \<and> tp_TransactionId (rc_request (cs ! n)) = i then 1 else 0) + occurrences m i (drop_nth n cs)"
  by (subst id_take_nth_drop [OF assms]) (simp add: drop_nth_def)

lemma set_drop_nth: "set (drop_nth n xs) \<subseteq> set xs"
  using set_take_subset [of n xs] set_drop_subset [of "Suc n" xs] by (auto simp: drop_nth_def)

text \<open>A commit in flight is one that its bank knows and has not executed.\<close>

lemma flight_legal:
  assumes P: "proper_plan P w" and ok: "run_ok P w s" and n: "n < length (sys_flight s)"
  shows "legal P (s\<lparr>sys_flight := fl\<rparr>) (sys_flight s ! n)"
proof -
  let ?c = "sys_flight s ! n"
  have "\<exists>k < pl_size P. commit_of P k ?c \<and> known s (rc_address ?c) (pl_id P k)
      \<and> occurrences (rc_method ?c) (pl_id P k) (sys_log s) = 0" if commit: "is_commit (rc_method ?c)"
  proof -
    from n have "?c \<in> set (sys_flight s)" by simp
    then obtain k where k: "k < pl_size P" "commit_of P k ?c"
      using ok commit by (auto simp: run_ok_def flights_ok_def)
    have "0 < occurrences (rc_method ?c) (pl_id P k) (sys_flight s)"
      using occurrences_drop_nth [OF n] commit_of_id [OF k(2)] by simp
    then have "known s (rc_address ?c) (pl_id P k) \<and> occurrences (rc_method ?c) (pl_id P k) (sys_log s) = 0"
      using run_okD(3) [OF ok k(1)] k(2) may_commit_known [of "pm_pc (sys_payments s ! k)"]
      by (auto simp: payment_ok_def pay_ok_def commit_of_def)
    then show ?thesis using k by blast
  qed
  then show ?thesis by (simp add: legal_def known_def)
qed

lemma arrive_ok:
  assumes P: "proper_plan P w" and ok: "run_ok P w s" and n: "n < length (sys_flight s)"
  shows "run_ok P w (fst (run_remote down (sys_flight s ! n) (s\<lparr>sys_flight := drop_nth n (sys_flight s)\<rparr>)))"
proof -
  let ?c = "sys_flight s ! n" and ?s = "s\<lparr>sys_flight := drop_nth n (sys_flight s)\<rparr>"
  obtain s' r where run: "run_remote down ?c ?s = (s', r)" by (meson surj_pair)
  have banks: "banks_ok P w s" using ok by (simp add: run_ok_def)
  have "banks_ok P w ?s" by (rule banks_ok_same [OF banks]) simp_all
  note after = run_remote_ok [OF P this flight_legal [OF P ok n] run]
  have known: "known s' a i" if "known s a i" for a i using after(2) [of a i] that by (simp add: known_def)
  have flight: "sys_flight s' = drop_nth n (sys_flight s)" using after(3) by simp
  have move: "occurrences m i (sys_log s') = occurrences m i (sys_log s)
        \<and> occurrences m i (sys_flight s') = occurrences m i (sys_flight s)
      \<or> occurrences m i (sys_flight s) = Suc (occurrences m i (sys_flight s'))
        \<and> occurrences m i (sys_log s') \<le> Suc (occurrences m i (sys_log s))" for m i
    using occurrences_drop_nth [OF n, of m i] after(4) by (auto simp: flight split: sum.splits if_splits)
  have "payment_ok P s' k (sys_payments s ! k)" if k: "k < pl_size P" for k
  proof -
    have mono: "known s a i \<longrightarrow> known s' a i" for a i using known by blast
    show ?thesis using run_okD(3) [OF ok k] unfolding payment_ok_def by (rule pay_ok_arrive [OF _ mono mono move move])
  qed
  moreover have "flights_ok P (sys_flight s')"
    using ok set_drop_nth [of n "sys_flight s"] by (auto simp: run_ok_def flights_ok_def flight)
  ultimately show ?thesis using ok after(1,3) run by (simp add: run_ok_def records_ok_def)
qed

lemma expire_nth:
  assumes "k < length (sys_payments s)"
  shows "\<exists>st. sys_payments (expire now s) ! k = (sys_payments s ! k)\<lparr>pm_tx := (pm_tx (sys_payments s ! k))\<lparr>tx_State := st\<rparr>\<rparr>"
    (is "\<exists>st. _ = ?q st")
proof -
  let ?old = "map snd (filter (\<lambda>(i, k). expired now s k) (sys_records s))" and ?tx = "pm_tx (sys_payments s ! k)"
  have "sys_payments (expire now s) ! k =
      (if k \<in> set ?old \<and> tx_State ?tx \<noteq> TransactionCommitted \<and> tx_State ?tx \<noteq> TransactionAborted
       then ?q TransactionAborted else ?q (tx_State ?tx))"
    using assms by (simp add: expire_def Let_def del: set_map)
  then show ?thesis by (simp only: split: if_split) blast
qed

lemma expire_ok:
  assumes ok: "run_ok P w s"
  shows "run_ok P w (expire now s)"
proof -
  have len: "length (sys_payments (expire now s)) = length (sys_payments s)" by (simp add: expire_def Let_def)
  have world: "same_world s (expire now s)" by (simp add: expire_def Let_def same_world_def)
  have pays: "static P k (sys_payments (expire now s) ! k) \<and> payment_ok P (expire now s) k (sys_payments (expire now s) ! k)
      \<and> pm_pc (sys_payments (expire now s) ! k) = pm_pc (sys_payments s ! k)" if k: "k < pl_size P" for k
  proof -
    let ?p = "sys_payments s ! k"
    obtain st where st: "sys_payments (expire now s) ! k = ?p\<lparr>pm_tx := (pm_tx ?p)\<lparr>tx_State := st\<rparr>\<rparr>"
      using expire_nth [of k s now] run_okD(1) [OF ok k] by blast
    have "calls_ok ks kr ls lr fs fr (?p\<lparr>pm_tx := t\<rparr>) c = calls_ok ks kr ls lr fs fr ?p c" for ks kr ls lr fs fr t c
      by (cases c) simp_all
    then show ?thesis using run_okD(2,3) [OF ok k]
      unfolding st same_world_payment [OF world] by (simp add: payment_ok_def pay_ok_def static_def)
  qed
  have sub: "set (sys_records (expire now s)) \<subseteq> set (sys_records s)" by (auto simp: expire_def Let_def)
  have "records_ok P (expire now s)"
    unfolding records_ok_def
  proof
    fix x
    assume "x \<in> set (sys_records (expire now s))"
    then have x: "x \<in> set (sys_records s)" using sub by blast
    obtain i k where ik: "x = (i, k)" by (cases x)
    have r: "k < pl_size P" "pl_id P k = i" "\<not> early (pm_pc (sys_payments s ! k))"
      using ok x ik by (auto simp: run_ok_def records_ok_def)
    have "pm_pc (sys_payments (expire now s) ! k) = pm_pc (sys_payments s ! k)" using pays [OF r(1)] by (elim conjE)
    then show "case x of (i, k) \<Rightarrow> k < pl_size P \<and> pl_id P k = i \<and> \<not> early (pm_pc (sys_payments (expire now s) ! k))"
      using r by (simp add: ik)
  qed
  moreover have "banks_ok P w (expire now s)" using ok by (intro same_world_banks [OF world]) (simp add: run_ok_def)
  moreover have "flights_ok P (sys_flight (expire now s))" using ok world by (simp add: run_ok_def same_world_def)
  moreover have "length (sys_payments (expire now s)) = pl_size P" using ok len by (simp add: run_ok_def)
  ultimately show ?thesis using pays unfolding run_ok_def by blast
qed


end
