(* ===== verification/Strife_Concurrent_Theorems.thy ===== *)
theory Strife_Concurrent_Theorems
  imports Strife_Concurrent_Laws
begin

text \<open>
  Payments that run at the same time. With transaction ids of their own, and clients who each have one bank, the
  payments move money at the banks as if they were carried out one after the other, in every interleaving and
  whatever the network does: each debit and each credit happens at most once, both have happened when success is
  answered, and neither when the answer is a failure of the prepare phase. Every payment comes to an end. The
  gateway's own balances have no such property, and neither have two requests with one id.
\<close>

subsection \<open>Every run keeps the invariant\<close>

lemma concurrent_step_ok:
  assumes P: "proper_plan P w" and ok: "run_ok P w s" and step: "concurrent_step e s = Some s'"
  shows "run_ok P w s'"
proof -
  have len: "length (sys_payments s) = pl_size P" using ok by (simp add: run_ok_def)
  have own: "k < pl_size P \<and> f k (sys_payments s ! k) s = Some s'" if "with_payment f k s = Some s'" for f k
    using that len by (auto simp: with_payment_def split: if_splits)
  show ?thesis
  proof (cases e)
    case (Go now k)
    then have "with_payment (pay_go now) k s = Some s'" using step by simp
    from own [OF this] show ?thesis using pay_go_ok [OF P ok _ refl] by blast
  next
    case (Look env k)
    then have "with_payment (pay_look env) k s = Some s'" using step by simp
    from own [OF this] show ?thesis using pay_look_ok [OF P ok _ refl] by blast
  next
    case (Return role fate down k)
    then have "with_payment (pay_call role fate down) k s = Some s'" using step by simp
    from own [OF this] show ?thesis using pay_call_ok [OF P ok _ refl] by blast
  next
    case (Timeout k)
    then have "with_payment pay_timeout k s = Some s'" using step by simp
    from own [OF this] show ?thesis using pay_timeout_ok [OF P ok _ refl] by blast
  next
    case (Save order err k)
    then have "with_payment (pay_save order err) k s = Some s'" using step by simp
    from own [OF this] show ?thesis using pay_save_ok [OF ok _ refl] by blast
  next
    case (Arrive down n)
    then show ?thesis using step arrive_ok [OF P ok] by (auto split: if_splits)
  next
    case (Expire now)
    then have "s' = expire now s" using step by simp
    then show ?thesis using expire_ok [OF ok] by blast
  qed
qed

lemma run_events_ok:
  "proper_plan P w \<Longrightarrow> run_ok P w s \<Longrightarrow> run_events es s = Some s' \<Longrightarrow> run_ok P w s'"
  by (induction es arbitrary: s) (auto split: option.splits dest: concurrent_step_ok)

lemma arrivals_ok:
  assumes P: "proper_plan P w"
  shows "run_ok P w (arrivals w (pl_requests P))"
proof -
  let ?s = "arrivals w (pl_requests P)"
  have pay: "sys_payments ?s ! k = new_payment (pl_id P k) (snd (pl_requests P ! k))" if "k < pl_size P" for k
    using that by (simp add: arrivals_def split_beta)
  have "static P k (sys_payments ?s ! k) \<and> payment_ok P ?s k (sys_payments ?s ! k)" if k: "k < pl_size P" for k
    using P k by (simp add: pay proper_plan_def static_def payment_ok_def pay_ok_def new_payment_def) (simp add: arrivals_def)
  moreover have "banks_ok P w ?s" by (simp add: banks_ok_def arrivals_def)
  moreover have "records_ok P ?s" "flights_ok P (sys_flight ?s)" "length (sys_payments ?s) = pl_size P"
    by (simp_all add: records_ok_def flights_ok_def arrivals_def)
  ultimately show ?thesis by (simp add: run_ok_def)
qed

lemmas reachable_ok = run_events_ok [OF _ arrivals_ok]


subsection \<open>Every payment comes to an end\<close>

text \<open>How many steps a payment can take at most.\<close>

fun steps_at :: "pc \<Rightarrow> nat \<Rightarrow> nat" where
  "steps_at Begin _ = 25"
| "steps_at (Inspect _) _ = 24"
| "steps_at Funds _ = 23"
| "steps_at Guard _ = 22"
| "steps_at (GuardInspect _) _ = 21"
| "steps_at Enter _ = 20"
| "steps_at (FindSender ph) _ = (if ph = PreparePhase then 19 else 13)"
| "steps_at (FindReceiver ph _ _) _ = (if ph = PreparePhase then 18 else 12)"
| "steps_at (Mark ph _ _ _ _) _ = (if ph = PreparePhase then 17 else 11)"
| "steps_at (Calls ph _ _ _ _) open = (if ph = PreparePhase then 14 else 8) + open"
| "steps_at ReadSender _ = 7"
| "steps_at (WriteSender _) _ = 6"
| "steps_at ReadReceiver _ = 5"
| "steps_at (WriteReceiver _) _ = 4"
| "steps_at (Saving n) _ = max 1 (3 - n)"
| "steps_at (AbortFind role _) _ = (if role = SenderRole then 6 else 4)"
| "steps_at (AbortRemote role _ _) _ = (if role = SenderRole then 5 else 3)"
| "steps_at (AbortEnd _) _ = 2"
| "steps_at (CleanUp _) _ = 1"
| "steps_at (Finished _) _ = 0"

definition steps_left :: "payment \<Rightarrow> nat" where
  "steps_left p =
     steps_at (pm_pc p) ((if pm_sender_result p = None then 1 else 0) + (if pm_receiver_result p = None then 1 else 0))"

fun step_of :: "nat \<Rightarrow> event \<Rightarrow> bool" where
  "step_of k (Go _ j) = (j = k)"
| "step_of k (Look _ j) = (j = k)"
| "step_of k (Return _ _ _ j) = (j = k)"
| "step_of k (Timeout j) = (j = k)"
| "step_of k (Save _ _ j) = (j = k)"
| "step_of k _ = False"

lemma remote_payments: "remote down fate c s = (s', r) \<Longrightarrow> sys_payments s' = sys_payments s"
  by (auto simp: remote_def run_remote_def split: fate.splits prod.splits)

definition advances :: "nat \<Rightarrow> payment \<Rightarrow> sys \<Rightarrow> sys \<Rightarrow> bool" where
  "advances k p s s' \<longleftrightarrow> (\<exists>p'. sys_payments s' = (sys_payments s)[k := p'] \<and> steps_left p' < steps_left p)"

lemma advances_set: "steps_left p' < steps_left p \<Longrightarrow> sys_payments s1 = sys_payments s \<Longrightarrow> advances k p s (set_payment k p' s1)"
  by (auto simp: advances_def set_payment_def)

lemma advances_records [simp]:
  "advances k p s (put_record i j s') = advances k p s s'" "advances k p s (drop_record i s') = advances k p s s'"
  by (simp_all add: advances_def put_record_def drop_record_def)

lemma set_balance_advances:
  "steps_at next 0 < steps_left p \<Longrightarrow> \<not> is_calls next \<Longrightarrow> advances k p s (set_balance k p client b next s)"
  by (cases "next"; cases "UpdateBalance (gw_balances (sys_gw s)) client b")
    (simp_all add: set_balance_def advances_set steps_left_def paid_def)

lemma decide_steps: "steps_left (decide ph n m rs rr p) < steps_at (Calls ph a n b m) 0"
  by (simp add: steps_left_def decide_pc split: option.split)

lemma pay_go_advances:
  assumes go: "pay_go now k p s = Some s'"
  shows "advances k p s s'"
proof (cases "pm_pc p")
  case (WriteSender b)
  then show ?thesis using go by (auto simp: pay_go_def Let_def steps_left_def intro!: set_balance_advances)
next
  case (WriteReceiver b)
  then show ?thesis using go by (auto simp: pay_go_def Let_def steps_left_def intro!: set_balance_advances)
next
  case (Calls ph a n b m)
  then obtain rs rr where r: "pm_sender_result p = Some rs" "pm_receiver_result p = Some rr"
    using go by (auto simp: pay_go_def Let_def split: option.splits)
  then have "steps_left p = steps_at (Calls ph a n b m) 0" using Calls by (simp add: steps_left_def)
  then show ?thesis using go Calls r decide_steps [of ph n m rs rr p a b]
    by (auto simp: pay_go_def Let_def intro!: advances_set)
qed (use go in \<open>auto simp: pay_go_def Let_def find_record_def steps_left_def paid_def
       intro!: advances_set split: option.split\<close>)

lemma pay_look_advances:
  assumes look: "pay_look e k p s = Some s'"
  shows "advances k p s s'"
proof (cases "pm_pc p")
  case (FindSender ph)
  then show ?thesis using look
    by (auto simp: pay_look_def steps_left_def aborting_def intro!: advances_set split: prod.splits sum.splits)
next
  case (FindReceiver ph a n)
  then show ?thesis using look
    by (auto simp: pay_look_def steps_left_def aborting_def intro!: advances_set split: prod.splits sum.splits)
next
  case (AbortFind role m)
  then show ?thesis using look
    by (auto simp: pay_look_def steps_left_def intro!: advances_set split: prod.splits sum.splits if_splits)
qed (use look in \<open>simp_all add: pay_look_def\<close>)

lemma pay_call_advances:
  assumes call: "pay_call role fate down k p s = Some s'"
  shows "advances k p s s'"
proof (cases "pm_pc p")
  case (Calls ph a n b m)
  then show ?thesis using call
    by (auto simp: pay_call_def steps_left_def intro!: advances_set dest: remote_payments split: prod.splits if_splits)
next
  case (AbortRemote role' a m)
  then show ?thesis using call
    by (auto simp: pay_call_def steps_left_def intro!: advances_set dest: remote_payments split: prod.splits)
qed (use call in \<open>simp_all add: pay_call_def\<close>)

lemma pay_timeout_advances: "pay_timeout k p s = Some s' \<Longrightarrow> advances k p s s'"
  by (cases "pm_pc p") (auto simp: pay_timeout_def Let_def steps_left_def aborting_def intro!: advances_set)

lemma pay_save_advances: "pay_save order err k p s = Some s' \<Longrightarrow> advances k p s s'"
  by (cases "pm_pc p") (auto simp: pay_save_def steps_left_def paid_def intro!: advances_set split: prod.splits if_splits)


lemma concurrent_step_advances:
  assumes step: "concurrent_step e s = Some s'" and k: "k < length (sys_payments s)"
  shows "length (sys_payments s') = length (sys_payments s)"
    and "steps_left (sys_payments s' ! k) + (if step_of k e then 1 else 0) \<le> steps_left (sys_payments s ! k)"
proof -
  have own: "length (sys_payments s') = length (sys_payments s)
      \<and> steps_left (sys_payments s' ! k) + (if j = k then 1 else 0) \<le> steps_left (sys_payments s ! k)"
    if "with_payment f j s = Some s'" "\<And>p. f j p s = Some s' \<Longrightarrow> advances j p s s'" for f j
  proof -
    have "j < length (sys_payments s)" "f j (sys_payments s ! j) s = Some s'"
      using that(1) by (auto simp: with_payment_def split: if_splits)
    moreover from that(2) [OF this(2)] obtain p' where
      "sys_payments s' = (sys_payments s)[j := p']" "steps_left p' < steps_left (sys_payments s ! j)"
      by (auto simp: advances_def)
    ultimately show ?thesis by (auto simp: nth_list_update)
  qed
  have "length (sys_payments s') = length (sys_payments s)
    \<and> steps_left (sys_payments s' ! k) + (if step_of k e then 1 else 0) \<le> steps_left (sys_payments s ! k)"
  proof (cases e)
    case (Go now j)
    then show ?thesis using own [of "pay_go now" j] step pay_go_advances by simp
  next
    case (Look env j)
    then show ?thesis using own [of "pay_look env" j] step pay_look_advances by simp
  next
    case (Return role fate down j)
    then show ?thesis using own [of "pay_call role fate down" j] step pay_call_advances by simp
  next
    case (Timeout j)
    then show ?thesis using own [of pay_timeout j] step pay_timeout_advances by simp
  next
    case (Save order err j)
    then show ?thesis using own [of "pay_save order err" j] step pay_save_advances by simp
  next
    case (Arrive down n)
    then show ?thesis using step by (auto simp: run_remote_def split: if_splits prod.splits)
  next
    case (Expire now)
    then have s': "s' = expire now s" using step by simp
    obtain st where "sys_payments s' ! k = (sys_payments s ! k)\<lparr>pm_tx := (pm_tx (sys_payments s ! k))\<lparr>tx_State := st\<rparr>\<rparr>"
      using expire_nth [OF k, of now] s' by blast
    then show ?thesis using Expire by (simp add: steps_left_def s' expire_def Let_def)
  qed
  then show "length (sys_payments s') = length (sys_payments s)"
    and "steps_left (sys_payments s' ! k) + (if step_of k e then 1 else 0) \<le> steps_left (sys_payments s ! k)"
    by blast+
qed

lemma run_events_steps:
  "run_events es s = Some s' \<Longrightarrow> k < length (sys_payments s) \<Longrightarrow>
    length (sys_payments s') = length (sys_payments s)
    \<and> steps_left (sys_payments s' ! k) + length (filter (step_of k) es) \<le> steps_left (sys_payments s ! k)"
proof (induction es arbitrary: s)
  case (Cons e es)
  then obtain s1 where s1: "concurrent_step e s = Some s1" "run_events es s1 = Some s'"
    by (auto split: option.splits)
  note one = concurrent_step_advances [OF s1(1) Cons.prems(2)]
  from Cons.IH [OF s1(2)] Cons.prems(2) one show ?case by (auto split: if_splits)
qed simp

lemma payment_moves:
  assumes k: "k < length (sys_payments s)" and unfinished: "\<And>r. pm_pc (sys_payments s ! k) \<noteq> Finished r"
  shows "\<exists>e. step_of k e \<and> concurrent_step e s \<noteq> None"
proof -
  let ?p = "sys_payments s ! k"
  have moves: "\<exists>e. step_of k e \<and> concurrent_step e s \<noteq> None"
    if "step_of k e" "concurrent_step e s \<noteq> None" for e using that by blast
  note enabled = with_payment_def pay_go_def pay_look_def pay_call_def pay_save_def
  show ?thesis
  proof (cases "pm_pc ?p")
    case (Finished r)
    then show ?thesis using unfinished by blast
  next
    case (Calls ph a n b m)
    consider "pm_sender_result ?p = None" | "pm_receiver_result ?p = None"
      | rs rr where "pm_sender_result ?p = Some rs" "pm_receiver_result ?p = Some rr" by fastforce
    then show ?thesis
    proof cases
      case 1
      show ?thesis by (rule moves [of "Return SenderRole undefined undefined k"]) (use k Calls 1 in \<open>simp_all add: enabled split_beta\<close>)
    next
      case 2
      show ?thesis by (rule moves [of "Return ReceiverRole undefined undefined k"]) (use k Calls 2 in \<open>simp_all add: enabled split_beta\<close>)
    next
      case 3
      show ?thesis by (rule moves [of "Go 0 k"]) (use k Calls 3 in \<open>simp_all add: enabled\<close>)
    qed
  next
    case (FindSender ph)
    show ?thesis by (rule moves [of "Look undefined k"]) (use k FindSender in \<open>simp_all add: enabled split: prod.split sum.split\<close>)
  next
    case (FindReceiver ph a n)
    show ?thesis by (rule moves [of "Look undefined k"]) (use k FindReceiver in \<open>simp_all add: enabled split: prod.split sum.split\<close>)
  next
    case (AbortFind role m)
    show ?thesis by (rule moves [of "Look undefined k"]) (use k AbortFind in \<open>simp_all add: enabled split: prod.split sum.split\<close>)
  next
    case (AbortRemote role a m)
    show ?thesis by (rule moves [of "Return SenderRole undefined undefined k"]) (use k AbortRemote in \<open>simp_all add: enabled split_beta\<close>)
  next
    case (Saving n)
    show ?thesis by (rule moves [of "Save undefined undefined k"]) (use k Saving in \<open>simp_all add: enabled split: prod.split\<close>)
  qed (rule moves [of "Go 0 k"]; use k in \<open>simp add: enabled Let_def\<close>)+
qed


subsection \<open>What the answers mean\<close>


fun succeeded :: "pc \<Rightarrow> bool" where
  "succeeded (Finished r) = resp_Success r"
| "succeeded _ = False"

subsection \<open>The order of the transfers\<close>

text \<open>
  The two halves of payment \<open>k\<close>: with \<open>SenderRole\<close> the debit of its sender, with \<open>ReceiverRole\<close> the credit of its
  receiver; what they do to the balance of client \<open>cl\<close> at the bank at address \<open>a\<close>, with the rounding of float32.
\<close>

definition transfer :: "plan \<Rightarrow> string \<Rightarrow> string \<Rightarrow> nat \<times> role \<Rightarrow> f32 \<Rightarrow> f32" where
  "transfer P a cl t x =
     (case t of (k, role) \<Rightarrow>
        if role = SenderRole
        then (if a = pl_sender_bank P k \<and> cl = pl_sender P k then x - pl_amount P k else x)
        else (if a = pl_receiver_bank P k \<and> cl = pl_receiver P k then x + pl_amount P k else x))"

definition commit_method :: "role \<Rightarrow> tp_method" where
  "commit_method role = (if role = SenderRole then DoCommitDebit else DoCommitCredit)"

definition the_commit :: "plan \<Rightarrow> nat \<times> role \<Rightarrow> remote_call" where
  "the_commit P t =
     (case t of (k, role) \<Rightarrow>
        \<lparr>rc_method = commit_method role,
         rc_request = two_phase_request (pl_id P k) (if role = SenderRole then pl_sender P k else pl_receiver P k) (pl_amount P k),
         rc_address = (if role = SenderRole then pl_sender_bank P k else pl_receiver_bank P k)\<rparr>)"

lemma not_sender [simp]: "role \<noteq> SenderRole \<longleftrightarrow> role = ReceiverRole"
  by (cases role) simp_all

lemma commit_of_the_commit: "commit_of P k c \<Longrightarrow> \<exists>role. c = the_commit P (k, role)"
  by (cases c) (auto simp: commit_of_def the_commit_def commit_method_def
      intro: exI [of _ SenderRole] exI [of _ ReceiverRole])

lemma booked_the_commit: "booked a cl (the_commit P t) = transfer P a cl t"
  by (auto simp: fun_eq_iff booked_def the_commit_def transfer_def commit_method_def effect_on_def
      two_phase_request_def split: prod.split)

lemma log_is_commits:
  assumes "\<forall>c \<in> set cs. \<exists>k < pl_size P. commit_of P k c"
  shows "\<exists>ts. cs = map (the_commit P) ts \<and> set ts \<subseteq> {..<pl_size P} \<times> UNIV"
  using assms
proof (induction cs)
  case (Cons c cs)
  then obtain ts where ts: "cs = map (the_commit P) ts" "set ts \<subseteq> {..<pl_size P} \<times> UNIV" by auto
  obtain k role where "k < pl_size P" "c = the_commit P (k, role)"
    using Cons.prems commit_of_the_commit by fastforce
  then show ?case using ts by (intro exI [of _ "(k, role) # ts"]) simp
qed simp

lemma occurrences_commits:
  assumes P: "proper_plan P w" and k: "k < pl_size P" and "set ts \<subseteq> {..<pl_size P} \<times> UNIV"
  shows "occurrences (commit_method role) (pl_id P k) (map (the_commit P) ts) = count_list ts (k, role)"
  using assms(3)
proof (induction ts)
  case (Cons t ts)
  obtain j r where t: "t = (j, r)" by fastforce
  have "tp_TransactionId (rc_request (the_commit P t)) = pl_id P j" "rc_method (the_commit P t) = commit_method r"
    by (simp_all add: t the_commit_def two_phase_request_def)
  moreover have "commit_method r = commit_method role \<longleftrightarrow> r = role"
    by (cases r; cases role; simp add: commit_method_def)
  ultimately show ?case using Cons plan_ids [OF P _ k, of j] t by auto
qed simp

lemma distinct_count_list: "(\<And>x. count_list xs x \<le> 1) \<Longrightarrow> distinct xs"
proof (induction xs)
  case (Cons x xs)
  have "count_list xs y \<le> 1" for y using Cons.prems [of y] by (auto split: if_splits)
  moreover have "x \<notin> set xs" using Cons.prems [of x] by (simp add: count_list_0_iff)
  ultimately show ?case using Cons.IH by simp
qed simp

text \<open>What the invariant says of the order in which the commits were executed.\<close>

definition transfer_order :: "plan \<Rightarrow> gateway \<Rightarrow> sys \<Rightarrow> (nat \<times> role) list \<Rightarrow> bool" where
  "transfer_order P w s ts \<longleftrightarrow>
     distinct ts \<and> set ts \<subseteq> {..<pl_size P} \<times> UNIV
     \<and> (\<forall>k < pl_size P. \<forall>role.
          (settled (pm_pc (sys_payments s ! k)) \<longrightarrow> (k, role) \<in> set ts)
          \<and> (\<not> may_commit (pm_pc (sys_payments s ! k)) \<longrightarrow> (k, role) \<notin> set ts))
     \<and> (\<forall>a b0 b cl. map_of (gw_servers w) a = Some b0 \<longrightarrow> map_of (gw_servers (sys_gw s)) a = Some b \<longrightarrow>
          balance_of b cl = fold (transfer P a cl) ts (balance_of b0 cl))"

lemma transfers_in_order:
  assumes P: "proper_plan P w" and ok: "run_ok P w s"
  shows "\<exists>ts. transfer_order P w s ts"
proof -
  have banks: "banks_ok P w s" using ok by (simp add: run_ok_def)
  then obtain us where log: "sys_log s = map (the_commit P) us" and us: "set us \<subseteq> {..<pl_size P} \<times> UNIV"
    using log_is_commits [of "sys_log s" P] by (auto simp: banks_ok_def)
  have count: "occurrences (commit_method role) (pl_id P k) (sys_log s) = count_list us (k, role)" if "k < pl_size P" for k role
    unfolding log by (rule occurrences_commits [OF P that us])
  have pay: "count_list us (k, role) \<le> 1"
      "settled (pm_pc (sys_payments s ! k)) \<Longrightarrow> count_list us (k, role) = 1"
      "\<not> may_commit (pm_pc (sys_payments s ! k)) \<Longrightarrow> count_list us (k, role) = 0" if k: "k < pl_size P" for k role
    using run_okD(3) [OF ok k] count [OF k, of role]
    by (cases role; simp add: payment_ok_def pay_ok_def commit_method_def)+
  have "count_list us t \<le> 1" for t
  proof (cases "fst t < pl_size P")
    case True
    then show ?thesis using pay(1) [of "fst t" "snd t"] by simp
  next
    case False
    then have "t \<notin> set us" using us by auto
    then show ?thesis by (simp add: count_list_0_iff)
  qed
  then have "distinct us" by (rule distinct_count_list)
  have "transfer_order P w s (rev us)"
    unfolding transfer_order_def
  proof (intro conjI allI impI)
    show "distinct (rev us)" "set (rev us) \<subseteq> {..<pl_size P} \<times> UNIV" using \<open>distinct us\<close> us by simp_all
    show "(k, role) \<in> set (rev us)" if "k < pl_size P" "settled (pm_pc (sys_payments s ! k))" for k role
      using pay(2) [OF that, of role] by (metis count_list_0_iff set_rev zero_neq_one)
    show "(k, role) \<notin> set (rev us)" if "k < pl_size P" "\<not> may_commit (pm_pc (sys_payments s ! k))" for k role
      using pay(3) [OF that, of role] by (simp add: count_list_0_iff)
    show "balance_of b cl = fold (transfer P a cl) (rev us) (balance_of b0 cl)"
      if "map_of (gw_servers w) a = Some b0" "map_of (gw_servers (sys_gw s)) a = Some b" for a b0 b cl
    proof -
      have "balance_of b cl = foldr (booked a cl) (sys_log s) (balance_of b0 cl)"
        using banks that by (simp add: banks_ok_def)
      then show ?thesis by (simp add: log foldr_map comp_def booked_the_commit [abs_def] flip: foldr_conv_fold)
    qed
  qed
  then show ?thesis by blast
qed

lemma succeeded_settled: "succeeded pc \<Longrightarrow> settled pc"
  by (cases pc) simp_all


text \<open>C2. Payments that run at the same time add up. Let two-phase payments with different ids, between clients who
  each have an account at one bank, start together, and let their steps, the network's losses, delays and late
  deliveries, timeouts and the clean-up routine interleave in any way. Then at every moment the balances of all
  banks are those of one sequence of debits and credits of these payments, carried out one after the other on the
  initial balances with float32's rounding: no debit or credit is in it twice, both halves of each payment that has been
  answered with success are in it, and no half of a payment that has not come to its commit calls or has been
  answered with a failure that came before them. (Payments whose answer speaks of the commit phase may be in it with one
  half, both or none.)\<close>

theorem concurrent_payments_add_up:
  assumes P: "proper_plan P w" and run: "run_events es (arrivals w (pl_requests P)) = Some s"
  shows "\<exists>ts. distinct ts \<and> set ts \<subseteq> {..<pl_size P} \<times> UNIV
    \<and> (\<forall>k < pl_size P. \<forall>role.
         (succeeded (pm_pc (sys_payments s ! k)) \<longrightarrow> (k, role) \<in> set ts)
         \<and> (\<not> may_commit (pm_pc (sys_payments s ! k)) \<longrightarrow> (k, role) \<notin> set ts))
    \<and> (\<forall>a b0 b cl. map_of (gw_servers w) a = Some b0 \<longrightarrow> map_of (gw_servers (sys_gw s)) a = Some b \<longrightarrow>
         balance_of b cl = fold (transfer P a cl) ts (balance_of b0 cl))"
proof -
  obtain ts where "transfer_order P w s ts" using transfers_in_order [OF P reachable_ok [OF P P run]] by blast
  then show ?thesis unfolding transfer_order_def using succeeded_settled by (intro exI [of _ ts]) blast
qed









subsection \<open>Each payment at most once\<close>

text \<open>C6. The answers are truthful at every moment of every interleaving of payments with different ids, between clients
  who each have an account at one bank: a payment is debited at most once and credited at most once, both
  exactly once when it has been answered with success, and neither when it has been answered with a failure that does
  not speak of the commit phase. Calls that are still on their way count as well, so that no later step can change
  this. The amounts, the balances, the network and the timing are arbitrary.\<close>

theorem concurrent_answers_are_truthful:
  assumes P: "proper_plan P w" and run: "run_events es (arrivals w (pl_requests P)) = Some s" and k: "k < pl_size P"
  shows "occurrences DoCommitDebit (pl_id P k) (sys_log s @ sys_flight s) \<le> 1
    \<and> occurrences DoCommitCredit (pl_id P k) (sys_log s @ sys_flight s) \<le> 1
    \<and> (case pm_pc (sys_payments s ! k) of
         Finished r \<Rightarrow>
           (resp_Success r \<longrightarrow> occurrences DoCommitDebit (pl_id P k) (sys_log s) = 1
              \<and> occurrences DoCommitCredit (pl_id P k) (sys_log s) = 1)
           \<and> (\<not> resp_Success r \<and> \<not> doubtful (resp_Message r) \<longrightarrow>
              occurrences DoCommitDebit (pl_id P k) (sys_log s @ sys_flight s) = 0
              \<and> occurrences DoCommitCredit (pl_id P k) (sys_log s @ sys_flight s) = 0)
       | _ \<Rightarrow> True)"
  using run_okD(3) [OF reachable_ok [OF P P run] k] by (auto simp: payment_ok_def pay_ok_def split: pc.split)

text \<open>C30. Every payment comes to an end: in no interleaving does a payment take more than 25 steps, and one that has not
  been answered can take a step, whatever the others do.\<close>

theorem concurrent_payments_finish:
  assumes run: "run_events es (arrivals w reqs) = Some s" and k: "k < length reqs"
  shows "length (filter (step_of k) es) \<le> 25
    \<and> ((\<exists>r. pm_pc (sys_payments s ! k) = Finished r) \<or> (\<exists>e. step_of k e \<and> concurrent_step e s \<noteq> None))"
proof -
  have len: "k < length (sys_payments (arrivals w reqs))" using k by (simp add: arrivals_def)
  have "steps_left (sys_payments (arrivals w reqs) ! k) = 25"
    using k by (simp add: arrivals_def split_beta steps_left_def new_payment_def)
  then have "length (filter (step_of k) es) \<le> 25" and "k < length (sys_payments s)"
    using run_events_steps [OF run len] len by auto
  then show ?thesis using payment_moves by blast
qed


subsection \<open>A run of two payments\<close>

text \<open>
  Alice pays 50 to Bob and 30 to Dave at the same time. Both payments pass their checks and their phases one after the
  other, but access the local balances in turns.
\<close>

definition the_look :: call_env where
  "the_look = call_with Delivered"

definition phase_events :: "nat \<Rightarrow> event list" where
  "phase_events k =
     [Look the_look k, Look the_look k, Go 0 k, Return SenderRole Delivered '''' k, Return ReceiverRole Delivered '''' k, Go 0 k]"

definition checks :: "nat \<Rightarrow> event list" where
  "checks k = [Go 0 k, Go 0 k, Go 0 k, Go 0 k]"

definition bank_part :: "nat \<Rightarrow> event list" where
  "bank_part k = phase_events k @ phase_events k"

definition saving :: "nat \<Rightarrow> event list" where
  "saving k = [Save [''Alice'', ''Bob'', ''Charlie'', ''Dave''] None k]"

definition books_part :: "nat \<Rightarrow> event list" where
  "books_part k = checks k @ saving k"

definition two_requests :: "(string \<times> PaymentDetails) list" where
  "two_requests = [(''t'', pay_req ''Alice'' ''Bob'' (units 50)), (''u'', pay_req ''Alice'' ''Dave'' (units 30))]"

definition in_turns :: "event list" where
  "in_turns = checks 0 @ bank_part 0 @ checks 1 @ bank_part 1
     @ [Go 0 0, Go 0 1, Go 0 0, Go 0 1, Go 0 0, Go 0 1, Go 0 0, Go 0 1] @ saving 0 @ saving 1"

definition two_plan :: plan where
  "two_plan = \<lparr>pl_requests = two_requests, pl_sender_bank = (\<lambda>_. ''localhost:50051''),
     pl_receiver_bank = (\<lambda>_. ''localhost:50052'')\<rparr>"

lemma two_plan_cases: "k < pl_size two_plan \<Longrightarrow> k = 0 \<or> k = 1"
  by (auto simp: two_plan_def two_requests_def)

lemma two_plan_proper: "proper_plan two_plan the_system"
proof -
  have "pl_receiver two_plan k \<noteq> '''' \<and> client_home (bank_view (gw_banking the_system)) (pl_sender two_plan k) (pl_sender_bank two_plan k)
      \<and> client_home (bank_view (gw_banking the_system)) (pl_receiver two_plan k) (pl_receiver_bank two_plan k)"
    if "k < pl_size two_plan" for k
    using two_plan_cases [OF that]
    by (elim disjE) (use the_system_homes in \<open>simp_all add: two_plan_def two_requests_def pay_req_def\<close>)
  moreover have "distinct (map fst (pl_requests two_plan))" by (simp add: two_plan_def two_requests_def)
  ultimately show ?thesis unfolding proper_plan_def by blast
qed

lemma in_turns_runs:
  obtains s where "run_events in_turns (arrivals the_system (pl_requests two_plan)) = Some s"
    and "map (\<lambda>p. succeeded (pm_pc p)) (sys_payments s) = [True, True]"
    and "map_of (gw_servers (sys_gw s)) ''localhost:50051'' \<noteq> None"
proof -
  have "case run_events in_turns (arrivals the_system two_requests) of None \<Rightarrow> False
    | Some s \<Rightarrow> map (\<lambda>p. succeeded (pm_pc p)) (sys_payments s) = [True, True]
        \<and> \<not> Option.is_none (map_of (gw_servers (sys_gw s)) ''localhost:50051'')"
    by code_simp
  then obtain s where "run_events in_turns (arrivals the_system two_requests) = Some s"
    "map (\<lambda>p. succeeded (pm_pc p)) (sys_payments s) = [True, True]
      \<and> \<not> Option.is_none (map_of (gw_servers (sys_gw s)) ''localhost:50051'')"
    by (simp split: option.splits)
  then show ?thesis by (intro that [of s]) (simp_all add: two_plan_def Option.is_none_def)
qed

lemma in_turns_clear:
  assumes "map (\<lambda>p. succeeded (pm_pc p)) (sys_payments s) = [True, True]" and "k < pl_size two_plan"
  shows "succeeded (pm_pc (sys_payments s ! k))"
proof -
  have "length (sys_payments s) = 2" using arg_cong [OF assms(1), of length] by simp
  then show ?thesis using two_plan_cases [OF assms(2)] arg_cong [OF assms(1), of "\<lambda>xs. xs ! k"] by auto
qed

text \<open>The bank of Alice, before and after; her balance was 202.\<close>

lemma alices_bank:
  obtains b0 where "map_of (gw_servers the_system) ''localhost:50051'' = Some b0" and "balance_of b0 ''Alice'' = units 202"
proof -
  have "bank_money the_system ''localhost:50051'' ''Alice'' = Some (units 202)" by code_simp
  then show ?thesis by (auto simp: bank_money_def intro: that)
qed

theorem concurrent_payments_add_up_witness:
  "\<exists>s b ts. run_events in_turns (arrivals the_system two_requests) = Some s
     \<and> map_of (gw_servers (sys_gw s)) ''localhost:50051'' = Some b
     \<and> distinct ts \<and> {(0, SenderRole), (1, SenderRole)} \<subseteq> set ts
     \<and> balance_of b ''Alice'' = fold (transfer two_plan ''localhost:50051'' ''Alice'') ts (units 202)"
proof -
  obtain s where s: "run_events in_turns (arrivals the_system (pl_requests two_plan)) = Some s"
    and finished: "map (\<lambda>p. succeeded (pm_pc p)) (sys_payments s) = [True, True]"
    and "map_of (gw_servers (sys_gw s)) ''localhost:50051'' \<noteq> None"
    by (rule in_turns_runs)
  then obtain b where b: "map_of (gw_servers (sys_gw s)) ''localhost:50051'' = Some b" by blast
  obtain b0 where b0: "map_of (gw_servers the_system) ''localhost:50051'' = Some b0" "balance_of b0 ''Alice'' = units 202"
    by (rule alices_bank)
  have size: "0 < pl_size two_plan" "1 < pl_size two_plan" by (simp_all add: two_plan_def two_requests_def)
  have run: "run_events in_turns (arrivals the_system two_requests) = Some s" using s by (simp add: two_plan_def)
  note ok = in_turns_clear [OF finished]
  from concurrent_payments_add_up [OF two_plan_proper s] obtain ts where ts: "distinct ts"
    and all: "\<forall>k < pl_size two_plan. \<forall>role. succeeded (pm_pc (sys_payments s ! k)) \<longrightarrow> (k, role) \<in> set ts"
    and bal: "\<forall>a b0 b cl. map_of (gw_servers the_system) a = Some b0 \<longrightarrow> map_of (gw_servers (sys_gw s)) a = Some b \<longrightarrow>
      balance_of b cl = fold (transfer two_plan a cl) ts (balance_of b0 cl)"
    by blast
  from bal b0(1) b have "balance_of b ''Alice'' = fold (transfer two_plan ''localhost:50051'' ''Alice'') ts (balance_of b0 ''Alice'')"
    by simp
  then have "balance_of b ''Alice'' = fold (transfer two_plan ''localhost:50051'' ''Alice'') ts (units 202)"
    unfolding b0(2) .
  moreover have "(k, role) \<in> set ts" if "k < pl_size two_plan" for k role using all ok that by blast
  moreover note ts
  ultimately show ?thesis using run b size by (intro exI [of _ s] exI [of _ b] exI [of _ ts]) simp
qed


theorem concurrent_answers_are_truthful_witness:
  "\<exists>s. run_events in_turns (arrivals the_system two_requests) = Some s
     \<and> occurrences DoCommitDebit ''t'' (sys_log s @ sys_flight s) \<le> 1"
proof -
  obtain s where s: "run_events in_turns (arrivals the_system (pl_requests two_plan)) = Some s"
    by (rule in_turns_runs)
  have "0 < pl_size two_plan" "pl_id two_plan 0 = ''t''" by (simp_all add: two_plan_def two_requests_def)
  then have "occurrences DoCommitDebit ''t'' (sys_log s @ sys_flight s) \<le> 1"
    using concurrent_answers_are_truthful [OF two_plan_proper s, of 0] by metis
  then show ?thesis using s by (auto simp: two_plan_def)
qed

theorem concurrent_payments_finish_witness: "length (filter (step_of 0) in_turns) \<le> 25"
proof -
  obtain s where s: "run_events in_turns (arrivals the_system (pl_requests two_plan)) = Some s"
    by (rule in_turns_runs)
  have "0 < length (pl_requests two_plan)" by (simp add: two_plan_def two_requests_def)
  from concurrent_payments_finish [OF s this] show ?thesis by blast
qed


subsection \<open>What the gateway does not protect\<close>

definition seen :: "sys \<Rightarrow> bool list \<times> int option \<times> int option" where
  "seen s = (map (\<lambda>p. succeeded (pm_pc p)) (sys_payments s), at_A (sys_gw s) ''Alice'', at_gateway (sys_gw s) ''Alice'')"

text \<open>Two races of the gateway. First, the local balances lose an update. Alice has 202 and pays 50 to Bob and 30
  to Dave at the same time; both payments succeed, and her bank is left with 122. But the gateway reads a balance in one
  step and writes it in a later one: with both reads before the writes its own balance of Alice is 172, and
  each following check of her funds uses that number. Second, one id is paid twice. The gateway looks for a
  transaction with the id of a request, and enters the new one some steps later; when a repeated request falls between
  the two, both run, and Alice is debited 50 twice. Only when the id is known as the repetition arrives
  is it answered from the record.\<close>

lemma concurrent_payments_race:
  "map_option seen (run_events in_turns (arrivals the_system two_requests)) = Some ([True, True], Some 122, Some 172)
   \<and> (let fifty = pay_req ''Alice'' ''Bob'' (units 50); both = arrivals the_system [(''t'', fifty), (''t'', fifty)]
      in map_option seen (run_events ([Go 0 1, Go 0 1, Go 0 1] @ checks 0 @ bank_part 0 @ books_part 0
             @ [Go 0 1] @ bank_part 1 @ books_part 1) both) = Some ([True, True], Some 102, Some 102)
       \<and> map_option seen (run_events (checks 0 @ bank_part 0 @ books_part 0 @ [Go 0 1, Go 0 1]) both)
           = Some ([True, True], Some 152, Some 152))"
  unfolding Let_def by (intro conjI; code_simp)

end
