(* ===== verification/Strife_Types.thy ===== *)
theory Strife_Types
  imports Strife_Concurrent_Theorems
begin

text \<open>
  Amounts are values of Go's float32. The type \<open>f32\<close> has more numbers than float32; \<open>float32\<close> are those that a
  variable of the program can hold. Arithmetic yields such numbers, and every state of the gateway, its
  payments and the banks holds only such numbers.
\<close>

subsection \<open>The numbers of float32\<close>

text \<open>24 significant bits, and less than \<open>2 ^ 128\<close>.\<close>

fun float32 :: "f32 \<Rightarrow> bool" where
  "float32 (Fin n) = (\<bar>n\<bar> < 2 ^ 277 \<and> 2 ^ (bits \<bar>n\<bar> - 24) dvd n)"
| "float32 _ = True"

lemma bits_bounds: "0 < n \<Longrightarrow> 2 ^ (bits n - 1) \<le> n \<and> n < 2 ^ bits n"
proof (induction n rule: bits.induct)
  case (1 n)
  show ?case
  proof (cases "n = 1")
    case True
    then show ?thesis by (simp add: bits.simps)
  next
    case False
    with 1 have n: "0 < n div 2" by simp
    then have IH: "2 ^ (bits (n div 2) - 1) \<le> n div 2 \<and> n div 2 < 2 ^ bits (n div 2)" using 1 by simp
    have b: "bits n = Suc (bits (n div 2))" using 1(2) by (subst bits.simps) simp
    have "0 < bits (n div 2)" using n by (subst bits.simps) simp
    then obtain m where m: "bits (n div 2) = Suc m" by (cases "bits (n div 2)") auto
    have "2 * 2 ^ m \<le> 2 * (n div 2)" "2 * (n div 2) + 2 \<le> 2 * 2 ^ Suc m" using IH m by simp_all
    moreover have "2 * (n div 2) \<le> n" "n < 2 * (n div 2) + 2" by simp_all
    ultimately have "2 ^ Suc m \<le> n" "n < 2 ^ Suc (Suc m)" by simp_all
    then show ?thesis by (simp add: b m)
  qed
qed

lemma float32I:
  assumes "\<bar>q\<bar> \<le> 2 ^ 24" and "\<bar>q * 2 ^ k\<bar> < 2 ^ 277"
  shows "float32 (Fin (q * 2 ^ k))"
proof (cases "\<bar>q\<bar> = 2 ^ 24")
  case True
  have "\<bar>q * 2 ^ k\<bar> < 2 ^ (k + 25)" using True by (simp add: abs_mult power_add)
  then have "bits \<bar>q * 2 ^ k\<bar> - 24 \<le> k + 1" using bits_le [of "\<bar>q * 2 ^ k\<bar>" "k + 25"] by simp
  then have "(2 :: int) ^ (bits \<bar>q * 2 ^ k\<bar> - 24) dvd 2 ^ (k + 24)" by (intro le_imp_power_dvd) simp
  also have "(2 :: int) ^ (k + 24) dvd q * 2 ^ k"
    using True by (metis dvd_abs_iff dvd_refl mult_dvd_mono power_add mult.commute abs_dvd_iff)
  finally show ?thesis using assms(2) by simp
next
  case False
  then have "\<bar>q\<bar> < 2 ^ 24" using assms(1) by simp
  then have "\<bar>q * 2 ^ k\<bar> < 2 ^ (k + 24)" by (simp add: abs_mult power_add)
  then have "bits \<bar>q * 2 ^ k\<bar> - 24 \<le> k" using bits_le [of "\<bar>q * 2 ^ k\<bar>" "k + 24"] by simp
  then have "(2 :: int) ^ (bits \<bar>q * 2 ^ k\<bar> - 24) dvd 2 ^ k" by (rule le_imp_power_dvd)
  then show ?thesis using assms(2) by (simp add: dvd_mult)
qed

lemma round_even_bound:
  assumes "\<bar>n\<bar> < 2 ^ (k + 24)"
  shows "\<bar>round_even k n\<bar> \<le> 2 ^ 24"
proof -
  let ?q = "n div 2 ^ k"
  have p: "(0 :: int) < 2 ^ k" by simp
  have n: "n < 2 ^ 24 * 2 ^ k" "- (2 ^ 24) * 2 ^ k \<le> n" using assms by (simp_all add: power_add abs_less_iff)
  have "?q < 2 ^ 24"
  proof (rule ccontr)
    assume "\<not> ?q < 2 ^ 24"
    then have "2 ^ 24 * 2 ^ k \<le> ?q * 2 ^ k" by (intro mult_right_mono) simp_all
    also have "\<dots> = n - n mod 2 ^ k" by (simp add: minus_mod_eq_div_mult)
    also have "\<dots> \<le> n" by simp
    finally show False using n(1) by simp
  qed
  moreover have "- (2 ^ 24) \<le> ?q"
  proof -
    have "- (2 ^ 24) * 2 ^ k div 2 ^ k = (- (2 ^ 24) :: int)" by (rule nonzero_mult_div_cancel_right) simp
    then show ?thesis using zdiv_mono1 [OF n(2) p] by (simp only:)
  qed
  ultimately show ?thesis by (auto simp: round_even_def Let_def)
qed

lemma round32_float32: "float32 (round32 n)"
proof (cases "bits \<bar>n\<bar> - 24")
  case 0
  then have "bits \<bar>n\<bar> \<le> 24" by simp
  have "\<bar>n\<bar> < 2 ^ 24"
  proof (cases "n = 0")
    case False
    then have "\<bar>n\<bar> < 2 ^ bits \<bar>n\<bar>" using bits_bounds [of "\<bar>n\<bar>"] by simp
    also have "(2 :: int) ^ bits \<bar>n\<bar> \<le> 2 ^ 24" using \<open>bits \<bar>n\<bar> \<le> 24\<close> by (rule power_increasing) simp
    finally show ?thesis .
  qed simp
  then have "\<bar>n\<bar> < 2 ^ 277" by simp
  moreover have "round32 n = Fin n" using 0 by (simp only: round32_def Let_def simp_thms if_True)
  ultimately show ?thesis using 0 by (simp only: float32.simps power_0 one_dvd simp_thms)
next
  case (Suc j)
  let ?k = "bits \<bar>n\<bar> - 24"
  have "bits 0 = 0" by (simp add: bits.simps)
  then have "n \<noteq> 0" using Suc by (cases "n = 0") simp_all
  then have "\<bar>n\<bar> < 2 ^ bits \<bar>n\<bar>" using bits_bounds [of "\<bar>n\<bar>"] by simp
  moreover have "bits \<bar>n\<bar> = ?k + 24" using Suc by simp
  ultimately have "\<bar>n\<bar> < 2 ^ (?k + 24)" by (simp only:)
  then have "\<bar>round_even ?k n\<bar> \<le> 2 ^ 24" by (rule round_even_bound)
  note small = float32I [OF this, of ?k]
  let ?m = "round_even ?k n * 2 ^ ?k"
  have "?k \<noteq> 0" using Suc by simp
  then have r: "round32 n = (if ?m \<ge> 2 ^ 277 then PInf else if ?m \<le> - (2 ^ 277) then NInf else Fin ?m)"
    by (simp only: round32_def Let_def if_False)
  consider "?m \<ge> 2 ^ 277" | "?m \<le> - (2 ^ 277)" "\<not> ?m \<ge> 2 ^ 277" | "\<bar>?m\<bar> < 2 ^ 277" "\<not> ?m \<le> - (2 ^ 277)" "\<not> ?m \<ge> 2 ^ 277"
    by linarith
  then show ?thesis
  proof cases
    case 1
    then show ?thesis by (simp only: r if_True float32.simps)
  next
    case 2
    then show ?thesis by (simp only: r if_True if_False float32.simps)
  next
    case 3
    then show ?thesis using small [OF 3(1)] by (simp only: r if_False)
  qed
qed

lemma round32_fixed: "float32 (Fin n) \<Longrightarrow> round32 n = Fin n"
  by (auto simp: round32_def Let_def round_even_exact abs_less_iff)


lemma float32_uminus [simp]: "float32 (- x) = float32 x"
  by (cases x) simp_all

lemma float32_plus [simp]: "float32 x \<Longrightarrow> float32 y \<Longrightarrow> float32 (x + y)"
  by (cases x; cases y) (simp_all add: round32_float32 del: float32.simps(1))

lemma float32_minus [simp]: "float32 x \<Longrightarrow> float32 y \<Longrightarrow> float32 (x - y)"
  by (simp add: minus_f32_def)

lemma float32_zero [simp]: "float32 0"
  by (simp add: zero_f32_def)

subsection \<open>Typed states\<close>

definition bank_typed :: "BankServer \<Rightarrow> bool" where
  "bank_typed b \<longleftrightarrow>
     (\<forall>c x. map_of (bank_balances b) c = Some x \<longrightarrow> float32 x)
     \<and> (\<forall>i tx. map_of (bank_transactions b) i = Some tx \<longrightarrow> float32 (bt_Amount tx))"

definition books_typed :: "BalanceStorage \<Rightarrow> bool" where
  "books_typed s \<longleftrightarrow> (\<forall>c a. map_of (bs_accountBalances s) c = Some a \<longrightarrow> float32 (ab_Balance a))"

fun pc_typed :: "pc \<Rightarrow> bool" where
  "pc_typed (WriteSender b) = float32 (bal_Amount b)"
| "pc_typed (WriteReceiver b) = float32 (bal_Amount b)"
| "pc_typed _ = True"

definition payment_typed :: "payment \<Rightarrow> bool" where
  "payment_typed p \<longleftrightarrow> float32 (pd_Amount (pm_req p)) \<and> float32 (tx_Amount (pm_tx p)) \<and> pc_typed (pm_pc p)"

definition call_typed :: "remote_call \<Rightarrow> bool" where
  "call_typed c \<longleftrightarrow> float32 (tp_Amount (rc_request c))"

definition sys_typed :: "sys \<Rightarrow> bool" where
  "sys_typed s \<longleftrightarrow>
     (\<forall>a b. map_of (gw_servers (sys_gw s)) a = Some b \<longrightarrow> bank_typed b)
     \<and> books_typed (gw_balances (sys_gw s)) \<and> list_all payment_typed (sys_payments s)
     \<and> list_all call_typed (sys_flight s)"

subsection \<open>Banks and balances\<close>

lemma bank_typed_balance: "bank_typed b \<Longrightarrow> float32 (gget 0 (bank_balances b) c)"
  by (auto simp: bank_typed_def gget_def split: option.split)

lemma bank_typed_set_state:
  "bank_typed b \<Longrightarrow> map_of (bank_transactions b) i = Some tx \<Longrightarrow> bank_typed (set_state j tx st b)"
  by (auto simp: bank_typed_def set_state_def)

lemma bank_typed_change:
  "bank_typed b \<Longrightarrow> float32 (f (gget 0 (bank_balances b) c)) \<Longrightarrow> bank_typed (change_balance c f b)"
  by (auto simp: bank_typed_def change_balance_def)

lemma bank_typed_prepared: "bank_typed b \<Longrightarrow> float32 (tp_Amount req) \<Longrightarrow> bank_typed (store_prepared b req)"
  by (auto simp: bank_typed_def store_prepared_def)

lemma method_typed:
  assumes b: "bank_typed b" and x: "float32 (tp_Amount req)" and run: "method_of m b req = Some (b', r)"
  shows "bank_typed b'"
proof (cases m)
  case DoPrepareDebit
  then show ?thesis using b x run by (auto simp: PrepareDebit_def bank_typed_prepared split: if_splits)
next
  case DoPrepareCredit
  then show ?thesis using b x run by (auto simp: PrepareCredit_def bank_typed_prepared split: if_splits)
next
  case DoCommitDebit
  have "bank_typed (change_balance c (\<lambda>y. y - tp_Amount req) b)" for c
    using b x by (intro bank_typed_change) (simp_all add: bank_typed_balance)
  then show ?thesis using DoCommitDebit b run
    by (auto simp: CommitDebit_def change_balance_def intro!: bank_typed_set_state split: option.splits if_splits)
next
  case DoCommitCredit
  have "bank_typed (change_balance c (\<lambda>y. y + tp_Amount req) b)" for c
    using b x by (intro bank_typed_change) (simp_all add: bank_typed_balance)
  then show ?thesis using DoCommitCredit b run
    by (auto simp: CommitCredit_def change_balance_def intro!: bank_typed_set_state split: option.splits if_splits)
next
  case DoAbort
  then show ?thesis using b run by (auto simp: BankAbort_def bank_typed_set_state split: option.splits)
qed

lemma run_remote_typed:
  assumes s: "sys_typed s" and c: "call_typed c"
  shows "sys_typed (fst (run_remote down c s))"
proof (cases "map_of (gw_servers (sys_gw s)) (rc_address c)")
  case None
  then show ?thesis using s by (simp add: run_remote_def executes_def execute_call_def)
next
  case (Some b)
  show ?thesis
  proof (cases "method_of (rc_method c) b (rc_request c)")
    case None
    then show ?thesis using s Some by (simp add: run_remote_def executes_def execute_call_def sys_typed_def)
  next
    case (Some br)
    obtain b' r where br: "br = (b', r)" by (cases br)
    have "bank_typed b'"
      using method_typed [of b "rc_request c" "rc_method c" b' r] s c Some br
        \<open>map_of (gw_servers (sys_gw s)) (rc_address c) = Some b\<close>
      by (auto simp: sys_typed_def call_typed_def)
    then show ?thesis using s Some br \<open>map_of (gw_servers (sys_gw s)) (rc_address c) = Some b\<close>
      by (simp add: run_remote_def executes_def execute_call_def sys_typed_def)
  qed
qed


lemma remote_typed:
  assumes "sys_typed s" and "call_typed c"
  shows "sys_typed (fst (remote down fate c s))"
  using assms run_remote_typed [OF assms, of down]
  by (cases fate) (auto simp: remote_def sys_typed_def split: prod.split)

lemma books_typed_read: "books_typed s \<Longrightarrow> StorageGetBalance s c = Some b \<Longrightarrow> float32 (bal_Amount b)"
  by (auto simp: books_typed_def StorageGetBalance_def split: option.splits)

lemma books_typed_update: "books_typed s \<Longrightarrow> UpdateBalance s c b = Inr s' \<Longrightarrow> float32 (bal_Amount b) \<Longrightarrow> books_typed s'"
  by (auto simp: books_typed_def UpdateBalance_def split: option.splits if_splits)

lemma books_typed_save: "books_typed s \<Longrightarrow> books_typed (fst (SaveBalances order err s))"
  by (auto simp: books_typed_def SaveBalances_def split: option.split)

subsection \<open>Steps\<close>

lemma sys_typed_set: "sys_typed s \<Longrightarrow> payment_typed p \<Longrightarrow> sys_typed (set_payment k p s)"
  by (auto simp: sys_typed_def set_payment_def list_all_iff dest!: subsetD [OF set_update_subset_insert])

lemma sys_typed_gw:
  "sys_typed s \<Longrightarrow> gw_servers w = gw_servers (sys_gw s) \<Longrightarrow> books_typed (gw_balances w) \<Longrightarrow> sys_typed (s\<lparr>sys_gw := w\<rparr>)"
  by (simp add: sys_typed_def)

lemma sys_typed_records:
  "sys_typed s \<Longrightarrow> sys_typed (put_record i k s)" "sys_typed s \<Longrightarrow> sys_typed (drop_record i s)"
  by (simp_all add: sys_typed_def put_record_def drop_record_def)

lemma set_balance_typed:
  assumes s: "sys_typed s" and p: "payment_typed p" and b: "float32 (bal_Amount b)" and "pc_typed next"
  shows "sys_typed (set_balance k p client b next s)"
proof (cases "UpdateBalance (gw_balances (sys_gw s)) client b")
  case (Inl e)
  then show ?thesis using s p by (simp add: set_balance_def sys_typed_set payment_typed_def paid_def)
next
  case (Inr bs)
  then have "books_typed bs" using s b by (auto simp: sys_typed_def intro: books_typed_update)
  then have "sys_typed (s\<lparr>sys_gw := (sys_gw s)\<lparr>gw_balances := bs\<rparr>\<rparr>)" using s by (intro sys_typed_gw) simp_all
  then show ?thesis using Inr p assms(4) by (simp add: set_balance_def sys_typed_set payment_typed_def)
qed

lemma decide_typed: "payment_typed p \<Longrightarrow> payment_typed (decide ph n m rs rr p)"
  by (auto simp: payment_typed_def decide_def aborting_def split: option.split)

lemma pay_go_typed:
  assumes s: "sys_typed s" and p: "payment_typed p" and go: "pay_go now k p s = Some s'"
  shows "sys_typed s'"
proof -
  note set = sys_typed_set [OF s]
  have books: "books_typed (gw_balances (sys_gw s))" using s by (simp add: sys_typed_def)
  note p_simps = payment_typed_def pay_go_def Let_def paid_def
  show ?thesis
  proof (cases "pm_pc p")
    case (WriteSender b)
    then have "float32 (bal_Amount b - tx_Amount (pm_tx p))" using p by (simp add: payment_typed_def)
    then show ?thesis using go WriteSender s p by (auto simp: pay_go_def Let_def intro!: set_balance_typed)
  next
    case (WriteReceiver b)
    then have "float32 (bal_Amount b + tx_Amount (pm_tx p))" using p by (simp add: payment_typed_def)
    then show ?thesis using go WriteReceiver s p by (auto simp: pay_go_def Let_def intro!: set_balance_typed)
  next
    case ReadSender
    then show ?thesis using go p books_typed_read [OF books] by (auto simp: p_simps intro!: set split: option.split)
  next
    case ReadReceiver
    then show ?thesis using go p books_typed_read [OF books] by (auto simp: p_simps intro!: set split: option.split)
  next
    case (Calls ph a n b m)
    then show ?thesis using go p decide_typed by (auto simp: pay_go_def Let_def intro!: set split: option.splits)
  next
    case Enter
    then show ?thesis using go p by (auto simp: p_simps intro!: set sys_typed_records(1))
  next
    case (CleanUp msg)
    then show ?thesis using go p by (auto simp: p_simps intro!: set sys_typed_records(2))
  next
    case Begin
    then show ?thesis using go p by (auto simp: p_simps find_record_def intro!: set split: option.split)
  next
    case Guard
    then show ?thesis using go p by (auto simp: p_simps find_record_def intro!: set split: option.split)
  next
    case (Inspect j)
    then show ?thesis using go p by (auto simp: p_simps intro!: set split: option.split)
  next
    case Funds
    then show ?thesis using go p by (auto simp: p_simps intro!: set split: option.split)
  qed (use go p in \<open>auto simp: p_simps intro!: set\<close>)
qed

lemma pay_look_typed:
  assumes s: "sys_typed s" and p: "payment_typed p" and look: "pay_look e k p s = Some s'"
  shows "sys_typed s'"
proof -
  have set: "sys_typed (set_payment k p' (s\<lparr>sys_gw := w'\<rparr>))"
    if "find_bank e c (sys_gw s) = (w', r)" "payment_typed p'" for c w' r p'
  proof (rule sys_typed_set [OF sys_typed_gw [OF s] that(2)])
    show "gw_servers w' = gw_servers (sys_gw s)" "books_typed (gw_balances w')"
      using s that(1) by (auto simp: find_bank_def sys_typed_def split: prod.splits)
  qed
  note p_simps = pay_look_def payment_typed_def aborting_def
  show ?thesis
  proof (cases "pm_pc p")
    case (FindSender ph)
    then show ?thesis using look p by (auto simp: p_simps intro!: set split: prod.splits sum.splits)
  next
    case (FindReceiver ph a n)
    then show ?thesis using look p by (auto simp: p_simps intro!: set split: prod.splits sum.splits)
  next
    case (AbortFind role m)
    then show ?thesis using look p by (auto simp: p_simps intro!: set split: prod.splits sum.splits if_splits)
  qed (use look in \<open>simp_all add: pay_look_def\<close>)
qed


lemma phase_remote_typed: "payment_typed p \<Longrightarrow> call_typed (phase_remote ph role a (pm_tx p))"
  by (simp add: payment_typed_def call_typed_def phase_remote_def two_phase_request_def)

lemma pay_call_typed:
  assumes s: "sys_typed s" and p: "payment_typed p" and call: "pay_call role fate down k p s = Some s'"
  shows "sys_typed s'"
proof -
  have set: "sys_typed (set_payment k p' s1)"
    if "remote down fate c s = (s1, r)" "call_typed c" "payment_typed p'" for c s1 r p'
    using remote_typed [OF s that(2), of down fate] that(1,3) by (simp add: sys_typed_set)
  have abort: "call_typed \<lparr>rc_method = DoAbort, rc_request = abort_request i, rc_address = a\<rparr>" for i a
    by (simp add: call_typed_def abort_request_def)
  show ?thesis
  proof (cases "pm_pc p")
    case (Calls ph a n b m)
    have "payment_typed (p\<lparr>pm_sender_result := Some r, pm_tx := add_vote ph n v (pm_tx p)\<rparr>)"
      "payment_typed (p\<lparr>pm_receiver_result := Some r, pm_tx := add_vote ph m v (pm_tx p)\<rparr>)" for r v
      using p by (simp_all add: payment_typed_def add_vote_def)
    then show ?thesis using call Calls phase_remote_typed [OF p]
      by (auto simp: pay_call_def intro: set split: prod.splits if_splits)
  next
    case (AbortRemote role' a m)
    then have "payment_typed (p\<lparr>pm_pc := AbortFind ReceiverRole m\<rparr>)" "payment_typed (p\<lparr>pm_pc := AbortEnd m\<rparr>)"
      using p by (simp_all add: payment_typed_def)
    then show ?thesis using call AbortRemote abort by (auto simp: pay_call_def intro: set split: prod.splits if_splits)
  qed (use call in \<open>simp_all add: pay_call_def\<close>)
qed

lemma pay_timeout_typed:
  assumes s: "sys_typed s" and p: "payment_typed p" and timeout: "pay_timeout k p s = Some s'"
  shows "sys_typed s'"
proof (cases "pm_pc p")
  case (Calls ph a n b m)
  let ?late = "(if pm_sender_result p = None then [phase_remote ph SenderRole a (pm_tx p)] else [])
    @ (if pm_receiver_result p = None then [phase_remote ph ReceiverRole b (pm_tx p)] else [])"
  let ?p = "aborting (if ph = PreparePhase then ''Transaction timed out during prepare phase''
    else ''Transaction timed out during commit phase'') p"
  have s': "s' = set_payment k ?p (s\<lparr>sys_flight := ?late @ sys_flight s\<rparr>)"
    using timeout Calls by (simp add: pay_timeout_def)
  have "list_all call_typed ?late" using phase_remote_typed [OF p] by simp
  then have "sys_typed (s\<lparr>sys_flight := ?late @ sys_flight s\<rparr>)" using s by (simp add: sys_typed_def)
  moreover have "payment_typed ?p" using p by (simp add: payment_typed_def aborting_def)
  ultimately show ?thesis unfolding s' by (rule sys_typed_set)
qed (use timeout in \<open>simp_all add: pay_timeout_def\<close>)

lemma pay_save_typed:
  assumes s: "sys_typed s" and p: "payment_typed p" and save: "pay_save order err k p s = Some s'"
  shows "sys_typed s'"
proof (cases "pm_pc p")
  case (Saving n)
  obtain b r where b: "SaveBalances order err (gw_balances (sys_gw s)) = (b, r)" by fastforce
  have "books_typed b" using books_typed_save [of "gw_balances (sys_gw s)" order err] s b by (simp add: sys_typed_def)
  then have "sys_typed (s\<lparr>sys_gw := (sys_gw s)\<lparr>gw_balances := b\<rparr>\<rparr>)" using s by (intro sys_typed_gw) simp_all
  moreover have "payment_typed (if r = None \<or> n \<ge> 2 then paid p else p\<lparr>pm_pc := Saving (n + 1)\<rparr>)"
    using p by (simp add: payment_typed_def paid_def)
  moreover have "s' = set_payment k (if r = None \<or> n \<ge> 2 then paid p else p\<lparr>pm_pc := Saving (n + 1)\<rparr>)
      (s\<lparr>sys_gw := (sys_gw s)\<lparr>gw_balances := b\<rparr>\<rparr>)"
    using save b Saving by (simp add: pay_save_def)
  ultimately show ?thesis by (simp only: sys_typed_set)
qed (use save in \<open>simp_all add: pay_save_def\<close>)

lemma expire_typed: "sys_typed s \<Longrightarrow> sys_typed (expire now s)"
proof -
  assume s: "sys_typed s"
  have "payment_typed (sys_payments (expire now s) ! k)" if "k < length (sys_payments s)" for k
    using expire_nth [OF that, of now] s that
    by (auto simp: sys_typed_def payment_typed_def list_all_length)
  moreover have "length (sys_payments (expire now s)) = length (sys_payments s)" by (simp add: expire_def Let_def)
  ultimately have "list_all payment_typed (sys_payments (expire now s))" by (simp add: list_all_length)
  then show ?thesis using s by (simp add: sys_typed_def) (simp add: expire_def Let_def)
qed

lemma concurrent_step_typed:
  assumes s: "sys_typed s" and step: "concurrent_step e s = Some s'"
  shows "sys_typed s'"
proof -
  have own: "sys_typed s'"
    if "with_payment f k s = Some s'" "\<And>p. payment_typed p \<Longrightarrow> f k p s = Some s' \<Longrightarrow> sys_typed s'" for f k
    using that s by (auto simp: with_payment_def sys_typed_def list_all_length split: if_splits)
  show ?thesis
  proof (cases e)
    case (Arrive down n)
    then have n: "n < length (sys_flight s)"
      and s': "s' = fst (run_remote down (sys_flight s ! n) (s\<lparr>sys_flight := drop_nth n (sys_flight s)\<rparr>))"
      using step by (auto split: if_splits)
    have "sys_typed (s\<lparr>sys_flight := drop_nth n (sys_flight s)\<rparr>)"
      using s set_drop_nth [of n "sys_flight s"] by (auto simp: sys_typed_def list_all_iff)
    moreover have "call_typed (sys_flight s ! n)" using s n by (simp add: sys_typed_def list_all_length)
    ultimately show ?thesis unfolding s' by (rule run_remote_typed)
  next
    case (Go now k)
    then have "with_payment (pay_go now) k s = Some s'" using step by simp
    then show ?thesis by (rule own) (rule pay_go_typed [OF s])
  next
    case (Look env k)
    then have "with_payment (pay_look env) k s = Some s'" using step by simp
    then show ?thesis by (rule own) (rule pay_look_typed [OF s])
  next
    case (Return role fate down k)
    then have "with_payment (pay_call role fate down) k s = Some s'" using step by simp
    then show ?thesis by (rule own) (rule pay_call_typed [OF s])
  next
    case (Timeout k)
    then have "with_payment pay_timeout k s = Some s'" using step by simp
    then show ?thesis by (rule own) (rule pay_timeout_typed [OF s])
  next
    case (Save order err k)
    then have "with_payment (pay_save order err) k s = Some s'" using step by simp
    then show ?thesis by (rule own) (rule pay_save_typed [OF s])
  next
    case (Expire now)
    then show ?thesis using step expire_typed [OF s] by auto
  qed
qed

text \<open>Money stays a float32: when the amounts of the requests, the balances at the banks and the balances of the
  gateway are values of float32, so is, in every interleaving, every balance and every amount that the gateway,
  the banks, the running payments and the calls in flight hold: what the model computes with is what a
  variable of the program can hold, NaN and the infinities included.\<close>

lemma amounts_stay_float32:
  assumes "sys_typed (arrivals w reqs)" and "run_events es (arrivals w reqs) = Some s"
  shows "sys_typed s"
proof -
  have "run_events es s0 = Some s \<Longrightarrow> sys_typed s0 \<Longrightarrow> sys_typed s" for s0
    by (induction es arbitrary: s0) (auto split: option.splits dest: concurrent_step_typed)
  then show ?thesis using assms by blast
qed


lemma sys_typedI:
  assumes "list_all (\<lambda>(a, b). list_all (\<lambda>(c, x). float32 x) (bank_balances b)
      \<and> list_all (\<lambda>(i, tx). float32 (bt_Amount tx)) (bank_transactions b)) (gw_servers w)"
    and "list_all (\<lambda>(c, a). float32 (ab_Balance a)) (bs_accountBalances (gw_balances w))"
    and "list_all (\<lambda>(i, req). float32 (pd_Amount req)) reqs"
  shows "sys_typed (arrivals w reqs)"
proof -
  have "bank_typed b" if "map_of (gw_servers w) a = Some b" for a b
    using assms(1) map_of_SomeD [OF that] by (auto simp: bank_typed_def list_all_iff dest!: map_of_SomeD)
  moreover have "books_typed (gw_balances w)"
    using assms(2) by (auto simp: books_typed_def list_all_iff dest!: map_of_SomeD)
  moreover have "list_all payment_typed (map (\<lambda>(i, req). new_payment i req) reqs)"
    using assms(3) by (auto simp: list_all_iff payment_typed_def new_payment_def)
  ultimately show ?thesis by (auto simp: sys_typed_def arrivals_def)
qed

lemma two_payments_stay_float32:
  "\<exists>s. run_events in_turns (arrivals the_system two_requests) = Some s \<and> sys_typed s"
proof -
  have "sys_typed (arrivals the_system two_requests)"
    by (rule sys_typedI) code_simp+
  moreover obtain s where "run_events in_turns (arrivals the_system (pl_requests two_plan)) = Some s"
    by (rule in_turns_runs)
  then have "run_events in_turns (arrivals the_system two_requests) = Some s" by (simp add: two_plan_def)
  ultimately show ?thesis using amounts_stay_float32 by blast
qed

end
