(* ===== verification/Strife_Client_Calls.thy ===== *)
theory Strife_Client_Calls
  imports Strife_Auth
begin

text \<open>
  The client's side of a remote call (P3-Strife/client/interceptors, client/payment/transaction.go and
  request_counter.go): the transaction id a payment travels under, the retries, and the counters behind
  the request ids. \<open>fresh n\<close> is the \<open>n\<close>-th result of uuid.New; what the connection does with
  a call is an \<open>invoker\<close>.
\<close>

subsection \<open>Transaction ids (interceptors/transaction.go)\<close>

record TransactionMetadata =
  tmd_ClientName :: string
  tmd_ReceiverName :: string
  tmd_Amount :: string
  tmd_RequestId :: string

text \<open>The process-wide cache, and how many ids have been drawn.\<close>

record tx_cache =
  tc_cache :: "(string, string) gomap"
  tc_drawn :: nat

definition cacheKey :: "TransactionMetadata \<Rightarrow> string" where
  "cacheKey m =
     tmd_ClientName m @ '':'' @ tmd_ReceiverName m @ '':'' @ tmd_Amount m @ '':'' @ tmd_RequestId m"

definition getOrCreateTransactionID ::
  "(nat \<Rightarrow> string) \<Rightarrow> string \<Rightarrow> tx_cache \<Rightarrow> tx_cache \<times> string" where
  "getOrCreateTransactionID fresh key t =
     (case map_of (tc_cache t) key of
        Some i \<Rightarrow> (t, i)
      | None \<Rightarrow>
          let i = fresh (tc_drawn t)
          in (t\<lparr>tc_cache := gput key i (tc_cache t), tc_drawn := tc_drawn t + 1\<rparr>, i))"

definition addTransactionIDToContext :: "ctx \<Rightarrow> string \<Rightarrow> ctx" where
  "addTransactionIDToContext c i =
     (let md = (case ctx_metadata c of None \<Rightarrow> [] | Some md \<Rightarrow> md)
      in c\<lparr>ctx_metadata := Some (gput ''transaction_id'' [i] md)\<rparr>)"

definition ensureTransactionID ::
  "(nat \<Rightarrow> string) \<Rightarrow> TransactionMetadata \<Rightarrow> ctx \<Rightarrow> tx_cache \<Rightarrow> tx_cache \<times> ctx" where
  "ensureTransactionID fresh m c t =
     (case getOrCreateTransactionID fresh (cacheKey m) t of
        (t', i) \<Rightarrow> (t', addTransactionIDToContext c i))"

definition ClearTransactionCache :: "tx_cache \<Rightarrow> tx_cache" where
  "ClearTransactionCache t = t\<lparr>tc_cache := []\<rparr>"

subsection \<open>Requests and replies\<close>

record ClientDetails =
  cd_Name :: string
  cd_BankName :: string
  cd_AccountNumber :: string

datatype client_request = PaymentReq PaymentDetails | BalanceReq BalanceRequest | AuthReq AuthRequest
  | DetailsReq ClientDetails | OtherReq

datatype client_reply = PaymentReply PaymentResponse | RegistrationReply bool string
  | AuthReply AuthResponse | BalanceReply BalanceResponse | OtherReply

subsection \<open>Retries (interceptors/retry.go)\<close>

text \<open>Client name, whether it is a payment, amount, receiver, request id.\<close>

fun extractRetryInfo :: "client_request \<Rightarrow> string \<times> bool \<times> string \<times> string \<times> string" where
  "extractRetryInfo (PaymentReq v) =
     (pd_ClientName v, True, fmt2f (pd_Amount v), pd_ReceiverName v, pd_RequestId v)"
| "extractRetryInfo (BalanceReq v) = (bq_ClientName v, False, '''', '''', '''')"
| "extractRetryInfo (AuthReq v) = (aq_Username v, False, '''', '''', '''')"
| "extractRetryInfo (DetailsReq v) = (cd_Name v, False, '''', '''', '''')"
| "extractRetryInfo OtherReq = (''unknown'', False, '''', '''', '''')"

definition isRetryableError :: "code \<Rightarrow> bool" where
  "isRetryableError c \<longleftrightarrow> c = Unavailable \<or> c = DeadlineExceeded \<or> c = ResourceExhausted"

text \<open>What an invocation does: over a state of the world, a reply or an error.\<close>

type_synonym 'g invoker = "ctx \<Rightarrow> client_request \<Rightarrow> 'g \<Rightarrow> 'g \<times> client_reply rpc"

text \<open>\<open>attempt\<close> is the number of the attempt that is made now; the third is the last.\<close>

function client_retry :: "nat \<Rightarrow> 'g invoker \<Rightarrow> 'g invoker" where
  "client_retry attempt invoke c req g =
     (case invoke c req g of
        (g', Inr reply) \<Rightarrow> (g', Inr reply)
      | (g', Inl e) \<Rightarrow>
          if \<not> isRetryableError (err_code e) \<or> attempt \<ge> 3 then (g', Inl e)
          else client_retry (attempt + 1) invoke c req g')"
  by pat_completeness auto

termination client_retry
  by (relation "measure (\<lambda>(attempt, _). 3 - attempt)") auto

declare client_retry.simps [simp del]

definition retry_metadata :: "client_request \<Rightarrow> TransactionMetadata" where
  "retry_metadata req =
     (case extractRetryInfo req of
        (clientName, isPayment, amount, receiverName, requestId) \<Rightarrow>
          \<lparr>tmd_ClientName = clientName, tmd_ReceiverName = receiverName, tmd_Amount = amount,
           tmd_RequestId = requestId\<rparr>)"

text \<open>The interceptor passes the context with the transaction id on; the caller's own context stays as it was.\<close>

definition ClientRetryInterceptor ::
  "(nat \<Rightarrow> string) \<Rightarrow> string \<Rightarrow> 'g invoker \<Rightarrow> ctx \<Rightarrow> client_request \<Rightarrow> tx_cache \<times> 'g
     \<Rightarrow> (tx_cache \<times> 'g) \<times> client_reply rpc" where
  "ClientRetryInterceptor fresh method invoke c req tg =
     (case tg of (t, g) \<Rightarrow>
       (case extractRetryInfo req of
          (clientName, isPayment, amount, receiverName, requestId) \<Rightarrow>
            (case (if isPayment \<and> method = ''/proto.PaymentGateway/MakePayment''
                   then ensureTransactionID fresh (retry_metadata req) c t else (t, c)) of
               (t', c') \<Rightarrow>
                 (case client_retry 1 invoke c' req g of (g', r) \<Rightarrow> ((t', g'), r)))))"

subsection \<open>Logging (interceptors/logging.go)\<close>

definition client_extractTransactionID :: "ctx \<Rightarrow> string" where
  "client_extractTransactionID c =
     (case ctx_metadata c of
        None \<Rightarrow> ''''
      | Some md \<Rightarrow> (case md_first md ''transaction_id'' of None \<Rightarrow> '''' | Some i \<Rightarrow> i))"

text \<open>Client name, amount, transaction id.\<close>

definition extractRequestInfo :: "ctx \<Rightarrow> client_request \<Rightarrow> string \<times> string \<times> string" where
  "extractRequestInfo c req =
     (let i = client_extractTransactionID c
      in case req of
           PaymentReq v \<Rightarrow> (pd_ClientName v, fmt2f (pd_Amount v), i)
         | BalanceReq v \<Rightarrow> (bq_ClientName v, ''N/A (Balance Check)'', i)
         | AuthReq v \<Rightarrow> (aq_Username v, ''N/A (Authentication)'', i)
         | DetailsReq v \<Rightarrow> (cd_Name v, ''N/A (Registration)'', i)
         | OtherReq \<Rightarrow> (''unknown'', ''unknown'', i))"

fun determineResponseStatus :: "client_reply \<Rightarrow> string" where
  "determineResponseStatus (PaymentReply v) =
     (if resp_Success v then ''SUCCESS'' else ''FAILED: '' @ resp_Message v)"
| "determineResponseStatus (RegistrationReply s m) = (if s then ''SUCCESS'' else ''FAILED: '' @ m)"
| "determineResponseStatus (AuthReply v) =
     (if ar_Success v then ''SUCCESS'' else ''FAILED: '' @ ar_Message v)"
| "determineResponseStatus (BalanceReply v) =
     ''Balance: '' @ fmt2f (br_Balance v) @ '' '' @ br_Currency v"
| "determineResponseStatus OtherReply = ''COMPLETED''"

text \<open>The logging interceptor writes log lines and passes everything through; the chain is logging around retries.\<close>

definition client_chain ::
  "(nat \<Rightarrow> string) \<Rightarrow> string \<Rightarrow> 'g invoker \<Rightarrow> ctx \<Rightarrow> client_request \<Rightarrow> tx_cache \<times> 'g
     \<Rightarrow> (tx_cache \<times> 'g) \<times> client_reply rpc" where
  "client_chain fresh method invoke c req tg = ClientRetryInterceptor fresh method invoke c req tg"

subsection \<open>The unused transaction manager (payment/transaction.go)\<close>

text \<open>A second cache of the same shape, which no handler consults.\<close>

definition GetOrCreateTransactionID ::
  "(nat \<Rightarrow> string) \<Rightarrow> string \<Rightarrow> tx_cache \<Rightarrow> tx_cache \<times> string" where
  "GetOrCreateTransactionID fresh key t =
     (case map_of (tc_cache t) key of
        Some i \<Rightarrow> (t, i)
      | None \<Rightarrow>
          let i = fresh (tc_drawn t)
          in (t\<lparr>tc_cache := gput key i (tc_cache t), tc_drawn := tc_drawn t + 1\<rparr>, i))"

definition RemoveTransactionID :: "string \<Rightarrow> tx_cache \<Rightarrow> tx_cache" where
  "RemoveTransactionID key t = t\<lparr>tc_cache := gdel key (tc_cache t)\<rparr>"

subsection \<open>Request ids (payment/request_counter.go)\<close>

record RequestCounter =
  rc_counters :: "(string, int) gomap"
  rc_file :: "(string, int) gomap json_file"

text \<open>Entries of the file are added to an empty map; a file that cannot be read or decoded leaves it empty.\<close>

definition loadCounters :: "RequestCounter \<Rightarrow> RequestCounter" where
  "loadCounters rc =
     (case rc_file rc of
        ReadError _ \<Rightarrow> rc
      | DecodeError _ \<Rightarrow> rc
      | Decoded m \<Rightarrow> rc\<lparr>rc_counters := foldl (\<lambda>c (k, v). gput k v c) (rc_counters rc) m\<rparr>)"

definition NewRequestCounter :: "(string, int) gomap json_file \<Rightarrow> RequestCounter" where
  "NewRequestCounter file = loadCounters \<lparr>rc_counters = [], rc_file = file\<rparr>"

definition GetNextRequestID :: "RequestCounter \<Rightarrow> string \<Rightarrow> string" where
  "GetNextRequestID rc clientName =
     clientName @ ''_req_'' @ itoa (gget 0 (rc_counters rc) clientName)"

text \<open>\<open>written\<close>: whether the file could be written.\<close>

definition saveCounters :: "bool \<Rightarrow> RequestCounter \<Rightarrow> RequestCounter" where
  "saveCounters written rc = (if written then rc\<lparr>rc_file := Decoded (rc_counters rc)\<rparr> else rc)"

definition IncrementCounter :: "bool \<Rightarrow> string \<Rightarrow> RequestCounter \<Rightarrow> RequestCounter" where
  "IncrementCounter written clientName rc =
     saveCounters written
       (rc\<lparr>rc_counters := gput clientName (i64 (gget 0 (rc_counters rc) clientName + 1)) (rc_counters rc)\<rparr>)"

end
