(* ===== verification/Go_Text.thy ===== *)
theory Go_Text
  imports Float32
begin

text \<open>
  The text functions of Go's standard library that the sources call: UTF-8 decoding, the packages
  strings, strconv and bufio, as far as they are used. A string is a list of bytes.
\<close>

named_theorems text_simps "evaluation of the text functions"

subsection \<open>UTF-8\<close>

definition byte :: "char \<Rightarrow> int" where
  "byte c = of_char c"

definition is_cont :: "int \<Rightarrow> int \<Rightarrow> int \<Rightarrow> bool" where
  "is_cont lo hi b \<longleftrightarrow> lo \<le> b \<and> b \<le> hi"

text \<open>The first rune and its width; an invalid byte is U+FFFD of width one.\<close>

fun decode_rune :: "int list \<Rightarrow> int \<times> nat" where
  "decode_rune [] = (0xFFFD, 0)"
| "decode_rune (a # bs) =
     (if a < 0x80 then (a, 1)
      else case bs of
        [] \<Rightarrow> (0xFFFD, 1)
      | b # bs' \<Rightarrow>
          if 0xC2 \<le> a \<and> a \<le> 0xDF \<and> is_cont 0x80 0xBF b
          then ((a - 0xC0) * 64 + (b - 0x80), 2)
          else if 0xE0 \<le> a \<and> a \<le> 0xEF
             \<and> is_cont (if a = 0xE0 then 0xA0 else 0x80) (if a = 0xED then 0x9F else 0xBF) b
          then (case bs' of
                  [] \<Rightarrow> (0xFFFD, 1)
                | c # _ \<Rightarrow>
                    if is_cont 0x80 0xBF c
                    then ((a - 0xE0) * 4096 + (b - 0x80) * 64 + (c - 0x80), 3)
                    else (0xFFFD, 1))
          else if 0xF0 \<le> a \<and> a \<le> 0xF4
             \<and> is_cont (if a = 0xF0 then 0x90 else 0x80) (if a = 0xF4 then 0x8F else 0xBF) b
          then (case bs' of
                  c # d # _ \<Rightarrow>
                    if is_cont 0x80 0xBF c \<and> is_cont 0x80 0xBF d
                    then ((a - 0xF0) * 262144 + (b - 0x80) * 4096 + (c - 0x80) * 64 + (d - 0x80), 4)
                    else (0xFFFD, 1)
                | _ \<Rightarrow> (0xFFFD, 1))
          else (0xFFFD, 1))"

text \<open>The runes of a string, each with the bytes it was read from; \<open>skip\<close> bytes belong to the last rune.\<close>

fun runes_from :: "nat \<Rightarrow> string \<Rightarrow> (int \<times> string) list" where
  "runes_from _ [] = []"
| "runes_from (Suc k) (c # cs) = runes_from k cs"
| "runes_from 0 (c # cs) =
     (case decode_rune (map byte (take 4 (c # cs))) of
        (r, n) \<Rightarrow> (r, take n (c # cs)) # runes_from (n - 1) cs)"

definition runes :: "string \<Rightarrow> (int \<times> string) list" where
  "runes s = runes_from 0 s"

text \<open>ASCII strings are their own runes.\<close>

definition ascii :: "string \<Rightarrow> bool" where
  "ascii s \<longleftrightarrow> list_all (\<lambda>c. byte c < 128) s"

lemma runes_from_ascii: "ascii s \<Longrightarrow> runes_from 0 s = map (\<lambda>c. (byte c, [c])) s"
  by (induction s) (simp_all add: ascii_def)

lemma runes_ascii [text_simps]: "ascii s \<Longrightarrow> runes s = map (\<lambda>c. (byte c, [c])) s"
  by (simp add: runes_def runes_from_ascii)

subsection \<open>Package strings\<close>

text \<open>unicode.IsSpace.\<close>

definition is_space :: "int \<Rightarrow> bool" where
  "is_space r \<longleftrightarrow>
     r \<in> set [9, 10, 11, 12, 13, 32, 0x85, 0xA0, 0x1680, 0x2028, 0x2029, 0x202F, 0x205F, 0x3000]
     \<or> (0x2000 \<le> r \<and> r \<le> 0x200A)"

fun split_fields :: "(int \<times> string) list \<Rightarrow> string \<Rightarrow> string list" where
  "split_fields [] w = (if w = [] then [] else [w])"
| "split_fields ((r, b) # rs) w =
     (if is_space r then (if w = [] then [] else [w]) @ split_fields rs []
      else split_fields rs (w @ b))"

definition Fields :: "string \<Rightarrow> string list" where
  "Fields s = split_fields (runes s) []"

definition TrimSpace :: "string \<Rightarrow> string" where
  "TrimSpace s =
     (let blank = (\<lambda>(r, b). is_space r)
      in concat (map snd (rev (dropWhile blank (rev (dropWhile blank (runes s)))))))"

text \<open>Split at a separator of one byte.\<close>

fun split_at :: "char \<Rightarrow> string \<Rightarrow> string list" where
  "split_at _ [] = [[]]"
| "split_at sep (c # cs) =
     (if c = sep then [] # split_at sep cs
      else case split_at sep cs of [] \<Rightarrow> [[c]] | p # ps \<Rightarrow> (c # p) # ps)"

fun join_with :: "char \<Rightarrow> string list \<Rightarrow> string" where
  "join_with _ [] = []"
| "join_with _ [x] = x"
| "join_with sep (x # y # zs) = x @ sep # join_with sep (y # zs)"

fun has_prefix :: "string \<Rightarrow> string \<Rightarrow> bool" where
  "has_prefix [] _ = True"
| "has_prefix (_ # _) [] = False"
| "has_prefix (p # ps) (c # cs) = (p = c \<and> has_prefix ps cs)"

fun contains :: "string \<Rightarrow> string \<Rightarrow> bool" where
  "contains sub [] = (sub = [])"
| "contains sub (c # cs) = (has_prefix sub (c # cs) \<or> contains sub cs)"

lemma has_prefix_append: "has_prefix p s \<longleftrightarrow> (\<exists>t. s = p @ t)"
  by (induction p s rule: has_prefix.induct) auto

lemma contains_append: "contains sub s \<longleftrightarrow> (\<exists>a b. s = a @ sub @ b)"
proof (induction s)
  case Nil
  then show ?case by auto
next
  case (Cons c s)
  show ?case
  proof
    assume "contains sub (c # s)"
    then consider b where "c # s = sub @ b" | a b where "s = a @ sub @ b"
      using Cons.IH by (auto simp: has_prefix_append)
    then show "\<exists>a b. c # s = a @ sub @ b"
    proof cases
      case 1
      then show ?thesis by (intro exI [of _ "[]"] exI [of _ b]) simp
    next
      case 2
      then show ?thesis by (intro exI [of _ "c # a"] exI [of _ b]) simp
    qed
  next
    assume "\<exists>a b. c # s = a @ sub @ b"
    then obtain a b where "c # s = a @ sub @ b" by blast
    show "contains sub (c # s)"
    proof (cases a)
      case Nil
      then have "has_prefix sub (c # s)"
        using \<open>c # s = a @ sub @ b\<close> by (auto simp: has_prefix_append)
      then show ?thesis by simp
    next
      case x: (Cons x a')
      then have "s = a' @ sub @ b" using \<open>c # s = a @ sub @ b\<close> by simp
      then show ?thesis using Cons.IH by auto
    qed
  qed
qed

lemma split_at_nonempty [simp]: "split_at sep s \<noteq> []"
  by (cases s) (auto split: list.split)

lemma split_at_absent: "sep \<notin> set s \<Longrightarrow> split_at sep s = [s]"
  by (induction s) auto

lemma split_at_append: "sep \<notin> set a \<Longrightarrow> split_at sep (a @ sep # b) = a # split_at sep b"
  by (induction a) auto

lemma join_split: "join_with sep (split_at sep s) = s"
proof (induction s)
  case Nil
  then show ?case by simp
next
  case (Cons c s)
  then show ?case
    by (cases "split_at sep s"; cases "tl (split_at sep s)") auto
qed

subsection \<open>Package bufio\<close>

text \<open>
  The lines that a Scanner delivers: without the newline and one carriage return before it. A line of
  64 KiB or more ends the scan.
\<close>

definition drop_cr :: "string \<Rightarrow> string" where
  "drop_cr s = (if s \<noteq> [] \<and> last s = CHR 0x0D then butlast s else s)"

definition raw_lines :: "string \<Rightarrow> string list" where
  "raw_lines s =
     (let ls = split_at (CHR 0x0A) s in if last ls = [] then butlast ls else ls)"

definition scan_lines :: "string \<Rightarrow> string list" where
  "scan_lines s = map drop_cr (takeWhile (\<lambda>l. length l < 65536) (raw_lines s))"

subsection \<open>Package strconv\<close>

text \<open>Errors of strconv: the text does not have the form of a number, or the number is too large.\<close>

datatype num_error = SyntaxError | RangeError

definition is_digit :: "char \<Rightarrow> bool" where
  "is_digit c \<longleftrightarrow> 48 \<le> byte c \<and> byte c \<le> 57"

definition lower :: "char \<Rightarrow> int" where
  "lower c = (if 65 \<le> byte c \<and> byte c \<le> 90 then byte c + 32 else byte c)"

definition digit_value :: "char \<Rightarrow> int" where
  "digit_value c = (if is_digit c then byte c - 48 else lower c - 87)"

definition is_hex_digit :: "char \<Rightarrow> bool" where
  "is_hex_digit c \<longleftrightarrow> is_digit c \<or> (97 \<le> lower c \<and> lower c \<le> 102)"

definition number_of :: "int \<Rightarrow> string \<Rightarrow> int" where
  "number_of base ds = foldl (\<lambda>n d. n * base + digit_value d) 0 ds"

fun sign_of :: "string \<Rightarrow> int \<times> string" where
  "sign_of [] = (1, [])"
| "sign_of (c # cs) =
     (if c = CHR ''-'' then (- 1, cs) else if c = CHR ''+'' then (1, cs) else (1, c # cs))"

definition Atoi :: "string \<Rightarrow> num_error + int" where
  "Atoi s =
     (case sign_of s of
        (sg, ds) \<Rightarrow>
          if ds = [] \<or> \<not> list_all is_digit ds then Inl SyntaxError
          else let n = sg * number_of 10 ds
               in if i64 n = n then Inr n else Inl RangeError)"

text \<open>Underscores separate digits, or follow the base prefix. \<open>hex\<close>: letters are digits, too.\<close>

datatype seen = AtStart | AfterDigit | AfterUnderscore | AfterOther

fun underscores_ok :: "bool \<Rightarrow> seen \<Rightarrow> string \<Rightarrow> bool" where
  "underscores_ok _ p [] = (p \<noteq> AfterUnderscore)"
| "underscores_ok hex p (c # cs) =
     (if is_digit c \<or> (hex \<and> is_hex_digit c) then underscores_ok hex AfterDigit cs
      else if c = CHR ''_'' then p = AfterDigit \<and> underscores_ok hex AfterUnderscore cs
      else p \<noteq> AfterUnderscore \<and> underscores_ok hex AfterOther cs)"

text \<open>The digits of the mantissa, how many of them stand behind the point, and the rest of the text.\<close>

fun mantissa :: "bool \<Rightarrow> bool \<Rightarrow> string \<Rightarrow> string \<times> nat \<times> string" where
  "mantissa hex dot [] = ([], 0, [])"
| "mantissa hex dot (c # cs) =
     (if c = CHR ''_'' then mantissa hex dot cs
      else if c = CHR ''.'' then (if dot then ([], 0, c # cs) else mantissa hex True cs)
      else if is_digit c \<or> (hex \<and> is_hex_digit c)
      then (case mantissa hex dot cs of (ds, f, r) \<Rightarrow> (c # ds, (if dot then f + 1 else f), r))
      else ([], 0, c # cs))"

text \<open>The exponent, cut off at 10000 as the library does; \<open>None\<close> when it has no digits.\<close>

definition exponent :: "string \<Rightarrow> (int \<times> string) option" where
  "exponent s =
     (case sign_of s of
        (sg, ds) \<Rightarrow>
          if ds = [] \<or> \<not> is_digit (hd ds) then None
          else
            (let ok = (\<lambda>c. is_digit c \<or> c = CHR ''_'');
                 e = foldl (\<lambda>e d. if e < 10000 then e * 10 + digit_value d else e) 0
                       (filter is_digit (takeWhile ok ds))
             in Some (sg * e, dropWhile ok ds)))"

text \<open>
  A number \<open>m * b ^ e\<close>, \<open>b\<close> ten or two, in units of \<open>2 ^ -149\<close>, rounded to 24 significant bits, ties to
  even. Exponents far out of range are cut off before the power is computed.
\<close>

definition quot_even :: "int \<Rightarrow> int \<Rightarrow> int" where
  "quot_even n d =
     (let q = n div d; r = n mod d
      in if 2 * r < d then q else if 2 * r > d then q + 1 else if even q then q else q + 1)"

definition round_ratio :: "int \<Rightarrow> int \<Rightarrow> int" where
  "round_ratio n d =
     (let k = bits (n div d) - 24 in quot_even n (d * 2 ^ k) * 2 ^ k)"

definition scaled :: "int \<Rightarrow> int \<Rightarrow> int \<Rightarrow> int \<Rightarrow> num_error + f32" where
  "scaled b sg m e =
     (let size = int (bits m);
          lo = (if b = 10 then - 46 - size else - 151 - size);
          x = (if m = 0 \<or> e < lo then 0
               else if e \<ge> 129 then 2 ^ 277
               else if e \<ge> 0 then round_ratio (m * b ^ nat e * 2 ^ 149) 1
               else round_ratio (m * 2 ^ 149) (b ^ nat (- e)))
      in if x \<ge> 2 ^ 277 then Inl RangeError else Inr (Fin (sg * x)))"

definition special :: "string \<Rightarrow> f32 option" where
  "special s =
     (case sign_of s of
        (sg, r) \<Rightarrow>
          if map lower r \<in> set [map byte ''inf'', map byte ''infinity'']
          then Some (if sg < 0 then NInf else PInf)
          else if map lower s = map byte ''nan'' then Some NaN else None)"

definition has_base_prefix :: "string \<Rightarrow> bool" where
  "has_base_prefix s \<longleftrightarrow> length s \<ge> 2 \<and> hd s = CHR ''0'' \<and> lower (s ! 1) = 120"

text \<open>strconv.ParseFloat(s, 32), with the conversion of the result to float32, which is exact.\<close>

definition ParseFloat32 :: "string \<Rightarrow> num_error + f32" where
  "ParseFloat32 s =
     (case special s of
        Some x \<Rightarrow> Inr x
      | None \<Rightarrow>
        (case sign_of s of
           (sg, t) \<Rightarrow>
             (let hex = has_base_prefix t; body = (if hex then drop 2 t else t)
              in case mantissa hex False body of
                   (ds, f, r) \<Rightarrow>
                     if ds = [] \<or> (CHR ''_'' \<in> set t
                           \<and> \<not> underscores_ok hex (if hex then AfterDigit else AtStart) body)
                     then Inl SyntaxError
                     else
                       (let m = number_of (if hex then 16 else 10) ds;
                            value = (\<lambda>e. if hex then scaled 2 sg m (e - 4 * int f)
                                         else scaled 10 sg m (e - int f))
                        in if r = [] then (if hex then Inl SyntaxError else value 0)
                           else if lower (hd r) = (if hex then 112 else 101)
                           then (case exponent (tl r) of
                                   Some (e, []) \<Rightarrow> value e
                                 | _ \<Rightarrow> Inl SyntaxError)
                           else Inl SyntaxError))))"

text \<open>For evaluation: numbers of this size are compared as integers.\<close>

lemma scan_lines_code [code]:
  "scan_lines s = map drop_cr (takeWhile (\<lambda>l. int (length l) < 65536) (raw_lines s))"
proof -
  have "(\<lambda>l :: string. int (length l) < 65536) = (\<lambda>l. length l < 65536)" by auto
  then show ?thesis by (simp add: scan_lines_def)
qed

text \<open>Printed integers are read back, and printing is injective.\<close>

lemma digits_value: "0 \<le> n \<Longrightarrow> number_of 10 (digits n) = n \<and> list_all is_digit (digits n) \<and> digits n \<noteq> []"
proof (induction n rule: digits.induct)
  case (1 n)
  have d: "is_digit (digit k) \<and> digit_value (digit k) = k" if "0 \<le> k" "k < 10" for k
  proof -
    have "of_char (char_of (48 + k) :: char) = 48 + k" using that by simp
    then show ?thesis using that by (simp add: is_digit_def digit_value_def byte_def digit_def)
  qed
  show ?case
  proof (cases "n < 10")
    case True
    then show ?thesis using d [of n] 1 by (simp add: digits.simps [of n] number_of_def)
  next
    case False
    have "number_of 10 (digits (n div 10)) = n div 10 \<and> list_all is_digit (digits (n div 10))"
      using 1 False by simp
    moreover have "number_of 10 (digits n) = number_of 10 (digits (n div 10)) * 10 + digit_value (digit (n mod 10))"
      using False by (simp add: digits.simps [of n] number_of_def)
    ultimately show ?thesis
      using d [of "n mod 10"] False by (simp add: digits.simps [of n])
  qed
qed

lemma digits_hd: "0 \<le> n \<Longrightarrow> digits n \<noteq> [] \<and> hd (digits n) \<noteq> CHR ''-'' \<and> hd (digits n) \<noteq> CHR ''+''"
proof -
  assume "0 \<le> n"
  then have "list_all is_digit (digits n)" "digits n \<noteq> []" using digits_value by blast+
  then have "is_digit (hd (digits n))" by (cases "digits n") auto
  with \<open>digits n \<noteq> []\<close> show ?thesis by (auto simp: is_digit_def byte_def)
qed

lemma Atoi_itoa:
  assumes "- (2 ^ 63) \<le> x" and "x < 2 ^ 63"
  shows "Atoi (itoa x) = Inr x"
proof -
  have n: "number_of 10 (digits \<bar>x\<bar>) = \<bar>x\<bar>" "list_all is_digit (digits \<bar>x\<bar>)" "digits \<bar>x\<bar> \<noteq> []"
    using digits_value [of "\<bar>x\<bar>"] by simp_all
  have s: "sign_of (itoa x) = (if x < 0 then - 1 else 1, digits \<bar>x\<bar>)"
    using digits_hd [of x] by (cases "digits x") (auto simp: itoa_def)
  show ?thesis
    using n assms by (simp add: Atoi_def s Let_def i64_id)
qed

lemma digits_inj: "0 \<le> x \<Longrightarrow> 0 \<le> y \<Longrightarrow> digits x = digits y \<Longrightarrow> x = y"
  by (metis digits_value)

lemma split_unique: "a @ c # x = b @ c # y \<Longrightarrow> c \<notin> set a \<Longrightarrow> c \<notin> set b \<Longrightarrow> a = b \<and> x = y"
proof (induction a arbitrary: b)
  case Nil
  then show ?case by (cases b) auto
next
  case (Cons d a)
  then show ?case by (cases b) auto
qed

lemma digits_no: "0 \<le> n \<Longrightarrow> c \<in> set (digits n) \<Longrightarrow> is_digit c"
  using digits_value by (auto simp: list_all_iff)

lemma itoa_inj_all: "itoa x = itoa y \<Longrightarrow> x = y"
proof -
  assume e: "itoa x = itoa y"
  have hd: "hd (digits \<bar>z\<bar>) \<noteq> CHR ''-''" "digits \<bar>z\<bar> \<noteq> []" for z
    using digits_hd [of "\<bar>z\<bar>"] by simp_all
  have form: "itoa z = (if z < 0 then CHR ''-'' # digits \<bar>z\<bar> else digits \<bar>z\<bar>)" for z
    by (simp add: itoa_def)
  have no: "CHR ''-'' # l \<noteq> digits \<bar>z\<bar>" for l z using hd [of z] by (metis list.sel(1))
  have "x < 0 \<longleftrightarrow> y < 0" using e no no [symmetric] unfolding form by (metis (full_types))
  moreover from this have "digits \<bar>x\<bar> = digits \<bar>y\<bar>" using e by (auto simp: form split: if_splits)
  then have "\<bar>x\<bar> = \<bar>y\<bar>" using digits_inj [of "\<bar>x\<bar>" "\<bar>y\<bar>"] by simp
  ultimately show ?thesis by auto
qed

end
