(* ===== verification/Strife_Client_Queue.thy ===== *)
theory Strife_Client_Queue
  imports Strife_Client_Calls Go_Text
begin

text \<open>
  Payments that could not be made (P3-Strife/client/payment: models, constants, storage, notification,
  processing and manager.go). The client keeps a queue of them in memory and in a file and sends them again
  when the connection is restored. Both gRPC stubs of the client use one connection: \<open>conn method\<close> is
  what a call of \<open>method\<close> does behind the client's interceptors. Times are nanoseconds; log lines
  are left out.
\<close>

subsection \<open>Records and constants\<close>

record PendingPayment =
  pp_ClientName :: string
  pp_Amount :: f32
  pp_TransactionID :: string
  pp_ReceiverName :: string
  pp_RequestId :: string
  pp_CreatedAt :: int
  pp_RetryCount :: int
  pp_Status :: string

definition StatusPending :: string where
  "StatusPending = ''pending''"

definition StatusProcessing :: string where
  "StatusProcessing = ''processing''"

definition StatusCompleted :: string where
  "StatusCompleted = ''completed''"

definition StatusFailed :: string where
  "StatusFailed = ''failed''"

lemmas status_defs = StatusPending_def StatusProcessing_def StatusCompleted_def StatusFailed_def

lemma status_distinct [simp]:
  "StatusPending \<noteq> StatusProcessing" "StatusPending \<noteq> StatusCompleted" "StatusProcessing \<noteq> StatusCompleted"
  "StatusProcessing \<noteq> StatusPending" "StatusCompleted \<noteq> StatusPending" "StatusCompleted \<noteq> StatusProcessing"
  by (simp_all add: status_defs)

subsection \<open>The queue file (storage.go)\<close>

datatype queue_file = NoFile | EmptyFile | Unreadable string | Malformed string
  | Holds "PendingPayment list"

fun LoadPendingPayments :: "queue_file \<Rightarrow> string + PendingPayment list" where
  "LoadPendingPayments NoFile = Inr []"
| "LoadPendingPayments EmptyFile = Inr []"
| "LoadPendingPayments (Unreadable e) = Inl e"
| "LoadPendingPayments (Malformed e) = Inl e"
| "LoadPendingPayments (Holds ps) = Inr ps"

text \<open>encoding/json refuses NaN and the infinities.\<close>

definition marshals :: "PendingPayment list \<Rightarrow> bool" where
  "marshals ps \<longleftrightarrow> list_all (\<lambda>p. \<exists>n. pp_Amount p = Fin n) ps"

lemma marshals_code [code]:
  "marshals ps \<longleftrightarrow> list_all (\<lambda>p. case pp_Amount p of Fin _ \<Rightarrow> True | _ \<Rightarrow> False) ps"
  by (simp add: marshals_def list_all_iff split: f32.split) (metis f32.exhaust f32.distinct)

text \<open>\<open>writable\<close>: whether the file can be written. The caller ignores the error.\<close>

definition SavePendingPayments :: "bool \<Rightarrow> PendingPayment list \<Rightarrow> queue_file \<Rightarrow> queue_file" where
  "SavePendingPayments writable ps file = (if marshals ps \<and> writable then Holds ps else file)"

subsection \<open>Notifications (notification.go)\<close>

type_synonym notifications = "(string, PendingPayment) gomap"

definition AddNotification :: "PendingPayment \<Rightarrow> notifications \<Rightarrow> notifications" where
  "AddNotification p nm = gput (pp_TransactionID p) p nm"

definition UpdateNotification :: "string \<Rightarrow> string \<Rightarrow> notifications \<Rightarrow> notifications" where
  "UpdateNotification i status nm =
     (case map_of nm i of None \<Rightarrow> nm | Some p \<Rightarrow> gput i (p\<lparr>pp_Status := status\<rparr>) nm)"

definition GetNotification :: "string \<Rightarrow> notifications \<Rightarrow> notifications \<times> PendingPayment option" where
  "GetNotification i nm =
     (case map_of nm i of None \<Rightarrow> (nm, None) | Some p \<Rightarrow> (gdel i nm, Some p))"

definition GetAllNotifications :: "notifications \<Rightarrow> notifications \<times> notifications" where
  "GetAllNotifications nm = ([], nm)"

text \<open>The signs at the head of a line, in UTF-8.\<close>

definition check_mark :: string where
  "check_mark = [CHR 0xE2, CHR 0x9C, CHR 0x85]"

definition cross_mark :: string where
  "cross_mark = [CHR 0xE2, CHR 0x9D, CHR 0x8C]"

definition hourglass :: string where
  "hourglass = [CHR 0xE2, CHR 0x8F, CHR 0xB3]"

text \<open>The line for one payment; a payment in any other state has none.\<close>

definition notification_line :: "PendingPayment \<Rightarrow> string \<Rightarrow> string option" where
  "notification_line p suffix =
     (let text = '' Payment of '' @ fmt2f (pp_Amount p) @ '' for '' @ pp_ClientName p
      in if pp_Status p = StatusCompleted then Some (check_mark @ text @ '' SUCCEEDED'' @ suffix)
         else if pp_Status p = StatusFailed then Some (cross_mark @ text @ '' FAILED'' @ suffix)
         else if pp_Status p = StatusPending
         then Some (hourglass @ text @ '' QUEUED for later processing'' @ suffix)
         else None)"

text \<open>\<open>order\<close> is the order of the loop over the map.\<close>

definition checkNotifications :: "string list \<Rightarrow> notifications \<Rightarrow> notifications \<times> string list" where
  "checkNotifications order nm =
     (case GetAllNotifications nm of
        (nm', all) \<Rightarrow>
          (nm',
           if all = [] then []
           else [nl @ ''===== PAYMENT NOTIFICATIONS =====''] @
             List.map_filter
               (\<lambda>i. case map_of all i of None \<Rightarrow> None | Some p \<Rightarrow> notification_line p '''') order @
             [''=================================''])) "

definition DisplayNotifications :: "string list \<Rightarrow> notifications \<Rightarrow> notifications \<times> string list" where
  "DisplayNotifications order nm =
     (case GetAllNotifications nm of
        (nm', all) \<Rightarrow>
          (nm',
           [nl @ ''===== PAYMENT NOTIFICATIONS =====''] @
           (if all = [] then [''No new notifications'']
            else List.map_filter
              (\<lambda>i. case map_of all i of None \<Rightarrow> None
                 | Some p \<Rightarrow> notification_line p ('' (ID: '' @ i @ '')'')) order) @
           [''=================================''])) "

definition DisplayTransactionStatus ::
  "(int \<Rightarrow> string) \<Rightarrow> string \<Rightarrow> notifications \<Rightarrow> notifications \<times> string list \<times> bool" where
  "DisplayTransactionStatus format_time i nm =
     (case GetNotification i nm of
        (nm', None) \<Rightarrow> (nm', [], False)
      | (nm', Some p) \<Rightarrow>
          (nm',
           [nl @ ''===== TRANSACTION STATUS ====='', ''Transaction ID: '' @ i, ''Client: '' @ pp_ClientName p,
            ''Amount: '' @ fmt2f (pp_Amount p), ''Status: '' @ pp_Status p,
            ''Created At: '' @ format_time (pp_CreatedAt p)] @
           (if pp_RetryCount p > 0 then [''Retry Attempts: '' @ itoa (pp_RetryCount p)] else []) @
           [''==============================''], True))"

subsection \<open>Sending (processing.go)\<close>

record PaymentProcessor =
  proc_credentials :: "(string, string) gomap"
  proc_authenticated :: "(string, bool) gomap"

definition NewPaymentProcessor :: PaymentProcessor where
  "NewPaymentProcessor = \<lparr>proc_credentials = [], proc_authenticated = []\<rparr>"

definition AddCredentials :: "string \<Rightarrow> string \<Rightarrow> PaymentProcessor \<Rightarrow> PaymentProcessor" where
  "AddCredentials username password pp =
     pp\<lparr>proc_credentials := gput username password (proc_credentials pp),
        proc_authenticated := gput username False (proc_authenticated pp)\<rparr>"

definition StoreCredentials :: "string \<Rightarrow> string \<Rightarrow> PaymentProcessor \<Rightarrow> PaymentProcessor" where
  "StoreCredentials username password pp =
     pp\<lparr>proc_credentials := gput username password (proc_credentials pp)\<rparr>"

definition IsConnectionError :: "string \<Rightarrow> bool" where
  "IsConnectionError message \<longleftrightarrow>
     contains ''unavailable'' message \<or> contains ''deadline exceeded'' message
     \<or> contains ''connection refused'' message"

text \<open>
  What the client talks to: the cache of its transaction ids and the world behind the connection. A
  reply has the type of its method; where another type would be read, the fields have their zero
  values.
\<close>

type_synonym 'g wire = "tx_cache \<times> 'g"

type_synonym 'g connection = "string \<Rightarrow> 'g invoker"

definition stub ::
  "(nat \<Rightarrow> string) \<Rightarrow> 'g connection \<Rightarrow> string \<Rightarrow> ctx \<Rightarrow> client_request \<Rightarrow> 'g wire
     \<Rightarrow> 'g wire \<times> client_reply rpc" where
  "stub fresh conn method c req tg = client_chain fresh method (conn method) c req tg"

fun as_auth :: "client_reply \<Rightarrow> AuthResponse" where
  "as_auth (AuthReply r) = r"
| "as_auth _ = \<lparr>ar_Success = False, ar_Message = '''', ar_Roles = []\<rparr>"

fun as_payment :: "client_reply \<Rightarrow> PaymentResponse" where
  "as_payment (PaymentReply r) = r"
| "as_payment _ = payment_response False ''''"

fun as_balance :: "client_reply \<Rightarrow> BalanceResponse" where
  "as_balance (BalanceReply r) = r"
| "as_balance _ = \<lparr>br_Balance = 0, br_Currency = ''''\<rparr>"

definition no_metadata :: ctx where
  "no_metadata = \<lparr>ctx_metadata = None\<rparr>"

definition authenticateUser ::
  "(nat \<Rightarrow> string) \<Rightarrow> 'g connection \<Rightarrow> string \<Rightarrow> PaymentProcessor \<times> 'g wire
     \<Rightarrow> (PaymentProcessor \<times> 'g wire) \<times> bool" where
  "authenticateUser fresh conn username s =
     (case s of (pp, tg) \<Rightarrow>
        if gget False (proc_authenticated pp) username then (s, True)
        else
          (case map_of (proc_credentials pp) username of
             None \<Rightarrow> (s, False)
           | Some password \<Rightarrow>
               (case stub fresh conn ''/proto.AuthService/Authenticate'' no_metadata
                       (AuthReq \<lparr>aq_Username = username, aq_Password = password\<rparr>) tg of
                  (tg', Inl _) \<Rightarrow> ((pp, tg'), False)
                | (tg', Inr reply) \<Rightarrow>
                    if ar_Success (as_auth reply)
                    then ((pp\<lparr>proc_authenticated := gput username True (proc_authenticated pp)\<rparr>, tg'), True)
                    else ((pp, tg'), False))))"

definition payment_context :: "PendingPayment \<Rightarrow> ctx" where
  "payment_context p =
     \<lparr>ctx_metadata = Some [(''username'', [pp_ClientName p]), (''transaction_id'', [pp_TransactionID p])]\<rparr>"

definition payment_details :: "PendingPayment \<Rightarrow> PaymentDetails" where
  "payment_details p =
     \<lparr>pd_ClientName = pp_ClientName p, pd_Amount = pp_Amount p, pd_ReceiverName = pp_ReceiverName p,
      pd_Currency = '''', pd_RequestId = pp_RequestId p\<rparr>"

text \<open>Whether the user could be authenticated makes no difference.\<close>

definition sendPayment ::
  "(nat \<Rightarrow> string) \<Rightarrow> 'g connection \<Rightarrow> PendingPayment \<Rightarrow> PaymentProcessor \<times> 'g wire
     \<Rightarrow> (PaymentProcessor \<times> 'g wire) \<times> bool \<times> string" where
  "sendPayment fresh conn p s =
     (case authenticateUser fresh conn (pp_ClientName p) s of
        ((pp, tg), _) \<Rightarrow>
          (case stub fresh conn ''/proto.PaymentGateway/MakePayment'' (payment_context p)
                  (PaymentReq (payment_details p)) tg of
             (tg', Inl e) \<Rightarrow> ((pp, tg'), False, err_message e)
           | (tg', Inr reply) \<Rightarrow>
               ((pp, tg'), resp_Success (as_payment reply), resp_Message (as_payment reply))))"

definition ProcessPendingPayment ::
  "(nat \<Rightarrow> string) \<Rightarrow> 'g connection \<Rightarrow> PendingPayment \<Rightarrow> PaymentProcessor \<times> 'g wire
     \<Rightarrow> (PaymentProcessor \<times> 'g wire) \<times> bool \<times> string" where
  "ProcessPendingPayment fresh conn p s = sendPayment fresh conn p s"

end
