(* ===== verification/Strife_Client_Manager.thy ===== *)
theory Strife_Client_Manager
  imports Strife_Client_Queue
begin

text \<open>
  The offline payment manager (P3-Strife/client/payment/manager.go): the queue, the goroutines that
  work through it, and all interleavings of these with the user and with restarts of the program. A
  goroutine that runs processPayments works on a copy of the queue (\<open>worker\<close>); every section under the
  manager's lock, and every remote call, is one step.
\<close>

subsection \<open>State\<close>

text \<open>\<open>om_writable\<close> belongs to the disk: whether the queue file can be written.\<close>

record OfflinePaymentManager =
  om_pendingPayments :: "PendingPayment list"
  om_isConnected :: bool
  om_processor :: PaymentProcessor
  om_notifier :: notifications
  om_file :: queue_file
  om_writable :: bool

definition save_queue :: "OfflinePaymentManager \<Rightarrow> OfflinePaymentManager" where
  "save_queue m =
     m\<lparr>om_file := SavePendingPayments (om_writable m) (om_pendingPayments m) (om_file m)\<rparr>"

definition loadPendingPayments :: "OfflinePaymentManager \<Rightarrow> OfflinePaymentManager" where
  "loadPendingPayments m =
     (case LoadPendingPayments (om_file m) of
        Inl _ \<Rightarrow> m
      | Inr ps \<Rightarrow>
          m\<lparr>om_pendingPayments := ps,
            om_notifier :=
              foldl (\<lambda>nm p. if pp_Status p = StatusPending then AddNotification p nm else nm)
                (om_notifier m) ps\<rparr>)"

definition NewOfflinePaymentManager :: "queue_file \<Rightarrow> bool \<Rightarrow> OfflinePaymentManager" where
  "NewOfflinePaymentManager file writable =
     loadPendingPayments
       \<lparr>om_pendingPayments = [], om_isConnected = False, om_processor = NewPaymentProcessor,
        om_notifier = [], om_file = file, om_writable = writable\<rparr>"

subsection \<open>Operations on the queue\<close>

definition already_queued :: "string \<Rightarrow> string \<Rightarrow> string \<Rightarrow> PendingPayment \<Rightarrow> bool" where
  "already_queued clientName transactionID requestID p \<longleftrightarrow>
     pp_TransactionID p = transactionID
     \<or> (pp_ClientName p = clientName \<and> pp_RequestId p = requestID \<and> requestID \<noteq> '''')"

text \<open>The second component: whether a goroutine is started that works through the queue.\<close>

definition QueuePayment ::
  "int \<Rightarrow> string \<Rightarrow> f32 \<Rightarrow> string \<Rightarrow> string \<Rightarrow> string \<Rightarrow> OfflinePaymentManager
     \<Rightarrow> OfflinePaymentManager \<times> bool" where
  "QueuePayment now clientName amount transactionID receiverName requestID m =
     (if list_ex (already_queued clientName transactionID requestID) (om_pendingPayments m) then (m, False)
      else
        (let p = \<lparr>pp_ClientName = clientName, pp_Amount = amount, pp_TransactionID = transactionID,
                  pp_ReceiverName = receiverName, pp_RequestId = requestID, pp_CreatedAt = now,
                  pp_RetryCount = 0, pp_Status = StatusPending\<rparr>;
             m1 = m\<lparr>om_pendingPayments := om_pendingPayments m @ [p],
                    om_notifier := AddNotification p (om_notifier m)\<rparr>
         in (save_queue m1, om_isConnected m)))"

fun update_first :: "('a \<Rightarrow> bool) \<Rightarrow> ('a \<Rightarrow> 'a) \<Rightarrow> 'a list \<Rightarrow> 'a list" where
  "update_first P f [] = []"
| "update_first P f (x # xs) = (if P x then f x # xs else x # update_first P f xs)"

definition updatePaymentStatus ::
  "string \<Rightarrow> string \<Rightarrow> OfflinePaymentManager \<Rightarrow> OfflinePaymentManager" where
  "updatePaymentStatus i status m =
     save_queue (m\<lparr>om_pendingPayments :=
       update_first (\<lambda>p. pp_TransactionID p = i) (\<lambda>p. p\<lparr>pp_Status := status\<rparr>) (om_pendingPayments m)\<rparr>)"

definition updatePaymentRetry :: "string \<Rightarrow> OfflinePaymentManager \<Rightarrow> OfflinePaymentManager" where
  "updatePaymentRetry i m =
     save_queue (m\<lparr>om_pendingPayments :=
       update_first (\<lambda>p. pp_TransactionID p = i)
         (\<lambda>p. p\<lparr>pp_RetryCount := i64 (pp_RetryCount p + 1), pp_Status := StatusPending\<rparr>)
         (om_pendingPayments m)\<rparr>)"

definition cleanupCompletedPayments :: "OfflinePaymentManager \<Rightarrow> OfflinePaymentManager" where
  "cleanupCompletedPayments m =
     (let active = filter (\<lambda>p. pp_Status p \<noteq> StatusCompleted) (om_pendingPayments m)
      in if length (om_pendingPayments m) \<noteq> length active
         then save_queue (m\<lparr>om_pendingPayments := active\<rparr>) else m)"

definition GetPendingPayments :: "OfflinePaymentManager \<Rightarrow> PendingPayment list" where
  "GetPendingPayments m = om_pendingPayments m"

definition notify :: "string \<Rightarrow> string \<Rightarrow> OfflinePaymentManager \<Rightarrow> OfflinePaymentManager" where
  "notify i status m = m\<lparr>om_notifier := UpdateNotification i status (om_notifier m)\<rparr>"

subsection \<open>Working through the queue\<close>

text \<open>Whether a payment of the copy is sent: its status was pending when the copy was made.\<close>

definition send_one ::
  "(nat \<Rightarrow> string) \<Rightarrow> 'g connection \<Rightarrow> PendingPayment \<Rightarrow> OfflinePaymentManager \<times> 'g wire
     \<Rightarrow> (OfflinePaymentManager \<times> 'g wire) \<times> bool \<times> string" where
  "send_one fresh conn p s =
     (case s of (m, tg) \<Rightarrow>
        (case ProcessPendingPayment fresh conn p (om_processor m, tg) of
           ((pp, tg'), r) \<Rightarrow> ((m\<lparr>om_processor := pp\<rparr>, tg'), r)))"

text \<open>What is recorded after the attempt, and whether the loop goes on.\<close>

definition record_result ::
  "string \<Rightarrow> bool \<times> string \<Rightarrow> OfflinePaymentManager \<Rightarrow> OfflinePaymentManager \<times> bool" where
  "record_result i r m =
     (case r of (success, message) \<Rightarrow>
        if success then (notify i StatusCompleted (updatePaymentStatus i StatusCompleted m), True)
        else if IsConnectionError message then (updatePaymentRetry i m, False)
        else (notify i StatusPending (updatePaymentStatus i StatusPending m), True))"

text \<open>
  A goroutine between two steps: started, and about to copy the queue; the rest of its copy; a payment that
  is marked and about to be sent; the result of a payment that was sent.
\<close>

datatype worker = Start | Loop "PendingPayment list" | Sending PendingPayment "PendingPayment list"
  | Sent PendingPayment "bool \<times> string" "PendingPayment list"

fun worker_step ::
  "(nat \<Rightarrow> string) \<Rightarrow> 'g connection \<Rightarrow> worker \<Rightarrow> OfflinePaymentManager \<times> 'g wire
     \<Rightarrow> worker option \<times> OfflinePaymentManager \<times> 'g wire" where
  "worker_step fresh conn Start (m, tg) =
     (if om_pendingPayments m = [] then (None, m, tg) else (Some (Loop (om_pendingPayments m)), m, tg))"
| "worker_step fresh conn (Loop []) (m, tg) = (None, cleanupCompletedPayments m, tg)"
| "worker_step fresh conn (Loop (p # ps)) (m, tg) =
     (if pp_Status p \<noteq> StatusPending then (Some (Loop ps), m, tg)
      else (Some (Sending p ps), updatePaymentStatus (pp_TransactionID p) StatusProcessing m, tg))"
| "worker_step fresh conn (Sending p ps) (m, tg) =
     (case send_one fresh conn p (m, tg) of (s', r) \<Rightarrow> (Some (Sent p r ps), s'))"
| "worker_step fresh conn (Sent p r ps) (m, tg) =
     (case record_result (pp_TransactionID p) r m of
        (m', go_on) \<Rightarrow> (Some (Loop (if go_on then ps else [])), m', tg))"

fun worker_left :: "nat \<Rightarrow> worker \<Rightarrow> nat" where
  "worker_left n Start = 3 * n + 1"
| "worker_left n (Loop ps) = 3 * length ps"
| "worker_left n (Sending p ps) = 3 * length ps + 2"
| "worker_left n (Sent p r ps) = 3 * length ps + 1"

lemma worker_step_decreases:
  "worker_step fresh conn w s = (Some w', s') \<Longrightarrow>
   worker_left (length (om_pendingPayments (fst s'))) w' < worker_left (length (om_pendingPayments (fst s))) w"
  by (cases "(fresh, conn, w, s)" rule: worker_step.cases) (auto split: if_splits prod.splits)

text \<open>A goroutine that is not interrupted.\<close>

function run_worker ::
  "(nat \<Rightarrow> string) \<Rightarrow> 'g connection \<Rightarrow> worker \<Rightarrow> OfflinePaymentManager \<times> 'g wire
     \<Rightarrow> OfflinePaymentManager \<times> 'g wire" where
  "run_worker fresh conn w s =
     (case worker_step fresh conn w s of
        (None, s') \<Rightarrow> s'
      | (Some w', s') \<Rightarrow> run_worker fresh conn w' s')"
  by pat_completeness auto

termination run_worker
proof (relation "measure (\<lambda>(fresh, conn, w, s). worker_left (length (om_pendingPayments (fst s))) w)",
    goal_cases)
  case 1
  then show ?case by simp
next
  case (2 fresh conn w s x s' w')
  then show ?case using worker_step_decreases [of fresh conn w s w' s'] by simp
qed

declare run_worker.simps [simp del]

definition processPayments ::
  "(nat \<Rightarrow> string) \<Rightarrow> 'g connection \<Rightarrow> OfflinePaymentManager \<times> 'g wire
     \<Rightarrow> OfflinePaymentManager \<times> 'g wire" where
  "processPayments fresh conn s = run_worker fresh conn Start s"

text \<open>One tick of the connection checker, uninterrupted; \<open>connected\<close> is what the check found.\<close>

definition connection_tick ::
  "(nat \<Rightarrow> string) \<Rightarrow> 'g connection \<Rightarrow> bool \<Rightarrow> OfflinePaymentManager \<times> 'g wire
     \<Rightarrow> OfflinePaymentManager \<times> 'g wire" where
  "connection_tick fresh conn connected s =
     (case (if connected \<and> \<not> om_isConnected (fst s) then processPayments fresh conn s else s) of
        (m, tg) \<Rightarrow> (m\<lparr>om_isConnected := connected\<rparr>, tg))"

subsection \<open>Interleavings\<close>

text \<open>
  The context of a request of the user holds the user's name only: the transaction id that the
  interceptor adds is in the context of the call, not in this one.
\<close>

definition user_context :: "string \<Rightarrow> ctx" where
  "user_context clientName = \<lparr>ctx_metadata = Some [(''username'', [clientName])]\<rparr>"

lemma user_context_id [simp]: "client_extractTransactionID (user_context c) = ''''"
  by (simp add: client_extractTransactionID_def user_context_def md_first_def gget_def)

text \<open>
  The client process: its manager, what it talks to, the goroutines that queued payments have started, and
  the connection checker, which is idle or works through the queue itself.
\<close>

record 'g client_process =
  cs_manager :: OfflinePaymentManager
  cs_wire :: "'g wire"
  cs_workers :: "worker list"
  cs_checker :: "worker option"

inductive client_step ::
  "(nat \<Rightarrow> string) \<Rightarrow> 'g connection \<Rightarrow> 'g client_process \<Rightarrow> 'g client_process \<Rightarrow> bool"
  for fresh :: "nat \<Rightarrow> string" and conn :: "'g connection" where
  queue: "QueuePayment now c x (client_extractTransactionID (user_context c)) r q (cs_manager s) = (m, go)
    \<Longrightarrow> client_step fresh conn s
          (s\<lparr>cs_manager := m, cs_workers := cs_workers s @ (if go then [Start] else [])\<rparr>)"
| work: "i < length (cs_workers s)
    \<Longrightarrow> worker_step fresh conn (cs_workers s ! i) (cs_manager s, cs_wire s) = (Some w, m, tg)
    \<Longrightarrow> client_step fresh conn s
          (s\<lparr>cs_manager := m, cs_wire := tg, cs_workers := (cs_workers s)[i := w]\<rparr>)"
| finish: "i < length (cs_workers s)
    \<Longrightarrow> worker_step fresh conn (cs_workers s ! i) (cs_manager s, cs_wire s) = (None, m, tg)
    \<Longrightarrow> client_step fresh conn s
          (s\<lparr>cs_manager := m, cs_wire := tg,
             cs_workers := take i (cs_workers s) @ drop (Suc i) (cs_workers s)\<rparr>)"
| tick: "cs_checker s = None \<Longrightarrow> \<not> (connected \<and> \<not> om_isConnected (cs_manager s))
    \<Longrightarrow> client_step fresh conn s (s\<lparr>cs_manager := (cs_manager s)\<lparr>om_isConnected := connected\<rparr>\<rparr>)"
| restored: "cs_checker s = None \<Longrightarrow> \<not> om_isConnected (cs_manager s)
    \<Longrightarrow> client_step fresh conn s (s\<lparr>cs_checker := Some Start\<rparr>)"
| check: "cs_checker s = Some v
    \<Longrightarrow> worker_step fresh conn v (cs_manager s, cs_wire s) = (Some w, m, tg)
    \<Longrightarrow> client_step fresh conn s (s\<lparr>cs_manager := m, cs_wire := tg, cs_checker := Some w\<rparr>)"
| checked: "cs_checker s = Some v
    \<Longrightarrow> worker_step fresh conn v (cs_manager s, cs_wire s) = (None, m, tg)
    \<Longrightarrow> client_step fresh conn s
          (s\<lparr>cs_manager := m\<lparr>om_isConnected := True\<rparr>, cs_wire := tg, cs_checker := None\<rparr>)"
| elsewhere: "client_step fresh conn s (s\<lparr>cs_wire := tg\<rparr>)"
| notices: "client_step fresh conn s (s\<lparr>cs_manager := (cs_manager s)\<lparr>om_notifier := nm\<rparr>\<rparr>)"
| credentials: "client_step fresh conn s (s\<lparr>cs_manager := (cs_manager s)\<lparr>om_processor := pp\<rparr>\<rparr>)"
| disk: "client_step fresh conn s (s\<lparr>cs_manager := (cs_manager s)\<lparr>om_writable := b\<rparr>\<rparr>)"
| restart: "client_step fresh conn s
    (s\<lparr>cs_manager := NewOfflinePaymentManager (om_file (cs_manager s)) (om_writable (cs_manager s)),
       cs_wire := (ClearTransactionCache (fst (cs_wire s)), snd (cs_wire s)),
       cs_workers := [], cs_checker := None\<rparr>)"

definition client_reaches ::
  "(nat \<Rightarrow> string) \<Rightarrow> 'g connection \<Rightarrow> 'g client_process \<Rightarrow> 'g client_process \<Rightarrow> bool" where
  "client_reaches fresh conn = (client_step fresh conn)\<^sup>*\<^sup>*"

text \<open>The process right after its start on a queue file.\<close>

definition started_client :: "queue_file \<Rightarrow> bool \<Rightarrow> 'g wire \<Rightarrow> 'g client_process" where
  "started_client file writable tg =
     \<lparr>cs_manager = NewOfflinePaymentManager file writable, cs_wire = tg, cs_workers = [], cs_checker = None\<rparr>"

end
