(* ===== verification/Strife_Client_App.thy ===== *)
theory Strife_Client_App
  imports Strife_Client_Manager
begin

text \<open>
  The console of the client (P3-Strife/client/client.go, client/auth/auth.go, client/ui): what a session
  reads, sends, prints and stores. The input is the list of the lines typed; after its end every
  read yields the empty string, as the scanner's Text does. The goroutines of the offline manager
  do not run between the steps of a session here; \<open>Strife_Client_Manager\<close> has their interleavings.
\<close>

subsection \<open>The authentication manager (client/auth/auth.go)\<close>

record AuthManager =
  am_authenticatedUsers :: "(string, bool) gomap"
  am_userRoles :: "(string, string list) gomap"

definition NewAuthManager :: AuthManager where
  "NewAuthManager = \<lparr>am_authenticatedUsers = [], am_userRoles = []\<rparr>"

text \<open>A call that fails, for whatever reason, counts as authenticated.\<close>

definition authenticate_one ::
  "(nat \<Rightarrow> string) \<Rightarrow> 'g connection \<Rightarrow> (AuthResponse \<Rightarrow> string) \<Rightarrow> string \<times> string
     \<Rightarrow> AuthManager \<times> 'g wire \<Rightarrow> (AuthManager \<times> 'g wire) \<times> string list" where
  "authenticate_one fresh conn show_auth u s =
     (case u of (username, password) \<Rightarrow>
       (case s of (am, tg) \<Rightarrow>
         (case stub fresh conn ''/proto.PaymentGateway/Authenticate'' no_metadata
                 (AuthReq \<lparr>aq_Username = username, aq_Password = password\<rparr>) tg of
            (tg', Inl _) \<Rightarrow>
              ((am\<lparr>am_authenticatedUsers := gput username True (am_authenticatedUsers am)\<rparr>, tg'), [])
          | (tg', Inr reply) \<Rightarrow>
              ((if ar_Success (as_auth reply)
                then am\<lparr>am_authenticatedUsers := gput username True (am_authenticatedUsers am),
                        am_userRoles := gput username (ar_Roles (as_auth reply)) (am_userRoles am)\<rparr>
                else am, tg'),
               [''Auth response for '' @ username @ '': '' @ show_auth (as_auth reply)]))))"

fun AuthenticateUsers ::
  "(nat \<Rightarrow> string) \<Rightarrow> 'g connection \<Rightarrow> (AuthResponse \<Rightarrow> string) \<Rightarrow> (string \<times> string) list
     \<Rightarrow> AuthManager \<times> 'g wire \<Rightarrow> (AuthManager \<times> 'g wire) \<times> string list" where
  "AuthenticateUsers fresh conn show_auth [] s = (s, [])"
| "AuthenticateUsers fresh conn show_auth (u # us) s =
     (case authenticate_one fresh conn show_auth u s of
        (s1, out1) \<Rightarrow>
          (case AuthenticateUsers fresh conn show_auth us s1 of (s2, out2) \<Rightarrow> (s2, out1 @ out2)))"

definition ClientIsAuthenticated :: "AuthManager \<Rightarrow> string \<Rightarrow> bool" where
  "ClientIsAuthenticated am username = gget False (am_authenticatedUsers am) username"

definition GetUserRoles :: "AuthManager \<Rightarrow> string \<Rightarrow> string list" where
  "GetUserRoles am username = gget [] (am_userRoles am) username"

text \<open>In the order of the loop over the map.\<close>

definition GetAuthenticatedUsernames :: "string list \<Rightarrow> AuthManager \<Rightarrow> string list" where
  "GetAuthenticatedUsernames order am = order"

subsection \<open>The application\<close>

text \<open>
  \<open>ev_now n\<close> is the time when \<open>n\<close> lines of input are left; \<open>ev_order\<close> the order of a loop over the
  notifications; the rest of the functions format values for the screen.
\<close>

record 'g client_env =
  ev_fresh :: "nat \<Rightarrow> string"
  ev_conn :: "'g connection"
  ev_now :: "nat \<Rightarrow> int"
  ev_order :: "notifications \<Rightarrow> string list"
  ev_counter_written :: bool
  ev_show_error :: "rpc_error \<Rightarrow> string"
  ev_show_auth :: "AuthResponse \<Rightarrow> string"
  ev_quote :: "string \<Rightarrow> string"
  ev_format_time :: "int \<Rightarrow> string"

text \<open>\<open>app_started\<close> counts the goroutines that queueing has started.\<close>

record 'g ClientApp =
  app_wire :: "'g wire"
  app_authManager :: AuthManager
  app_offlineManager :: OfflinePaymentManager
  app_requestCounter :: RequestCounter
  app_started :: nat
  app_input :: "string list"
  app_output :: "string list"

definition NewClientApp ::
  "'g wire \<Rightarrow> queue_file \<Rightarrow> bool \<Rightarrow> (string, int) gomap json_file \<Rightarrow> string list \<Rightarrow> 'g ClientApp" where
  "NewClientApp tg queue writable counters input =
     \<lparr>app_wire = tg, app_authManager = NewAuthManager,
      app_offlineManager = NewOfflinePaymentManager queue writable,
      app_requestCounter = NewRequestCounter counters, app_started = 0, app_input = input,
      app_output = []\<rparr>"

definition print :: "string list \<Rightarrow> 'g ClientApp \<Rightarrow> 'g ClientApp" where
  "print ls app = app\<lparr>app_output := app_output app @ ls\<rparr>"

definition GetUserInput :: "'g ClientApp \<Rightarrow> 'g ClientApp \<times> string" where
  "GetUserInput app =
     (case app_input app of [] \<Rightarrow> (app, '''') | l # ls \<Rightarrow> (app\<lparr>app_input := ls\<rparr>, l))"

subsection \<open>Screens (ui/ui_manager.go)\<close>

definition main_menu :: "string list" where
  "main_menu =
     [nl @ ''===== PAYMENT GATEWAY CLIENT ====='', ''1. Client Operations'', ''2. Exit'', ''Choose option:'']"

definition client_prompt :: "string list" where
  "client_prompt = [nl @ ''===== CLIENT OPERATIONS ====='', ''Enter client name:'']"

definition operations_menu :: "string list" where
  "operations_menu =
     [''Choose operation:'', ''1. Check Balance'', ''2. Make Payment'', ''3. View Pending Payments'',
      ''4. Check Transaction Status'', ''5. View Payment Notifications'', ''6. Back to Main Menu'']"

definition transfer_type_menu :: "string list" where
  "transfer_type_menu =
     [nl @ ''--- Payment Type ---'', ''1. Simple Payment (withdraw from your account)'',
      ''2. Transfer to Another Account (Two-Phase Commit)'', ''Enter your choice: '']"

definition payment_screen :: "string \<Rightarrow> string \<Rightarrow> f32 \<Rightarrow> bool \<Rightarrow> string \<Rightarrow> string list" where
  "payment_screen clientName transactionID amount success message =
     (if success
      then [''Payment of '' @ fmt2f amount @ '' for '' @ clientName @ '' successful!'',
            ''Transaction ID: '' @ transactionID]
      else [''Payment failed: '' @ message, ''Transaction ID: '' @ transactionID])"

definition balance_screen :: "string \<Rightarrow> f32 \<Rightarrow> string \<Rightarrow> string list" where
  "balance_screen clientName balance currency =
     [''Balance for '' @ clientName @ '': '' @ fmt2f balance @ '' '' @ currency]"

subsection \<open>Handlers\<close>

definition app_authenticateUser :: "'g client_env \<Rightarrow> string \<Rightarrow> 'g ClientApp \<Rightarrow> 'g ClientApp \<times> bool" where
  "app_authenticateUser ev clientName app =
     (case GetUserInput (print [''Please authenticate user '' @ clientName, ''Enter password:''] app) of
        (app1, password) \<Rightarrow>
          (case AuthenticateUsers (ev_fresh ev) (ev_conn ev) (ev_show_auth ev) [(clientName, password)]
                  (app_authManager app1, app_wire app1) of
             ((am, tg), out) \<Rightarrow>
               let app2 = print out (app1\<lparr>app_authManager := am, app_wire := tg\<rparr>)
               in if \<not> ClientIsAuthenticated am clientName
                  then (print [''Authentication failed for user '' @ clientName] app2, False)
                  else
                    let m = app_offlineManager app2
                    in (print [''User '' @ clientName @ '' authenticated successfully!'']
                          (app2\<lparr>app_offlineManager :=
                             m\<lparr>om_processor := StoreCredentials clientName password (om_processor m)\<rparr>\<rparr>),
                        True)))"

definition handleCheckBalance :: "'g client_env \<Rightarrow> string \<Rightarrow> 'g ClientApp \<Rightarrow> 'g ClientApp" where
  "handleCheckBalance ev clientName app =
     (case stub (ev_fresh ev) (ev_conn ev) ''/proto.PaymentGateway/GetBalance'' (user_context clientName)
             (BalanceReq \<lparr>bq_ClientName = clientName\<rparr>) (app_wire app) of
        (tg, Inl e) \<Rightarrow>
          print [''Failed to get balance: '' @ ev_show_error ev e @ '' (server may be offline)'']
            (app\<lparr>app_wire := tg\<rparr>)
      | (tg, Inr reply) \<Rightarrow>
          print [''Balance for '' @ clientName @ '': '' @ fmt2f (br_Balance (as_balance reply)) @ '' ''
                   @ br_Currency (as_balance reply)]
            (app\<lparr>app_wire := tg\<rparr>))"

definition queue_for_later ::
  "'g client_env \<Rightarrow> string \<Rightarrow> f32 \<Rightarrow> string \<Rightarrow> string \<Rightarrow> 'g ClientApp \<Rightarrow> 'g ClientApp" where
  "queue_for_later ev clientName amount receiverName requestID app =
     (let transactionID = client_extractTransactionID (user_context clientName)
      in case QueuePayment (ev_now ev (length (app_input app))) clientName amount transactionID receiverName
                requestID (app_offlineManager app) of
           (m, go) \<Rightarrow>
             print [''Payment queued successfully with transaction ID: '' @ transactionID,
                    ''It will be processed when connection is restored.'']
               (app\<lparr>app_offlineManager := m, app_started := app_started app + (if go then 1 else 0)\<rparr>))"

definition pay_now ::
  "'g client_env \<Rightarrow> string \<Rightarrow> f32 \<Rightarrow> string \<Rightarrow> 'g ClientApp \<Rightarrow> 'g ClientApp" where
  "pay_now ev clientName amount receiverName app =
     (let requestID = GetNextRequestID (app_requestCounter app) clientName;
          req = \<lparr>pd_ClientName = clientName, pd_Amount = amount, pd_ReceiverName = receiverName,
                 pd_Currency = '''', pd_RequestId = requestID\<rparr>;
          app1 = print [''Making payment with request ID: '' @ requestID] app
      in case stub (ev_fresh ev) (ev_conn ev) ''/proto.PaymentGateway/MakePayment''
                (user_context clientName) (PaymentReq req) (app_wire app1) of
           (tg, Inl e) \<Rightarrow>
             queue_for_later ev clientName amount receiverName requestID
               (print [''Failed to make payment: '' @ ev_show_error ev e,
                       ''Queuing payment for offline processing...''] (app1\<lparr>app_wire := tg\<rparr>))
         | (tg, Inr reply) \<Rightarrow>
             let app2 = app1\<lparr>app_wire := tg\<rparr>;
                 transactionID = client_extractTransactionID (user_context clientName)
             in if resp_Success (as_payment reply)
                then
                  (print (payment_screen clientName transactionID amount True '''') app2)
                    \<lparr>app_requestCounter :=
                       IncrementCounter (ev_counter_written ev) clientName (app_requestCounter app2)\<rparr>
                else print (payment_screen clientName transactionID amount False
                              (resp_Message (as_payment reply)) @
                            [''You can try again with a new transaction.'']) app2)"

fun number_error_text :: "num_error \<Rightarrow> string" where
  "number_error_text SyntaxError = ''invalid syntax''"
| "number_error_text RangeError = ''value out of range''"

definition handleMakePayment :: "'g client_env \<Rightarrow> string \<Rightarrow> 'g ClientApp \<Rightarrow> 'g ClientApp" where
  "handleMakePayment ev clientName app =
     (case GetUserInput (print [''Enter payment amount:''] app) of
        (app1, amountStr) \<Rightarrow>
          (case ParseFloat32 amountStr of
             Inl e \<Rightarrow>
               print [''Invalid amount: strconv.ParseFloat: parsing '' @ ev_quote ev amountStr @ '': ''
                        @ number_error_text e] app1
           | Inr amount \<Rightarrow>
               (case GetUserInput (print transfer_type_menu app1) of
                  (app2, transferChoice) \<Rightarrow>
                    (case (if transferChoice = ''2''
                           then GetUserInput (print [''Enter receiver'' @ [CHR 0x27] @ ''s account name:''] app2)
                           else (app2, '''')) of
                       (app3, receiverName) \<Rightarrow> pay_now ev clientName amount receiverName app3))))"

definition displayPendingPayments :: "'g ClientApp \<Rightarrow> 'g ClientApp" where
  "displayPendingPayments app =
     (let ps = GetPendingPayments (app_offlineManager app)
      in print ([nl @ ''===== PENDING PAYMENTS =====''] @
          (if ps = [] then [''No pending payments in queue'']
           else map (\<lambda>(i, p).
             itoa (int i) @ ''. Client: '' @ pp_ClientName p @ '', Amount: '' @ fmt2f (pp_Amount p)
               @ '', Status: '' @ pp_Status p @ '', Retry Count: '' @ itoa (pp_RetryCount p)
               @ '', Transaction ID: '' @ pp_TransactionID p) (enumerate 1 ps)) @
          [''============================'']) app)"

definition handleCheckTransactionStatus :: "'g client_env \<Rightarrow> 'g ClientApp \<Rightarrow> 'g ClientApp" where
  "handleCheckTransactionStatus ev app =
     (case GetUserInput (print [''Enter transaction ID to check:''] app) of
        (app1, i) \<Rightarrow>
          (case DisplayTransactionStatus (ev_format_time ev) i (om_notifier (app_offlineManager app1)) of
             (nm, out, found) \<Rightarrow>
               print (out @ (if \<not> found then [''No information found for transaction ID: '' @ i] else []))
                 (app1\<lparr>app_offlineManager := (app_offlineManager app1)\<lparr>om_notifier := nm\<rparr>\<rparr>)))"

definition displayNotifications :: "'g client_env \<Rightarrow> 'g ClientApp \<Rightarrow> 'g ClientApp" where
  "displayNotifications ev app =
     (let m = app_offlineManager app
      in case DisplayNotifications (ev_order ev (om_notifier m)) (om_notifier m) of
           (nm, out) \<Rightarrow> print out (app\<lparr>app_offlineManager := m\<lparr>om_notifier := nm\<rparr>\<rparr>))"

definition operation_menu :: "'g client_env \<Rightarrow> string \<Rightarrow> 'g ClientApp \<Rightarrow> 'g ClientApp" where
  "operation_menu ev clientName app =
     (case GetUserInput (print operations_menu app) of
        (app1, operation) \<Rightarrow>
          if operation = ''1'' then handleCheckBalance ev clientName app1
          else if operation = ''2'' then handleMakePayment ev clientName app1
          else if operation = ''3'' then displayPendingPayments app1
          else if operation = ''4'' then handleCheckTransactionStatus ev app1
          else if operation = ''5'' then displayNotifications ev app1
          else if operation = ''6'' then app1
          else print [''Invalid operation''] app1)"

definition handleClientOperations :: "'g client_env \<Rightarrow> 'g ClientApp \<Rightarrow> 'g ClientApp" where
  "handleClientOperations ev app =
     (case GetUserInput (print client_prompt app) of
        (app1, clientName) \<Rightarrow>
          (case (if \<not> ClientIsAuthenticated (app_authManager app1) clientName
                 then app_authenticateUser ev clientName app1 else (app1, True)) of
             (app2, False) \<Rightarrow> app2
           | (app2, True) \<Rightarrow> operation_menu ev clientName app2))"

text \<open>The second component: whether the program goes on.\<close>

definition showMainMenu :: "'g client_env \<Rightarrow> 'g ClientApp \<Rightarrow> 'g ClientApp \<times> bool" where
  "showMainMenu ev app =
     (case GetUserInput (print main_menu app) of
        (app1, option) \<Rightarrow>
          if option = ''1'' then (handleClientOperations ev app1, True)
          else if option = ''2'' then (app1, False)
          else (print [''Invalid option''] app1, True))"

text \<open>The main loop; \<open>None\<close> when it does not end.\<close>

partial_function (option) Run :: "'g client_env \<Rightarrow> 'g ClientApp \<Rightarrow> 'g ClientApp option" where
  "Run ev app =
     (case showMainMenu ev app of (app', go_on) \<Rightarrow> if go_on then Run ev app' else Some app')"

end
