(* ===== verification/Strife_Startup.thy ===== *)
theory Strife_Startup
  imports Strife_Server Strife_Client_App
begin

text \<open>
  How the gateway and the client start (P3-Strife/gateway/config/tls.go and server.go, client/config/config.go and
  client.go). Loading a key pair, reading a file, parsing certificates, listening, serving and dialling belong
  to libraries; what they yield is an argument. A program ends with log.Fatalf (\<open>Fatal\<close>) or returns.
\<close>

subsection \<open>TLS\<close>

text \<open>
  Over key pairs \<open>'k\<close> and certificates \<open>'c\<close>: tls.LoadX509KeyPair, ioutil.ReadFile, and the certificates that
  AppendCertsFromPEM finds in a text. It reports whether there are any.
\<close>

record ('k, 'c) tls_files =
  tf_key_pair :: "string \<Rightarrow> string \<Rightarrow> string + 'k"
  tf_read :: "string \<Rightarrow> string + string"
  tf_certificates :: "string \<Rightarrow> 'c list"

datatype ClientAuth = NoClientCert | RequireAndVerifyClientCert

record ('k, 'c) tls_config =
  tc_Certificates :: "'k list"
  tc_RootCAs :: "'c list"
  tc_ClientCAs :: "'c list"
  tc_ClientAuth :: ClientAuth
  tc_ServerName :: string

text \<open>Go's pair of credentials and error, either of which can be nil.\<close>

definition GatewaySetupTLSCredentials ::
  "('k, 'c) tls_files \<Rightarrow> TLSConfig \<Rightarrow> ('k, 'c) tls_config option \<times> string option" where
  "GatewaySetupTLSCredentials tf cfg =
     (case tf_key_pair tf (tls_ServerCertPath cfg) (tls_ServerKeyPath cfg) of
        Inl e \<Rightarrow> (None, Some e)
      | Inr cert \<Rightarrow>
          (case tf_read tf (tls_CACertPath cfg) of
             Inl e \<Rightarrow> (None, Some e)
           | Inr caCert \<Rightarrow>
               (Some \<lparr>tc_Certificates = [cert], tc_RootCAs = [], tc_ClientCAs = tf_certificates tf caCert,
                  tc_ClientAuth = RequireAndVerifyClientCert, tc_ServerName = ''''\<rparr>, None)))"

record CertificatePaths =
  cp_ClientCert :: string
  cp_ClientKey :: string
  cp_CACert :: string

record ClientConfig =
  cc_ServerAddress :: string
  cc_DataDir :: string
  cc_CertPaths :: CertificatePaths

text \<open>The directory is created when it does not exist; an error of that is ignored.\<close>

definition ClientLoadConfig :: "bool \<Rightarrow> bool \<times> ClientConfig" where
  "ClientLoadConfig exists =
     (let create = \<not> exists
      in (create, \<lparr>cc_ServerAddress = ''localhost:50053'', cc_DataDir = ''data'',
            cc_CertPaths = \<lparr>cp_ClientCert = ''certs/client.crt'', cp_ClientKey = ''certs/client.key'',
              cp_CACert = ''certs/ca.crt''\<rparr>\<rparr>))"

text \<open>When no certificate can be parsed, the error that is returned is the one of the reading before, which is nil.\<close>

definition ClientSetupTLSCredentials ::
  "('k, 'c) tls_files \<Rightarrow> CertificatePaths \<Rightarrow> ('k, 'c) tls_config option \<times> string option" where
  "ClientSetupTLSCredentials tf paths =
     (case tf_key_pair tf (cp_ClientCert paths) (cp_ClientKey paths) of
        Inl e \<Rightarrow> (None, Some e)
      | Inr cert \<Rightarrow>
          (case tf_read tf (cp_CACert paths) of
             Inl e \<Rightarrow> (None, Some e)
           | Inr caCert \<Rightarrow>
               if tf_certificates tf caCert = [] then (None, None)
               else
                 (Some \<lparr>tc_Certificates = [cert], tc_RootCAs = tf_certificates tf caCert, tc_ClientCAs = [],
                    tc_ClientAuth = NoClientCert, tc_ServerName = ''localhost''\<rparr>, None)))"

subsection \<open>The gateway\<close>

text \<open>What happens to the running server first: Serve returns, or a signal arrives.\<close>

datatype serve_end = ServeReturns "string option" | StopSignal

record ('k, 'c) gateway_host =
  gh_tls :: "('k, 'c) tls_files"
  gh_listen :: "string \<Rightarrow> string option"
  gh_end :: serve_end

text \<open>
  What a program does until it ends: the gateway and the TLS configuration it serves with, if it comes that
  far, the error that RunServer returns, and the lines it logs itself.
\<close>

record ('k, 'c) server_run =
  sr_serves :: "(gateway \<times> ('k, 'c) tls_config) option"
  sr_error :: "string option"
  sr_log :: "string list"

definition RunServer ::
  "('k, 'c) gateway_host \<Rightarrow> Config \<Rightarrow> gateway \<Rightarrow> ('k, 'c) server_run" where
  "RunServer host cfg w =
     (case GatewaySetupTLSCredentials (gh_tls host) (cfg_TLSConfig cfg) of
        (_, Some e) \<Rightarrow> \<lparr>sr_serves = None, sr_error = Some e, sr_log = []\<rparr>
      | (creds, None) \<Rightarrow>
          (case gh_listen host (cfg_ServerAddress cfg) of
             Some e \<Rightarrow> \<lparr>sr_serves = None, sr_error = Some e, sr_log = []\<rparr>
           | None \<Rightarrow>
               (let running = ''Payment Gateway server running on '' @ cfg_ServerAddress cfg;
                    serves = map_option (Pair w) creds
                in case gh_end host of
                     ServeReturns err \<Rightarrow> \<lparr>sr_serves = serves, sr_error = err, sr_log = [running]\<rparr>
                   | StopSignal \<Rightarrow>
                       \<lparr>sr_serves = serves, sr_error = None,
                        sr_log = [running, ''Shutting down server...'', ''Server stopped gracefully'']\<rparr>)))"

text \<open>\<open>Inl\<close> is the text of log.Fatalf.\<close>

datatype 'a program = Fatal string "'a option" | Returns 'a

definition gateway_main ::
  "('k, 'c) gateway_host \<Rightarrow> User list json_file \<Rightarrow> BalanceData list json_file \<Rightarrow> bank_clients_file json_file
     \<Rightarrow> servers \<Rightarrow> ('k, 'c) server_run program" where
  "gateway_main host users balances clients servers =
     (let cfg = LoadConfig ''config.json''
      in case NewGatewayServer cfg users balances clients servers of
           Inl e \<Rightarrow> Fatal (''Failed to create server: '' @ e) None
         | Inr w \<Rightarrow>
             (let r = RunServer host cfg w
              in case sr_error r of
                   Some e \<Rightarrow> Fatal (''Server error: '' @ e) (Some r)
                 | None \<Rightarrow> Returns r))"

subsection \<open>The client\<close>

text \<open>
  Dialling gets the address and the credentials, which can be nil, and yields an error or a connection. \<open>None\<close> in
  the place of the connection is the nil pointer that the client goes on with when dialling failed.
\<close>

record ('k, 'c, 'g) client_host =
  ch_tls :: "('k, 'c) tls_files"
  ch_data_exists :: bool
  ch_dial :: "string \<Rightarrow> ('k, 'c) tls_config option \<Rightarrow> string + 'g connection"

record 'g client_start =
  cl_connection :: "'g connection option"
  cl_app :: "'g ClientApp"
  cl_log :: "string list"

text \<open>What stands when Run is called. A Fatal ends the program before.\<close>

definition client_main ::
  "('k, 'c, 'g) client_host \<Rightarrow> 'g wire \<Rightarrow> queue_file \<Rightarrow> bool \<Rightarrow> (string, int) gomap json_file \<Rightarrow> string list
     \<Rightarrow> 'g client_start program" where
  "client_main host tg queue writable counters input =
     (let cfg = snd (ClientLoadConfig (ch_data_exists host));
          app = NewClientApp tg queue writable counters input
      in case ClientSetupTLSCredentials (ch_tls host) (cc_CertPaths cfg) of
           (_, Some e) \<Rightarrow> Fatal (''Failed to setup TLS credentials: '' @ e) None
         | (creds, None) \<Rightarrow>
             (case ch_dial host (cc_ServerAddress cfg) creds of
                Inl e \<Rightarrow>
                  Returns \<lparr>cl_connection = None, cl_app = app,
                    cl_log = [''Failed to connect to gateway: '' @ e, ''Starting in offline mode...'']\<rparr>
              | Inr conn \<Rightarrow> Returns \<lparr>cl_connection = Some conn, cl_app = app, cl_log = []\<rparr>))"


subsection \<open>What it takes to start\<close>

fun served :: "('k, 'c) server_run program \<Rightarrow> (gateway \<times> ('k, 'c) tls_config) option" where
  "served (Fatal _ None) = None"
| "served (Fatal _ (Some r)) = sr_serves r"
| "served (Returns r) = sr_serves r"

text \<open>
  The gateway serves exactly when its users, its balances, its key pair and the CA file can be read and the port is
  free; the file of the bank clients is not needed, and the CA file need not contain a certificate.
\<close>

lemma gateway_starts_iff:
  "served (gateway_main host users balances clients servers) \<noteq> None \<longleftrightarrow>
     \<not> isl (NewUserStorage users) \<and> \<not> isl (NewBalanceStorage balances)
     \<and> \<not> isl (tf_key_pair (gh_tls host) ''certs/server.crt'' ''certs/server.key'')
     \<and> \<not> isl (tf_read (gh_tls host) ''certs/ca.crt'') \<and> gh_listen host '':50053'' = None"
  by (cases "NewUserStorage users"; cases "NewBalanceStorage balances";
      cases "tf_key_pair (gh_tls host) ''certs/server.crt'' ''certs/server.key''";
      cases "tf_read (gh_tls host) ''certs/ca.crt''"; cases "gh_listen host '':50053''"; cases "gh_end host")
    (simp_all add: gateway_main_def NewGatewayServer_def RunServer_def GatewaySetupTLSCredentials_def
      LoadConfig_def DefaultConfig_def Let_def split: option.split)

text \<open>Whoever connects has to show a certificate that the CA file vouches for; without one in it, nobody can.\<close>

lemma gateway_checks_client_certificates:
  assumes "served (gateway_main host users balances clients servers) = Some (w, t)"
    and "tf_read (gh_tls host) ''certs/ca.crt'' = Inr ca"
  shows "tc_ClientAuth t = RequireAndVerifyClientCert \<and> tc_ClientCAs t = tf_certificates (gh_tls host) ca"
  using assms
  by (cases "NewUserStorage users"; cases "NewBalanceStorage balances";
      cases "tf_key_pair (gh_tls host) ''certs/server.crt'' ''certs/server.key''";
      cases "gh_listen host '':50053''"; cases "gh_end host")
    (auto simp: gateway_main_def NewGatewayServer_def RunServer_def GatewaySetupTLSCredentials_def
      LoadConfig_def DefaultConfig_def Let_def split: option.splits)

text \<open>A CA file without a certificate does not end the client either: it dials without credentials.\<close>

lemma unparsable_ca_goes_unnoticed:
  assumes "tf_key_pair (ch_tls host) ''certs/client.crt'' ''certs/client.key'' = Inr k"
    and "tf_read (ch_tls host) ''certs/ca.crt'' = Inr ca" and "tf_certificates (ch_tls host) ca = []"
    and "ch_dial host ''localhost:50053'' None = Inl e"
  shows "\<exists>start. client_main host tg queue writable counters input = Returns start \<and> cl_connection start = None
    \<and> cl_log start = [''Failed to connect to gateway: '' @ e, ''Starting in offline mode...'']"
  using assms by (simp add: client_main_def ClientSetupTLSCredentials_def ClientLoadConfig_def Let_def)

end
