(* ===== verification/Strife_Logs.thy ===== *)
theory Strife_Logs
  imports Strife_Client_Calls Strife_Access
begin

text \<open>
  The log lines of the logging interceptors (P3-Strife/gateway/interceptors/logging.go and
  client/interceptors/logging.go). The other theories leave the lines out; here the log is part of the state, and
  the interceptors are shown to do to the rest of the state and to the answer what the interceptors without a log
  do. The texts that depend on libraries (the printed messages, durations and names of status codes) are
  arguments.
\<close>

subsection \<open>The gateway\<close>

datatype logged_request = LogPayment PaymentDetails | LogBankPayment PaymentRequest
  | LogBalance BalanceRequest | LogOtherRequest

datatype logged_response = LogPaymentResponse PaymentResponse | LogRegistration bool string
  | LogAuth AuthResponse | LogOtherResponse

text \<open>The address of the peer, if there is one, and the texts of libraries.\<close>

record ('q, 'r) log_texts =
  lt_peer :: "string option"
  lt_request :: "'q \<Rightarrow> string"
  lt_response :: "'r option \<Rightarrow> string"
  lt_duration :: string
  lt_code :: "code \<Rightarrow> string"
  lt_request_view :: "'q \<Rightarrow> logged_request"
  lt_response_view :: "'r \<Rightarrow> logged_response"

definition log_metadata :: "ctx \<Rightarrow> string \<times> string" where
  "log_metadata c =
     (case ctx_metadata c of
        None \<Rightarrow> (''anonymous'', ''none'')
      | Some md \<Rightarrow>
          ((case md_first md ''username'' of None \<Rightarrow> ''anonymous'' | Some u \<Rightarrow> u),
           (case md_first md ''transaction_id'' of None \<Rightarrow> ''none'' | Some i \<Rightarrow> i)))"

definition request_line :: "('q, 'r) log_texts \<Rightarrow> string \<Rightarrow> ctx \<Rightarrow> 'q \<Rightarrow> string" where
  "request_line e method c req =
     (case log_metadata c of
        (username, transactionID) \<Rightarrow>
          ''[REQUEST] Method: '' @ method @ '', Client: '' @ username
          @ '', IP: '' @ (case lt_peer e of None \<Rightarrow> ''unknown'' | Some a \<Rightarrow> a)
          @ '', Transaction ID: '' @ transactionID @ '', Payload: '' @ lt_request e req)"

text \<open>Amount and client of a request.\<close>

fun log_details :: "string \<Rightarrow> logged_request \<Rightarrow> string \<times> string" where
  "log_details username (LogPayment v) = (fmt2f (pd_Amount v), pd_ClientName v)"
| "log_details username (LogBankPayment v) = (fmt2f (pr_Amount v), ''Account: '' @ pr_AccountNumber v)"
| "log_details username (LogBalance v) = (''N/A (Balance Check)'', bq_ClientName v)"
| "log_details username LogOtherRequest = (''N/A'', username)"

fun log_status :: "logged_response \<Rightarrow> string" where
  "log_status (LogPaymentResponse v) = (if resp_Success v then ''SUCCESS'' else ''FAILED: '' @ resp_Message v)"
| "log_status (LogRegistration s m) = (if s then ''SUCCESS'' else ''FAILED: '' @ m)"
| "log_status (LogAuth v) = (if ar_Success v then ''SUCCESS'' else ''FAILED: '' @ ar_Message v)"
| "log_status LogOtherResponse = ''COMPLETED''"

text \<open>The lines after the handler has returned; a nil response is of no known type.\<close>

definition outcome_lines ::
  "('q, 'r) log_texts \<Rightarrow> string \<Rightarrow> ctx \<Rightarrow> 'q \<Rightarrow> 'r go_result \<Rightarrow> string list" where
  "outcome_lines e method c req res =
     (case log_metadata c of
        (username, transactionID) \<Rightarrow>
          (case log_details username (lt_request_view e req) of
             (amountStr, clientName) \<Rightarrow>
               (case res of
                  (resp, Some err) \<Rightarrow>
                    (''[ERROR] Method: '' @ method @ '', Client: '' @ clientName @ '', Amount: '' @ amountStr
                       @ '', Transaction ID: '' @ transactionID @ '', Duration: '' @ lt_duration e
                       @ '', Code: '' @ lt_code e (err_code err) @ '', Message: '' @ err_message err)
                    # (if err_code err = DeadlineExceeded \<or> err_code err = Unavailable
                       then [''[RETRY_NEEDED] Transaction ID '' @ transactionID @ '' for client '' @ clientName
                               @ '' amount '' @ amountStr @ '' failed due to '' @ lt_code e (err_code err)
                               @ '': '' @ err_message err]
                       else [])
                | (resp, None) \<Rightarrow>
                    [''[RESPONSE] Method: '' @ method @ '', Client: '' @ clientName @ '', Amount: '' @ amountStr
                       @ '', Transaction ID: '' @ transactionID @ '', Duration: '' @ lt_duration e
                       @ '', Status: ''
                       @ log_status (case resp of None \<Rightarrow> LogOtherResponse | Some r \<Rightarrow> lt_response_view e r)
                       @ '', Response: '' @ lt_response e resp])))"

text \<open>After a panic nothing more is written.\<close>

definition GatewayLogging ::
  "('q, 'r) log_texts \<Rightarrow> ('w \<times> string list, 'q, 'r) interceptor" where
  "GatewayLogging e method handler c req s =
     (case handler c req (fst s, snd s @ [request_line e method c req]) of
        (s', None) \<Rightarrow> (s', None)
      | ((w', log), Some res) \<Rightarrow> ((w', log @ outcome_lines e method c req res), Some res))"

text \<open>A handler that writes no lines itself.\<close>

definition silent :: "('w, 'q, 'r) handler \<Rightarrow> ('w \<times> string list, 'q, 'r) handler" where
  "silent handler c req s = (case handler c req (fst s) of (w', r) \<Rightarrow> ((w', snd s), r))"

text \<open>The chain of RunServer with its log.\<close>

definition logging_chain ::
  "('q, 'r) log_texts \<Rightarrow> ('w \<Rightarrow> AuthService) \<Rightarrow> ('w \<times> string list, 'q, 'r) interceptor" where
  "logging_chain e authService =
     ChainInterceptors [RecoveryInterceptor, GatewayLogging e, AuthInterceptor (\<lambda>s. authService (fst s))]"

subsection \<open>The client\<close>

text \<open>A request line, and one for the reply or the error.\<close>

definition client_log_lines ::
  "(client_request \<Rightarrow> string) \<Rightarrow> (client_reply \<Rightarrow> string) \<Rightarrow> string \<Rightarrow> string \<Rightarrow> ctx \<Rightarrow> client_request
     \<Rightarrow> client_reply rpc \<Rightarrow> string list" where
  "client_log_lines show_request show_reply duration method c req r =
     (case extractRequestInfo c req of
        (clientName, amountStr, transactionID) \<Rightarrow>
          (let info = ''Method: '' @ method @ '', Client: '' @ clientName @ '', Amount: '' @ amountStr
                 @ '', Transaction ID: '' @ transactionID
           in [''[CLIENT REQUEST] '' @ info @ '', Payload: '' @ show_request req,
               (case r of
                  Inl e \<Rightarrow> ''[CLIENT ERROR] '' @ info @ '', Duration: '' @ duration @ '', Error: '' @ err_message e
                | Inr reply \<Rightarrow>
                    ''[CLIENT RESPONSE] '' @ info @ '', Duration: '' @ duration
                    @ '', Status: '' @ determineResponseStatus reply @ '', Response: '' @ show_reply reply)]))"

definition ClientLoggingInterceptor ::
  "(client_request \<Rightarrow> string) \<Rightarrow> (client_reply \<Rightarrow> string) \<Rightarrow> string \<Rightarrow> string \<Rightarrow> 'g invoker
     \<Rightarrow> ctx \<Rightarrow> client_request \<Rightarrow> 'g \<times> string list \<Rightarrow> ('g \<times> string list) \<times> client_reply rpc" where
  "ClientLoggingInterceptor show_request show_reply duration method invoke c req s =
     (case invoke c req (fst s) of
        (g', r) \<Rightarrow> ((g', snd s @ client_log_lines show_request show_reply duration method c req r), r))"

text \<open>
  Logging is outside of the retries, so the transaction id of the call, which the retry interceptor adds to a context of
  its own, is not in the lines.
\<close>

lemma client_lines_have_no_transaction_id:
  "ctx_metadata c = Some [(''username'', [u])] \<Longrightarrow> extractRequestInfo c (PaymentReq v) = (pd_ClientName v, fmt2f (pd_Amount v), '''')"
  by (simp add: extractRequestInfo_def client_extractTransactionID_def md_first_def gget_def)

lemma client_logging_is_transparent:
  "ClientLoggingInterceptor show_request show_reply duration method (ClientRetryInterceptor fresh method invoke) c req (tg, log)
     = (case client_chain fresh method invoke c req tg of
          (tg', r) \<Rightarrow> ((tg', log @ client_log_lines show_request show_reply duration method c req r), r))"
  by (simp add: ClientLoggingInterceptor_def client_chain_def split: prod.split)

subsection \<open>What a log changes\<close>

lemma AuthInterceptor_silent:
  "AuthInterceptor (\<lambda>s. svc (fst s)) method (silent h) c req s = silent (AuthInterceptor svc method h) c req s"
  by (cases s) (simp add: AuthInterceptor_def silent_def fails_def split: option.split)

definition all_lines :: "('q, 'r) log_texts \<Rightarrow> string \<Rightarrow> ctx \<Rightarrow> 'q \<Rightarrow> 'r go_result option \<Rightarrow> string list" where
  "all_lines e method c req r =
     request_line e method c req # (case r of None \<Rightarrow> [] | Some res \<Rightarrow> outcome_lines e method c req res)"

text \<open>The gateway's log is faithful and changes nothing. With the logging interceptor that writes lines, the chain of the
  gateway gives every request the answer, and the gateway the state, that it has with the interceptor that
  writes none, and appends one line for the request and, unless the handler panics, the lines for the result
  that left the authorization.\<close>

lemma gateway_logging_is_transparent:
  "logging_chain e svc method (silent h) c req (w, log) =
     (case server_chain svc method h c req w of
        (w', answer) \<Rightarrow> ((w', log @ all_lines e method c req (snd (AuthInterceptor svc method h c req w))), answer))"
proof -
  obtain w1 r where r: "AuthInterceptor svc method h c req w = (w1, r)" by fastforce
  then have inner: "AuthInterceptor (\<lambda>s. svc (fst s)) method (silent h) c req (w, l) = ((w1, l), r)" for l
    by (simp add: AuthInterceptor_silent) (simp add: silent_def)
  show ?thesis
    by (cases r)
      (simp_all add: logging_chain_def ChainInterceptors_def GatewayLogging_def RecoveryInterceptor_def inner r
        server_chain_unfold LoggingInterceptor_def all_lines_def split: prod.split)
qed

text \<open>A line that asks for a retry is written exactly for the two codes that the retry interceptors retry.\<close>

lemma retry_lines:
  "length (outcome_lines e method c req (resp, Some err)) = (if retryable (err_code err) then 2 else 1)"
  by (simp add: outcome_lines_def retryable_def split: prod.split)

end
