(* ===== verification/Strife_Routines.thy ===== *)
theory Strife_Routines
  imports Strife_Client_Manager Strife_Store
begin

text \<open>
  The goroutines that a ticker drives, and how they are stopped: the notification checker of the client
  (client/payment/notification.go and manager.go), the clean-up of the gateway's transaction manager
  (gateway/payment/transaction.go) and the one of the older record store (gateway/storage/transactions.go). A channel
  that is only closed is a boolean; closing it twice panics, which is \<open>None\<close>.
\<close>

subsection \<open>Notifications of the client\<close>

record notification_routine =
  nr_notifications :: notifications
  nr_stopChan_closed :: bool
  nr_running :: bool

definition NewNotificationManager :: notification_routine where
  "NewNotificationManager = \<lparr>nr_notifications = [], nr_stopChan_closed = False, nr_running = False\<rparr>"

definition StartNotificationChecker :: "notification_routine \<Rightarrow> notification_routine" where
  "StartNotificationChecker nr = nr\<lparr>nr_running := True\<rparr>"

text \<open>The two branches of the select. With both ready, Go takes either.\<close>

definition notification_tick ::
  "string list \<Rightarrow> notification_routine \<Rightarrow> notification_routine \<times> string list" where
  "notification_tick order nr =
     (if nr_running nr
      then (case checkNotifications order (nr_notifications nr) of
              (nm, lines) \<Rightarrow> (nr\<lparr>nr_notifications := nm\<rparr>, lines))
      else (nr, []))"

definition notification_stop_branch :: "notification_routine \<Rightarrow> notification_routine" where
  "notification_stop_branch nr =
     (if nr_running nr \<and> nr_stopChan_closed nr then nr\<lparr>nr_running := False\<rparr> else nr)"

definition NotificationStop :: "notification_routine \<Rightarrow> notification_routine option" where
  "NotificationStop nr =
     (if nr_stopChan_closed nr then None else Some (nr\<lparr>nr_stopChan_closed := True\<rparr>))"

text \<open>The boolean is whether the stop channel of the manager itself is closed.\<close>

definition OfflineManagerStop ::
  "bool \<times> notification_routine \<Rightarrow> (bool \<times> notification_routine) option" where
  "OfflineManagerStop m =
     (if fst m then None
      else case NotificationStop (snd m) of None \<Rightarrow> None | Some nr \<Rightarrow> Some (True, nr))"

text \<open>What the offline manager does with notifications, and the ticks in between.\<close>

datatype notice_event = Queued PendingPayment | StatusSet string string | NoticeTick "string list"

fun notices :: "notice_event list \<Rightarrow> notification_routine \<Rightarrow> notification_routine \<times> string list" where
  "notices [] nr = (nr, [])"
| "notices (Queued p # es) nr =
     notices es (nr\<lparr>nr_notifications := AddNotification p (nr_notifications nr)\<rparr>)"
| "notices (StatusSet i st # es) nr =
     notices es (nr\<lparr>nr_notifications := UpdateNotification i st (nr_notifications nr)\<rparr>)"
| "notices (NoticeTick order # es) nr =
     (case notification_tick order nr of
        (nr1, lines1) \<Rightarrow> (case notices es nr1 of (nr2, lines2) \<Rightarrow> (nr2, lines1 @ lines2)))"

lemma tick_empties:
  "nr_running nr \<Longrightarrow> nr_notifications (fst (notification_tick order nr)) = []"
  by (simp add: notification_tick_def checkNotifications_def GetAllNotifications_def)

lemma silent_updates:
  assumes "nr_notifications nr = []" and "\<forall>p. Queued p \<notin> set es"
  shows "snd (notices es nr) = [] \<and> nr_notifications (fst (notices es nr)) = []"
  using assms
proof (induction es nr rule: notices.induct)
  case (4 order es nr)
  have "nr_notifications (fst (notification_tick order nr)) = [] \<and> snd (notification_tick order nr) = []"
    using 4(2) by (simp add: notification_tick_def checkNotifications_def GetAllNotifications_def)
  with 4 show ?case by (cases "notification_tick order nr") (auto simp: case_prod_beta)
qed (auto simp: UpdateNotification_def)

text \<open>
  A tick takes the notice away, whatever its state. When it comes between the queueing of a payment and its
  completion, it shows QUEUED, and the completion is never shown.
\<close>

lemma completion_after_a_tick_is_not_shown:
  assumes "nr_running nr" and "\<forall>q. Queued q \<notin> set es"
  shows "snd (notices (Queued p # NoticeTick order # es) nr) =
    snd (notification_tick order (nr\<lparr>nr_notifications := AddNotification p (nr_notifications nr)\<rparr>))"
proof -
  let ?nr = "nr\<lparr>nr_notifications := AddNotification p (nr_notifications nr)\<rparr>"
  have "nr_notifications (fst (notification_tick order ?nr)) = []" by (rule tick_empties) (simp add: assms(1))
  from silent_updates [OF this assms(2)] show ?thesis by (simp add: case_prod_beta)
qed

lemma second_stop_panics:
  "OfflineManagerStop m = Some m' \<Longrightarrow> OfflineManagerStop m' = None"
  by (auto simp: OfflineManagerStop_def NotificationStop_def split: option.splits if_splits)

subsection \<open>The clean-up of the transaction manager\<close>

record cleanup_routine =
  cr_manager :: TransactionManager
  cr_done_closed :: bool
  cr_running :: bool

definition start_cleanup :: "int \<Rightarrow> cleanup_routine" where
  "start_cleanup ttl = \<lparr>cr_manager = NewTransactionManager ttl, cr_done_closed = False, cr_running = True\<rparr>"

text \<open>A tick that is in the channel already can still be taken after the ticker is stopped.\<close>

datatype cleanup_event = CleanupTick int | CleanupDone

fun cleanupRoutine :: "cleanup_event \<Rightarrow> cleanup_routine \<Rightarrow> cleanup_routine" where
  "cleanupRoutine (CleanupTick now) cr =
     (if cr_running cr then cr\<lparr>cr_manager := cleanupExpiredTransactions now (cr_manager cr)\<rparr> else cr)"
| "cleanupRoutine CleanupDone cr =
     (if cr_running cr \<and> cr_done_closed cr then cr\<lparr>cr_running := False\<rparr> else cr)"

definition TransactionManagerStop :: "cleanup_routine \<Rightarrow> cleanup_routine option" where
  "TransactionManagerStop cr =
     (if cr_done_closed cr then None else Some (cr\<lparr>cr_done_closed := True\<rparr>))"

text \<open>A record that is not older than the limit survives every clean-up; a loop that has ended changes nothing.\<close>

lemma gdel_fold_other: "i \<notin> set is \<Longrightarrow> map_of (foldl (\<lambda>m i. gdel i m) m is) i = map_of m i"
  by (induction "is" arbitrary: m) auto

lemma young_records_survive:
  assumes "gmap_ok (tm_transactions (cr_manager cr))"
    and "map_of (tm_transactions (cr_manager cr)) i = Some r"
    and "now - tx_time r \<le> tm_ttl (cr_manager cr)"
  shows "map_of (tm_transactions (cr_manager (cleanupRoutine (CleanupTick now) cr))) i = Some r"
proof -
  let ?txs = "tm_transactions (cr_manager cr)"
  let ?old = "map fst (filter (\<lambda>(_, r). now - tx_time r > tm_ttl (cr_manager cr)) ?txs)"
  have "i \<notin> set ?old"
  proof
    assume "i \<in> set ?old"
    then obtain r' where "(i, r') \<in> set ?txs" "now - tx_time r' > tm_ttl (cr_manager cr)" by auto
    then show False using assms by (simp add: gmap_ok_def)
  qed
  from gdel_fold_other [OF this, of ?txs] assms(2) show ?thesis
    by (simp add: cleanupExpiredTransactions_def Let_def)
qed

lemma ended_cleanup: "\<not> cr_running cr \<Longrightarrow> cleanupRoutine e cr = cr"
  by (cases e) simp_all

subsection \<open>The clean-up of the older record store\<close>

text \<open>\<open>None\<close> is the nil ticker, otherwise whether it ticks. Stopping a ticker does not close its channel.\<close>

record storage_routine =
  sg_storage :: TransactionStorage
  sg_cleanupTicker :: "bool option"
  sg_goroutines :: nat

definition StartCleanupRoutine :: "storage_routine \<Rightarrow> storage_routine" where
  "StartCleanupRoutine s =
     s\<lparr>sg_cleanupTicker := Some True, sg_goroutines := sg_goroutines s + 1\<rparr>"

definition StopCleanupRoutine :: "storage_routine \<Rightarrow> storage_routine" where
  "StopCleanupRoutine s =
     (case sg_cleanupTicker s of None \<Rightarrow> s | Some _ \<Rightarrow> s\<lparr>sg_cleanupTicker := Some False\<rparr>)"

definition storage_tick :: "int \<Rightarrow> storage_routine \<Rightarrow> storage_routine" where
  "storage_tick now s =
     (if sg_cleanupTicker s = Some True \<and> 0 < sg_goroutines s
      then s\<lparr>sg_storage := StorageCleanupExpired now (sg_storage s)\<rparr> else s)"

text \<open>After the stop nothing is cleaned up any more, but the goroutine waits for ever.\<close>

lemma stopped_storage_keeps_its_goroutine:
  assumes "s' = StopCleanupRoutine (StartCleanupRoutine s)"
  shows "storage_tick now s' = s'" and "sg_goroutines s' = sg_goroutines s + 1"
  using assms by (simp_all add: StopCleanupRoutine_def StartCleanupRoutine_def storage_tick_def)

end
