(* ===== verification/Strife_Client_Theorems.thy ===== *)
theory Strife_Client_Theorems
  imports Strife_Client_Manager
begin

text \<open>
  The properties of the client's offline queue: what a run over the queue does to it, for any gateway, and
  invariants of all interleavings of the user, the goroutines and restarts.
\<close>

named_theorems queue_simps "queue and file after the operations of the manager"

subsection \<open>Effects of the operations\<close>

lemma save_queue_sel [queue_simps]:
  "om_pendingPayments (save_queue m) = om_pendingPayments m"
  "om_isConnected (save_queue m) = om_isConnected m"
  "om_file (save_queue m) = SavePendingPayments (om_writable m) (om_pendingPayments m) (om_file m)"
  by (simp_all add: save_queue_def)

lemma notify_sel [queue_simps]:
  "om_pendingPayments (notify i st m) = om_pendingPayments m"
  "om_file (notify i st m) = om_file m"
  by (simp_all add: notify_def)

definition set_status :: "string \<Rightarrow> string \<Rightarrow> PendingPayment list \<Rightarrow> PendingPayment list" where
  "set_status i st = update_first (\<lambda>p. pp_TransactionID p = i) (\<lambda>p. p\<lparr>pp_Status := st\<rparr>)"

definition set_retry :: "string \<Rightarrow> PendingPayment list \<Rightarrow> PendingPayment list" where
  "set_retry i = update_first (\<lambda>p. pp_TransactionID p = i)
     (\<lambda>p. p\<lparr>pp_RetryCount := i64 (pp_RetryCount p + 1), pp_Status := StatusPending\<rparr>)"

definition unfinished :: "PendingPayment list \<Rightarrow> PendingPayment list" where
  "unfinished = filter (\<lambda>p. pp_Status p \<noteq> StatusCompleted)"

lemma updates_pending [queue_simps]:
  "om_pendingPayments (updatePaymentStatus i st m) = set_status i st (om_pendingPayments m)"
  "om_pendingPayments (updatePaymentRetry i m) = set_retry i (om_pendingPayments m)"
  by (simp_all add: updatePaymentStatus_def updatePaymentRetry_def set_status_def set_retry_def queue_simps)

lemma cleanup_pending [queue_simps]:
  "om_pendingPayments (cleanupCompletedPayments m) = unfinished (om_pendingPayments m)"
proof (cases "length (om_pendingPayments m) = length (unfinished (om_pendingPayments m))")
  case True
  then have "unfinished (om_pendingPayments m) = om_pendingPayments m"
    unfolding unfinished_def by (metis filter_id_conv length_filter_less nat_neq_iff)
  then show ?thesis using True by (simp add: cleanupCompletedPayments_def Let_def unfinished_def)
next
  case False
  then show ?thesis by (simp add: cleanupCompletedPayments_def Let_def unfinished_def queue_simps)
qed

lemma send_one_manager:
  assumes "send_one fresh conn p (m, tg) = ((m', tg'), r)"
  shows "m' = m\<lparr>om_processor := om_processor m'\<rparr>"
  using assms by (auto simp: send_one_def split: prod.splits)

lemma send_one_sel:
  assumes "send_one fresh conn p (m, tg) = ((m', tg'), r)"
  shows "om_pendingPayments m' = om_pendingPayments m" "om_file m' = om_file m"
  using assms by (auto simp: send_one_def split: prod.splits)

lemma update_first_ids:
  "(\<And>p. pp_TransactionID (f p) = pp_TransactionID p) \<Longrightarrow>
   map pp_TransactionID (update_first P f ps) = map pp_TransactionID ps"
  by (induction ps) auto

lemma set_ids [simp]:
  "map pp_TransactionID (set_status i st ps) = map pp_TransactionID ps"
  "map pp_TransactionID (set_retry i ps) = map pp_TransactionID ps"
  by (simp_all add: set_status_def set_retry_def update_first_ids)

lemma set_length [simp]:
  "length (set_status i st ps) = length ps" "length (set_retry i ps) = length ps"
  using set_ids by (metis length_map)+

subsection \<open>What is recorded for one payment\<close>

text \<open>The queue after a payment with id \<open>i\<close> was sent with result \<open>r\<close>.\<close>

definition recorded :: "string \<Rightarrow> bool \<times> string \<Rightarrow> PendingPayment list \<Rightarrow> PendingPayment list" where
  "recorded i r ps =
     (if fst r then set_status i StatusCompleted ps
      else if IsConnectionError (snd r) then set_retry i ps else set_status i StatusPending ps)"

lemma record_result_pending [queue_simps]:
  "om_pendingPayments (fst (record_result i r m)) = recorded i r (om_pendingPayments m)"
  by (cases r) (auto simp: record_result_def recorded_def queue_simps)

lemma run_worker_skip:
  "pp_Status p \<noteq> StatusPending \<Longrightarrow> run_worker fresh conn (Loop (p # ps)) s = run_worker fresh conn (Loop ps) s"
  by (cases s) (simp add: run_worker.simps [of _ _ "Loop (p # ps)"])

lemma run_worker_end:
  "run_worker fresh conn (Loop []) (m, tg) = (cleanupCompletedPayments m, tg)"
  by (simp add: run_worker.simps)

lemma run_worker_send:
  assumes "pp_Status p = StatusPending"
    and "send_one fresh conn p (updatePaymentStatus (pp_TransactionID p) StatusProcessing m, tg) = ((m1, tg1), r)"
    and "record_result (pp_TransactionID p) r m1 = (m2, go_on)"
  shows "run_worker fresh conn (Loop (p # ps)) (m, tg) =
    run_worker fresh conn (Loop (if go_on then ps else [])) (m2, tg1)"
  using assms by (simp add: run_worker.simps [of _ _ "Loop (p # ps)"] run_worker.simps [of _ _ "Sending p ps"]
      run_worker.simps [of _ _ "Sent p r ps"])

text \<open>The rest of a run after one payment of the copy.\<close>

lemma run_worker_cases:
  obtains (skip) "pp_Status p \<noteq> StatusPending"
      "run_worker fresh conn (Loop (p # ps)) (m, tg) = run_worker fresh conn (Loop ps) (m, tg)"
  | (sent) m1 tg1 r m2 go_on where "pp_Status p = StatusPending"
      "send_one fresh conn p (updatePaymentStatus (pp_TransactionID p) StatusProcessing m, tg) = ((m1, tg1), r)"
      "om_pendingPayments m2 =
         recorded (pp_TransactionID p) r (set_status (pp_TransactionID p) StatusProcessing (om_pendingPayments m))"
      "go_on \<longleftrightarrow> fst r \<or> \<not> IsConnectionError (snd r)"
      "run_worker fresh conn (Loop (p # ps)) (m, tg) =
         run_worker fresh conn (Loop (if go_on then ps else [])) (m2, tg1)"
proof (cases "pp_Status p = StatusPending")
  case False
  then show ?thesis by (intro skip) (simp_all add: run_worker_skip)
next
  case True
  obtain m1 tg1 r where s: "send_one fresh conn p
      (updatePaymentStatus (pp_TransactionID p) StatusProcessing m, tg) = ((m1, tg1), r)"
    by (metis prod.exhaust)
  obtain m2 go_on where rr: "record_result (pp_TransactionID p) r m1 = (m2, go_on)" by fastforce
  have "om_pendingPayments m2 = recorded (pp_TransactionID p) r (om_pendingPayments m1)"
    using record_result_pending [of "pp_TransactionID p" r m1] rr by simp
  moreover have "go_on \<longleftrightarrow> fst r \<or> \<not> IsConnectionError (snd r)"
    using rr by (auto simp: record_result_def split: prod.splits if_splits)
  ultimately show ?thesis
    by (intro sent [OF True s _ _ run_worker_send [OF True s rr]])
      (simp_all add: send_one_sel [OF s] queue_simps)
qed

subsection \<open>A gateway that accepts everything\<close>

definition make_payment :: string where
  "make_payment = ''/proto.PaymentGateway/MakePayment''"

text \<open>Every payment is answered with success.\<close>

definition accepts :: "'g connection \<Rightarrow> bool" where
  "accepts conn \<longleftrightarrow>
     (\<forall>c req g. \<exists>g' r. conn make_payment c req g = (g', Inr (PaymentReply r)) \<and> resp_Success r)"

text \<open>No request of payment \<open>p\<close> is answered with success.\<close>

definition refuses :: "'g connection \<Rightarrow> PendingPayment \<Rightarrow> bool" where
  "refuses conn p \<longleftrightarrow>
     (\<forall>c g g' r. conn make_payment c (PaymentReq (payment_details p)) g = (g', Inr r)
        \<longrightarrow> \<not> resp_Success (as_payment r))"

lemma client_retry_reply:
  "client_retry n invoke c req g = (g', Inr r) \<Longrightarrow> \<exists>g1. invoke c req g1 = (g', Inr r)"
proof (induction n invoke c req g rule: client_retry.induct)
  case (1 n invoke c req g)
  obtain g1 x where i: "invoke c req g = (g1, x)" by fastforce
  show ?case
  proof (cases x)
    case (Inr y)
    then show ?thesis using 1(2) i by (auto simp: client_retry.simps [of n])
  next
    case (Inl e)
    show ?thesis
    proof (cases "\<not> isRetryableError (err_code e) \<or> n \<ge> 3")
      case True
      then show ?thesis using 1(2) i Inl by (simp add: client_retry.simps [of n])
    next
      case False
      then have "client_retry (n + 1) invoke c req g1 = (g', Inr r)"
        using 1(2) i Inl by (simp add: client_retry.simps [of n])
      then show ?thesis using 1(1) [OF i [symmetric] Inl False] by simp
    qed
  qed
qed

lemma stub_call:
  obtains c' t' where "stub fresh conn method c req (t, g) =
    (case client_retry 1 (conn method) c' req g of (g', r) \<Rightarrow> ((t', g'), r))"
proof -
  obtain n pay a r q where i: "extractRetryInfo req = (n, pay, a, r, q)" by (metis prod.exhaust)
  obtain t' c' where e: "(if pay \<and> method = ''/proto.PaymentGateway/MakePayment''
      then ensureTransactionID fresh (retry_metadata req) c t else (t, c)) = (t', c')"
    by (metis prod.exhaust)
  show ?thesis
    by (rule that [of t' c']) (simp only: stub_def client_chain_def ClientRetryInterceptor_def i e prod.case)
qed

lemma send_one_result:
  assumes "send_one fresh conn p s = (s', r)"
  obtains c g g' x where "client_retry 1 (conn make_payment) c (PaymentReq (payment_details p)) g = (g', x)"
    and "fst r \<longleftrightarrow> (case x of Inl _ \<Rightarrow> False | Inr y \<Rightarrow> resp_Success (as_payment y))"
proof -
  obtain m tg where s: "s = (m, tg)" by (rule prod.exhaust)
  obtain pp1 t1 g1 b where a: "authenticateUser fresh conn (pp_ClientName p) (om_processor m, tg) = ((pp1, (t1, g1)), b)"
    by (metis prod.exhaust)
  obtain c' t' where st: "stub fresh conn make_payment (payment_context p) (PaymentReq (payment_details p)) (t1, g1) =
    (case client_retry 1 (conn make_payment) c' (PaymentReq (payment_details p)) g1 of (g', r) \<Rightarrow> ((t', g'), r))"
    by (rule stub_call)
  obtain g2 x where cr: "client_retry 1 (conn make_payment) c' (PaymentReq (payment_details p)) g1 = (g2, x)"
    by fastforce
  have "fst r \<longleftrightarrow> (case x of Inl _ \<Rightarrow> False | Inr y \<Rightarrow> resp_Success (as_payment y))"
    using assms st a cr unfolding s send_one_def ProcessPendingPayment_def sendPayment_def make_payment_def
    by (auto split: sum.splits)
  with cr show ?thesis by (rule that)
qed

lemma accepts_send:
  assumes "accepts conn" and "send_one fresh conn p s = (s', r)"
  shows "fst r"
  using assms(2)
proof (rule send_one_result)
  fix c g g' x
  assume cr: "client_retry 1 (conn make_payment) c (PaymentReq (payment_details p)) g = (g', x)"
    and r: "fst r \<longleftrightarrow> (case x of Inl _ \<Rightarrow> False | Inr y \<Rightarrow> resp_Success (as_payment y))"
  obtain g1 y where "conn make_payment c (PaymentReq (payment_details p)) g = (g1, Inr (PaymentReply y))"
    "resp_Success y"
    using assms(1) unfolding accepts_def by blast
  then show ?thesis using cr r by (auto simp: client_retry.simps [of "Suc 0"])
qed

lemma refuses_send:
  assumes "refuses conn p" and "send_one fresh conn p s = (s', r)"
  shows "\<not> fst r"
  using assms(2)
proof (rule send_one_result)
  fix c g g' x
  assume cr: "client_retry 1 (conn make_payment) c (PaymentReq (payment_details p)) g = (g', x)"
    and r: "fst r \<longleftrightarrow> (case x of Inl _ \<Rightarrow> False | Inr y \<Rightarrow> resp_Success (as_payment y))"
  show ?thesis
  proof (cases x)
    case (Inr y)
    obtain g1 where "conn make_payment c (PaymentReq (payment_details p)) g1 = (g', Inr y)"
      using client_retry_reply [OF cr [unfolded Inr]] ..
    then show ?thesis using assms(1) r Inr by (auto simp: refuses_def)
  qed (use r in simp)
qed

lemma set_status_twice [simp]: "set_status i a (set_status i b qs) = set_status i a qs"
  by (induction qs) (simp_all add: set_status_def)

fun complete_all :: "PendingPayment list \<Rightarrow> PendingPayment list \<Rightarrow> PendingPayment list" where
  "complete_all [] qs = qs"
| "complete_all (p # ps) qs =
     complete_all ps (if pp_Status p = StatusPending
       then set_status (pp_TransactionID p) StatusCompleted qs else qs)"

lemma run_worker_accepted:
  assumes "accepts conn"
  shows "om_pendingPayments (fst (run_worker fresh conn (Loop ps) (m, tg))) =
    unfinished (complete_all ps (om_pendingPayments m))"
proof (induction ps arbitrary: m tg)
  case Nil
  then show ?case by (simp add: run_worker_end queue_simps)
next
  case (Cons p ps)
  show ?case
  proof (cases rule: run_worker_cases [of p fresh conn ps m tg])
    case skip
    then show ?thesis by (simp add: Cons.IH)
  next
    case (sent m1 tg1 r m2 go_on)
    have "fst r" by (rule accepts_send [OF assms sent(2)])
    then show ?thesis using sent by (simp add: Cons.IH recorded_def)
  qed
qed

lemma set_status_absent: "i \<notin> pp_TransactionID ` set ps \<Longrightarrow> set_status i st (ps @ qs) = ps @ set_status i st qs"
  by (induction ps) (auto simp: set_status_def)

definition completed :: "PendingPayment \<Rightarrow> PendingPayment" where
  "completed p = (if pp_Status p = StatusPending then p\<lparr>pp_Status := StatusCompleted\<rparr> else p)"

lemma complete_all_distinct:
  "distinct (map pp_TransactionID (pre @ ps)) \<Longrightarrow> complete_all ps (pre @ ps) = pre @ map completed ps"
proof (induction ps arbitrary: pre)
  case Nil
  then show ?case by simp
next
  case (Cons p ps)
  have "(if pp_Status p = StatusPending
      then set_status (pp_TransactionID p) StatusCompleted (pre @ p # ps) else pre @ p # ps)
    = (pre @ [completed p]) @ ps"
    using Cons.prems by (simp add: set_status_absent) (simp add: set_status_def completed_def)
  moreover have "pp_TransactionID (completed p) = pp_TransactionID p" by (simp add: completed_def)
  ultimately show ?case using Cons.IH [of "pre @ [completed p]"] Cons.prems by simp
qed

lemma unfinished_completed:
  "unfinished (map completed ps) =
   filter (\<lambda>p. pp_Status p \<noteq> StatusPending \<and> pp_Status p \<noteq> StatusCompleted) ps"
  by (induction ps) (auto simp: unfinished_def completed_def)

lemma processPayments_run:
  "processPayments fresh conn (m, tg) =
     (if om_pendingPayments m = [] then (m, tg) else run_worker fresh conn (Loop (om_pendingPayments m)) (m, tg))"
  by (simp add: processPayments_def run_worker.simps [of _ _ Start])

text \<open>C24. Against a gateway that answers every payment with success, one uninterrupted run over a
  queue whose transaction ids are distinct leaves exactly the payments that were neither pending nor
  completed: every pending payment is settled and removed.\<close>

theorem accepted_payments_leave_the_queue:
  assumes "accepts conn" and "distinct (map pp_TransactionID (om_pendingPayments m))"
  shows "om_pendingPayments (fst (processPayments fresh conn (m, tg))) =
    filter (\<lambda>p. pp_Status p \<noteq> StatusPending \<and> pp_Status p \<noteq> StatusCompleted) (om_pendingPayments m)"
  using assms complete_all_distinct [of "[]" "om_pendingPayments m"]
  by (simp add: processPayments_run run_worker_accepted unfinished_completed)

text \<open>A queue of two payments, and a gateway that answers every payment with success.\<close>

definition queued :: "string \<Rightarrow> string \<Rightarrow> string \<Rightarrow> PendingPayment" where
  "queued c i status =
     \<lparr>pp_ClientName = c, pp_Amount = units 50, pp_TransactionID = i, pp_ReceiverName = ''Bob'',
      pp_RequestId = '''', pp_CreatedAt = 0, pp_RetryCount = 0, pp_Status = status\<rparr>"

definition manager_of :: "PendingPayment list \<Rightarrow> OfflinePaymentManager" where
  "manager_of ps = NewOfflinePaymentManager (Holds ps) True"

lemma manager_of_pending [simp]: "om_pendingPayments (manager_of ps) = ps"
  by (simp add: manager_of_def NewOfflinePaymentManager_def loadPendingPayments_def)

definition always :: "bool \<Rightarrow> string \<Rightarrow> unit connection" where
  "always ok msg = (\<lambda>method c req g. (g, Inr (PaymentReply (payment_response ok msg))))"

theorem accepted_payments_leave_the_queue_witness:
  "om_pendingPayments (fst (processPayments (\<lambda>n. itoa (int n)) (always True '''')
     (manager_of [queued ''Alice'' ''a'' ''pending'', queued ''Dave'' ''d'' ''processing'',
        queued ''Bob'' ''b'' ''pending''], (\<lparr>tc_cache = [], tc_drawn = 0\<rparr>, ()))))
   = [queued ''Dave'' ''d'' ''processing'']"
proof -
  let ?ps = "[queued ''Alice'' ''a'' ''pending'', queued ''Dave'' ''d'' ''processing'', queued ''Bob'' ''b'' ''pending'']"
  have "accepts (always True '''')" by (simp add: accepts_def always_def payment_response_def)
  moreover have "distinct (map pp_TransactionID (om_pendingPayments (manager_of ?ps)))"
    by (simp add: queued_def)
  ultimately show ?thesis
    by (subst accepted_payments_leave_the_queue) (simp_all add: queued_def status_defs)
qed

subsection \<open>A payment the gateway does not accept\<close>

definition payment_with :: "string \<Rightarrow> PendingPayment list \<Rightarrow> PendingPayment option" where
  "payment_with i ps = find (\<lambda>p. pp_TransactionID p = i) ps"

lemma payment_with_mem: "payment_with i ps = Some p \<Longrightarrow> p \<in> set ps"
  by (auto simp: payment_with_def find_Some_iff)

lemma payment_with_distinct:
  "distinct (map pp_TransactionID ps) \<Longrightarrow> p \<in> set ps \<Longrightarrow> payment_with (pp_TransactionID p) ps = Some p"
  by (induction ps) (auto simp: payment_with_def)

lemma payment_with_update:
  assumes "\<And>p. pp_TransactionID (f p) = pp_TransactionID p"
  shows "payment_with i (update_first (\<lambda>p. pp_TransactionID p = j) f ps) =
    (if i = j then map_option f (payment_with i ps) else payment_with i ps)"
  by (induction ps) (auto simp: payment_with_def assms)

lemma payment_with_set [queue_simps]:
  "payment_with i (set_status j st ps) =
     (if i = j then map_option (\<lambda>p. p\<lparr>pp_Status := st\<rparr>) (payment_with i ps) else payment_with i ps)"
  "payment_with i (set_retry j ps) =
     (if i = j then map_option (\<lambda>p. p\<lparr>pp_RetryCount := i64 (pp_RetryCount p + 1), pp_Status := StatusPending\<rparr>)
        (payment_with i ps) else payment_with i ps)"
  by (simp_all add: set_status_def set_retry_def payment_with_update)

lemma payment_with_unfinished [queue_simps]:
  "payment_with i ps = Some p \<Longrightarrow> pp_Status p \<noteq> StatusCompleted \<Longrightarrow> payment_with i (unfinished ps) = Some p"
  by (induction ps) (auto simp: payment_with_def unfinished_def split: if_splits)

lemma payment_with_recorded:
  assumes "i \<noteq> j"
  shows "payment_with i (recorded j r (set_status j st ps)) = payment_with i ps"
  using assms by (simp add: recorded_def queue_simps)

lemma recorded_refused:
  assumes "payment_with i ps = Some (p\<lparr>pp_RetryCount := n\<rparr>)" and "\<not> fst r" and "pp_Status p = StatusPending"
  shows "\<exists>k. payment_with i (recorded i r (set_status i StatusProcessing ps)) = Some (p\<lparr>pp_RetryCount := k\<rparr>)"
proof (cases "IsConnectionError (snd r)")
  case True
  with assms show ?thesis
    by (intro exI [of _ "i64 (n + 1)"]) (cases p, simp add: recorded_def queue_simps)
next
  case False
  with assms show ?thesis
    by (intro exI [of _ n]) (cases p, simp add: recorded_def queue_simps)
qed

text \<open>A payment that is not in the copy keeps its place in the queue.\<close>

lemma run_worker_absent:
  assumes "i \<notin> pp_TransactionID ` set ps" and "payment_with i (om_pendingPayments m) = Some p"
    and "pp_Status p \<noteq> StatusCompleted"
  shows "payment_with i (om_pendingPayments (fst (run_worker fresh conn (Loop ps) (m, tg)))) = Some p"
  using assms
proof (induction ps arbitrary: m tg)
  case Nil
  then show ?case by (simp add: run_worker_end queue_simps)
next
  case (Cons q ps)
  show ?case
  proof (cases rule: run_worker_cases [of q fresh conn ps m tg])
    case skip
    then show ?thesis using Cons by simp
  next
    case (sent m1 tg1 r m2 go_on)
    have "payment_with i (om_pendingPayments m2) = Some p"
      using Cons.prems sent(3) by (simp add: payment_with_recorded)
    then show ?thesis
      using Cons sent(5) by (cases go_on) (simp_all add: run_worker_end queue_simps)
  qed
qed

lemma run_worker_refused:
  assumes "refuses conn p" and "pp_Status p = StatusPending"
    and "distinct (map pp_TransactionID ps)" and "p \<in> set ps"
    and "payment_with (pp_TransactionID p) (om_pendingPayments m) = Some (p\<lparr>pp_RetryCount := n\<rparr>)"
  shows "\<exists>n. payment_with (pp_TransactionID p)
    (om_pendingPayments (fst (run_worker fresh conn (Loop ps) (m, tg)))) = Some (p\<lparr>pp_RetryCount := n\<rparr>)"
  using assms(3-5)
proof (induction ps arbitrary: m tg)
  case Nil
  then show ?case by simp
next
  case (Cons q ps)
  let ?i = "pp_TransactionID p"
  show ?case
  proof (cases rule: run_worker_cases [of q fresh conn ps m tg])
    case skip
    then show ?thesis using Cons.IH [of m tg] Cons.prems assms(2) by auto
  next
    case (sent m1 tg1 r m2 go_on)
    show ?thesis
    proof (cases "q = p")
      case True
      have "\<not> fst r" by (rule refuses_send [OF assms(1)]) (use sent(2) True in simp)
      then obtain k where "payment_with ?i (om_pendingPayments m2) = Some (p\<lparr>pp_RetryCount := k\<rparr>)"
        using recorded_refused [OF Cons.prems(3), of r] sent(3) True assms(2) by auto
      moreover have "?i \<notin> pp_TransactionID ` set (if go_on then ps else [])"
        using Cons.prems(1) True by (cases go_on) simp_all
      ultimately show ?thesis
        using sent(5) assms(2) by (intro exI [of _ k]) (simp add: run_worker_absent)
    next
      case False
      then have "p \<in> set ps" using Cons.prems(2) by simp
      then have "?i \<noteq> pp_TransactionID q" using Cons.prems(1) by (metis distinct.simps(2) image_eqI image_set list.simps(9))
      then have "payment_with ?i (om_pendingPayments m2) = Some (p\<lparr>pp_RetryCount := n\<rparr>)"
        using sent(3) Cons.prems(3) by (simp add: payment_with_recorded)
      then show ?thesis
        using sent(5) Cons.IH [of m2 tg1] Cons.prems False assms(2)
        by (cases go_on) (auto simp: run_worker_end queue_simps)
    qed
  qed
qed

text \<open>C25. No payment is dropped by a run over the queue: a pending payment that the gateway never
  answers with success, whether it declines it, fails or cannot be reached, and whatever it does with the other
  payments, is still in the queue after the run, pending, changed at most in its number of
  retries. In particular a payment that is declined for good is sent again for ever.\<close>

theorem unaccepted_payment_is_kept:
  assumes "refuses conn p" and "p \<in> set (om_pendingPayments m)" and "pp_Status p = StatusPending"
    and "distinct (map pp_TransactionID (om_pendingPayments m))"
  shows "\<exists>n. p\<lparr>pp_RetryCount := n\<rparr> \<in> set (om_pendingPayments (fst (processPayments fresh conn (m, tg))))"
proof -
  have "p = p\<lparr>pp_RetryCount := pp_RetryCount p\<rparr>" by simp
  then have "payment_with (pp_TransactionID p) (om_pendingPayments m) = Some (p\<lparr>pp_RetryCount := pp_RetryCount p\<rparr>)"
    using payment_with_distinct [OF assms(4,2)] by simp
  from run_worker_refused [OF assms(1,3,4,2) this, of fresh tg] obtain n
    where "payment_with (pp_TransactionID p) (om_pendingPayments
        (fst (run_worker fresh conn (Loop (om_pendingPayments m)) (m, tg)))) = Some (p\<lparr>pp_RetryCount := n\<rparr>)" ..
  moreover have "om_pendingPayments m \<noteq> []" using assms(2) by auto
  ultimately show ?thesis
    by (intro exI [of _ n] payment_with_mem) (simp add: processPayments_run)
qed

theorem unaccepted_payment_is_kept_witness:
  "\<exists>n. (queued ''Alice'' ''a'' ''pending'')\<lparr>pp_RetryCount := n\<rparr>
     \<in> set (om_pendingPayments (fst (processPayments (\<lambda>n. itoa (int n)) (always False ''Insufficient funds'')
       (manager_of [queued ''Bob'' ''b'' ''pending'', queued ''Alice'' ''a'' ''pending''],
        (\<lparr>tc_cache = [], tc_drawn = 0\<rparr>, ())))))"
  by (rule unaccepted_payment_is_kept)
    (simp_all add: refuses_def always_def payment_response_def queued_def status_defs)

subsection \<open>Invariants of all interleavings\<close>

text \<open>An invariant of the steps holds in every state that is reached.\<close>

lemma client_invariant:
  assumes "client_reaches fresh conn s0 s" and "I s0"
    and "\<And>s s'. I s \<Longrightarrow> client_step fresh conn s s' \<Longrightarrow> I s'"
  shows "I s"
  using assms(1) unfolding client_reaches_def
  by (induction rule: rtranclp_induct) (use assms(2,3) in blast)+

text \<open>
  A property of queue and file that every operation of the manager keeps: \<open>Q\<close> of the queue is kept by
  queueing, by recording and by the clean-up, and the file, once it is loaded, satisfies it.
\<close>

definition file_ok :: "(PendingPayment list \<Rightarrow> bool) \<Rightarrow> queue_file \<Rightarrow> bool" where
  "file_ok Q file \<longleftrightarrow> (case LoadPendingPayments file of Inl _ \<Rightarrow> True | Inr ps \<Rightarrow> Q ps)"

definition queue_ok :: "(PendingPayment list \<Rightarrow> bool) \<Rightarrow> OfflinePaymentManager \<Rightarrow> bool" where
  "queue_ok Q m \<longleftrightarrow> Q (om_pendingPayments m) \<and> file_ok Q (om_file m)"

lemma queue_ok_other [simp]:
  "queue_ok Q (m\<lparr>om_isConnected := b\<rparr>) = queue_ok Q m" "queue_ok Q (m\<lparr>om_notifier := nm\<rparr>) = queue_ok Q m"
  "queue_ok Q (m\<lparr>om_processor := pp\<rparr>) = queue_ok Q m" "queue_ok Q (m\<lparr>om_writable := b\<rparr>) = queue_ok Q m"
  by (simp_all add: queue_ok_def)

locale queue_invariant =
  fixes Q :: "PendingPayment list \<Rightarrow> bool"
  assumes empty: "Q []"
    and queued: "Q ps \<Longrightarrow> \<forall>q \<in> set ps. pp_TransactionID q \<noteq> '''' \<Longrightarrow> pp_TransactionID p = '''' \<Longrightarrow> Q (ps @ [p])"
    and status: "Q ps \<Longrightarrow> Q (set_status i st ps)"
    and retried: "Q ps \<Longrightarrow> Q (set_retry i ps)"
    and cleaned: "Q ps \<Longrightarrow> Q (unfinished ps)"
begin

lemma save: "Q (om_pendingPayments m) \<Longrightarrow> file_ok Q (om_file m) \<Longrightarrow> queue_ok Q (save_queue m)"
  by (simp add: queue_ok_def file_ok_def save_queue_sel SavePendingPayments_def)

lemma update_status: "queue_ok Q m \<Longrightarrow> queue_ok Q (updatePaymentStatus i st m)"
  unfolding updatePaymentStatus_def by (rule save) (simp_all add: queue_ok_def status [unfolded set_status_def])

lemma update_retry: "queue_ok Q m \<Longrightarrow> queue_ok Q (updatePaymentRetry i m)"
  unfolding updatePaymentRetry_def by (rule save) (simp_all add: queue_ok_def retried [unfolded set_retry_def])

lemma cleanup: "queue_ok Q m \<Longrightarrow> queue_ok Q (cleanupCompletedPayments m)"
  using save [of "m\<lparr>om_pendingPayments := unfinished (om_pendingPayments m)\<rparr>"] cleaned
  by (simp add: cleanupCompletedPayments_def Let_def unfinished_def queue_ok_def)

lemma notified: "queue_ok Q (notify i st m) \<longleftrightarrow> queue_ok Q m"
  by (simp add: queue_ok_def notify_sel)

lemma result: "queue_ok Q m \<Longrightarrow> queue_ok Q (fst (record_result i r m))"
  by (cases r) (auto simp: record_result_def notified intro: update_status update_retry)

lemma worker:
  assumes "worker_step fresh conn w (m, tg) = (w', m', tg')" and "queue_ok Q m"
  shows "queue_ok Q m'"
proof (cases w)
  case Start
  then show ?thesis using assms by (auto split: if_splits)
next
  case (Loop ps)
  then show ?thesis
    using assms cleanup [of m] by (cases ps) (auto intro: update_status split: if_splits)
next
  case (Sending p ps)
  then show ?thesis using assms by (auto simp: queue_ok_def dest: send_one_sel split: prod.splits)
next
  case (Sent p r ps)
  then show ?thesis using assms result [of m "pp_TransactionID p" r] by (auto split: prod.splits)
qed

lemma queueing:
  assumes "queue_ok Q m" and "QueuePayment now c x '''' r q m = (m', go)"
  shows "queue_ok Q m'"
proof (cases "list_ex (already_queued c '''' q) (om_pendingPayments m)")
  case True
  then show ?thesis using assms by (simp add: QueuePayment_def)
next
  case False
  then have "\<forall>p \<in> set (om_pendingPayments m). pp_TransactionID p \<noteq> ''''"
    by (auto simp: list_ex_iff already_queued_def)
  then show ?thesis
    using assms False by (auto simp: QueuePayment_def Let_def queue_ok_def intro!: save [unfolded queue_ok_def] queued)
qed

lemma loading: "file_ok Q file \<Longrightarrow> queue_ok Q (NewOfflinePaymentManager file b)"
  by (cases "LoadPendingPayments file")
    (simp_all add: NewOfflinePaymentManager_def loadPendingPayments_def queue_ok_def file_ok_def empty)

lemma step: "client_step fresh conn s s' \<Longrightarrow> queue_ok Q (cs_manager s) \<Longrightarrow> queue_ok Q (cs_manager s')"
proof (induction rule: client_step.induct)
  case (queue now c x r q s m go)
  then show ?case using queueing by simp
next
  case (restart s)
  then show ?case using loading by (simp add: queue_ok_def)
qed (auto dest: worker)

lemma always:
  assumes "client_reaches fresh conn s0 s" and "queue_ok Q (cs_manager s0)"
  shows "queue_ok Q (cs_manager s)"
  using assms(1) by (rule client_invariant) (use assms(2) step in blast)+

end

text \<open>The queue holds at most one payment, under the empty transaction id.\<close>

definition at_most_one :: "PendingPayment list \<Rightarrow> bool" where
  "at_most_one ps \<longleftrightarrow> length ps \<le> 1 \<and> list_all (\<lambda>p. pp_TransactionID p = '''') ps"

lemma at_most_one_ids: "at_most_one ps \<longleftrightarrow> map pp_TransactionID ps \<in> {[], ['''']}"
  by (cases ps) (auto simp: at_most_one_def)

interpretation single: queue_invariant at_most_one
proof unfold_locales
  fix ps :: "PendingPayment list" and p :: PendingPayment
  assume a: "at_most_one ps" "\<forall>q \<in> set ps. pp_TransactionID q \<noteq> ''''" "pp_TransactionID p = ''''"
  then show "at_most_one (ps @ [p])" by (cases ps) (auto simp: at_most_one_def)
next
  fix ps
  assume "at_most_one ps"
  then show "at_most_one (unfinished ps)"
    using le_trans [OF length_filter_le [of "\<lambda>p. pp_Status p \<noteq> StatusCompleted" ps]]
    by (auto simp: at_most_one_def unfinished_def list_all_iff)
qed (simp_all add: at_most_one_ids)

text \<open>C16. The offline queue never holds more than one payment. The handler reads the
  transaction id from its own context, where it is always empty, and the queue refuses a payment whose
  transaction id it holds: in every state that any interleaving of users, goroutines, connection
  checks and restarts reaches from an empty queue, queue and file hold at most one payment, so every further payment is
  dropped although the user is told that it was queued.\<close>

theorem queue_holds_at_most_one:
  assumes "client_reaches fresh conn (started_client NoFile b tg) s"
  shows "length (om_pendingPayments (cs_manager s)) \<le> 1
    \<and> (\<forall>ps. LoadPendingPayments (om_file (cs_manager s)) = Inr ps \<longrightarrow> length ps \<le> 1)"
proof -
  have "queue_ok at_most_one (cs_manager (started_client NoFile b tg))"
    by (simp add: started_client_def single.loading file_ok_def at_most_one_def)
  from single.always [OF assms this] show ?thesis
    by (auto simp: queue_ok_def file_ok_def at_most_one_def)
qed

lemma client_reaches_refl [simp]: "client_reaches fresh conn s s"
  by (simp add: client_reaches_def)

lemma client_reaches_step:
  "client_reaches fresh conn s s' \<Longrightarrow> client_step fresh conn s' s'' \<Longrightarrow> client_reaches fresh conn s s''"
  by (simp add: client_reaches_def)

text \<open>A process in which Bob queued a payment after Alice.\<close>

definition after_alice_and_bob :: "unit client_process" where
  "after_alice_and_bob =
     (let s0 = started_client NoFile True (\<lparr>tc_cache = [], tc_drawn = 0\<rparr>, ());
          s1 = s0\<lparr>cs_manager := fst (QueuePayment 0 ''Alice'' (units 50)
                  (client_extractTransactionID (user_context ''Alice'')) ''Bob'' ''Alice_req_0'' (cs_manager s0)),
                  cs_workers := cs_workers s0 @ (if False then [Start] else [])\<rparr>
      in s1\<lparr>cs_manager := fst (QueuePayment 1 ''Bob'' (units 20)
                  (client_extractTransactionID (user_context ''Bob'')) ''Dave'' ''Bob_req_0'' (cs_manager s1)),
                  cs_workers := cs_workers s1 @ (if False then [Start] else [])\<rparr>)"

theorem queue_holds_at_most_one_witness:
  "map pp_ClientName (om_pendingPayments (cs_manager after_alice_and_bob)) = [''Alice'']"
proof -
  let ?s0 = "started_client NoFile True (\<lparr>tc_cache = [], tc_drawn = 0\<rparr>, ()) :: unit client_process"
  have q: "QueuePayment now c x i r q m = (fst (QueuePayment now c x i r q m), False)"
    if "\<not> om_isConnected m" for now c x i r q m
    using that by (simp add: QueuePayment_def Let_def)
  have "client_reaches (\<lambda>n. itoa (int n)) (always True '''') ?s0 after_alice_and_bob"
    unfolding after_alice_and_bob_def Let_def
    by (rule client_reaches_step [OF client_reaches_step [OF client_reaches_refl]];
        rule client_step.queue, rule q)
      (simp_all add: started_client_def NewOfflinePaymentManager_def loadPendingPayments_def
        QueuePayment_def Let_def save_queue_def)
  then have "length (om_pendingPayments (cs_manager after_alice_and_bob)) \<le> 1"
    by (rule queue_holds_at_most_one [THEN conjunct1])
  moreover have "take 1 (map pp_ClientName (om_pendingPayments (cs_manager after_alice_and_bob))) = [''Alice'']"
    by code_simp
  ultimately show ?thesis by (simp add: take_map [symmetric])
qed

subsection \<open>A restart while a payment was sent\<close>

text \<open>Goroutines that have nothing to send: the only payment of the queue is not pending.\<close>

definition nothing_to_send :: "PendingPayment \<Rightarrow> worker \<Rightarrow> bool" where
  "nothing_to_send p w \<longleftrightarrow> w = Start \<or> w = Loop [] \<or> w = Loop [p]"

definition blocked :: "PendingPayment \<Rightarrow> OfflinePaymentManager \<Rightarrow> bool" where
  "blocked p m \<longleftrightarrow> om_pendingPayments m = [p] \<and> om_file m = Holds [p]"

definition all_blocked :: "PendingPayment \<Rightarrow> 'g client_process \<Rightarrow> bool" where
  "all_blocked p s \<longleftrightarrow>
     blocked p (cs_manager s) \<and> (\<forall>w \<in> set (cs_workers s) \<union> set_option (cs_checker s). nothing_to_send p w)"

lemma blocked_other [simp]:
  "blocked p (m\<lparr>om_isConnected := b\<rparr>) = blocked p m" "blocked p (m\<lparr>om_notifier := nm\<rparr>) = blocked p m"
  "blocked p (m\<lparr>om_processor := pp\<rparr>) = blocked p m" "blocked p (m\<lparr>om_writable := b\<rparr>) = blocked p m"
  by (simp_all add: blocked_def)

lemma blocked_worker:
  assumes "worker_step fresh conn w (m, tg) = (w', m', tg')" and "blocked p m" and "nothing_to_send p w"
    and "pp_Status p = StatusProcessing"
  shows "m' = m \<and> tg' = tg \<and> (\<forall>v. w' = Some v \<longrightarrow> nothing_to_send p v)"
  using assms by (auto simp: nothing_to_send_def blocked_def cleanupCompletedPayments_def)

lemma blocked_queue:
  assumes "QueuePayment now c x '''' r q m = (m', go)" and "blocked p m" and "pp_TransactionID p = ''''"
  shows "m' = m \<and> \<not> go"
  using assms by (simp add: QueuePayment_def blocked_def already_queued_def)

lemma blocked_load: "blocked p (NewOfflinePaymentManager (Holds [p]) b)"
  by (simp add: blocked_def NewOfflinePaymentManager_def loadPendingPayments_def)

lemma blocked_step:
  assumes "client_step fresh conn s s'" and "all_blocked p s"
    and "pp_Status p = StatusProcessing" and "pp_TransactionID p = ''''"
  shows "all_blocked p s'"
  using assms
proof (induction rule: client_step.induct)
  case (queue now c x r q s m go)
  then show ?case using blocked_queue [of now c x r q "cs_manager s" m go p] by (simp add: all_blocked_def)
next
  case (work i s w m tg)
  have "nothing_to_send p (cs_workers s ! i)" using work by (simp add: all_blocked_def)
  with blocked_worker [OF work(2)] work show ?case
    by (auto simp: all_blocked_def dest!: set_update_subset_insert [THEN subsetD])
next
  case (finish i s m tg)
  have "nothing_to_send p (cs_workers s ! i)" using finish by (simp add: all_blocked_def)
  with blocked_worker [OF finish(2)] finish show ?case
    by (auto simp: all_blocked_def dest: in_set_takeD in_set_dropD)
next
  case (restart s)
  then show ?case using blocked_load by (simp add: all_blocked_def) (simp add: blocked_def)
next
  case (check s v w m tg)
  with blocked_worker [OF check(2)] show ?case by (auto simp: all_blocked_def)
next
  case (checked s v m tg)
  with blocked_worker [OF checked(2)] show ?case by (auto simp: all_blocked_def)
qed (auto simp: all_blocked_def nothing_to_send_def)

text \<open>C36. A client that is stopped while a payment is being sent leaves it with status
  "processing" in the queue file. After the restart this payment is never sent again, and it blocks the queue for
  ever: in every state that any interleaving reaches, through further restarts as well, the queue is exactly this
  payment, and no goroutine is sending anything, whatever users queue.\<close>

theorem restart_while_sending_blocks_the_queue:
  assumes "client_reaches fresh conn (started_client (Holds [p]) b tg) s"
    and "pp_Status p = StatusProcessing" and "pp_TransactionID p = ''''"
  shows "om_pendingPayments (cs_manager s) = [p]
    \<and> (\<forall>w \<in> set (cs_workers s) \<union> set_option (cs_checker s). \<forall>q r ps. w \<noteq> Sending q ps \<and> w \<noteq> Sent q r ps)"
proof -
  have "all_blocked p (started_client (Holds [p]) b tg :: 'a client_process)"
    by (simp add: all_blocked_def started_client_def blocked_load)
  with assms(1) have "all_blocked p s"
    by (rule client_invariant) (rule blocked_step [OF _ _ assms(2,3)])
  then show ?thesis by (auto simp: all_blocked_def blocked_def nothing_to_send_def)
qed

text \<open>Bob queues a payment behind the one that is blocked, and the client is started once more.\<close>

definition after_bob :: "unit client_process \<Rightarrow> unit client_process" where
  "after_bob s = s\<lparr>cs_manager := fst (QueuePayment 1 ''Bob'' (units 20)
     (client_extractTransactionID (user_context ''Bob'')) ''Dave'' ''Bob_req_0'' (cs_manager s)),
     cs_workers := cs_workers s @ (if False then [Start] else [])\<rparr>"

definition after_restart :: "unit client_process \<Rightarrow> unit client_process" where
  "after_restart s = s\<lparr>cs_manager := NewOfflinePaymentManager (om_file (cs_manager s)) (om_writable (cs_manager s)),
     cs_wire := (ClearTransactionCache (fst (cs_wire s)), snd (cs_wire s)), cs_workers := [], cs_checker := None\<rparr>"

theorem restart_while_sending_blocks_the_queue_witness:
  "om_pendingPayments (cs_manager (after_restart (after_bob
     (started_client (Holds [queued ''Alice'' '''' ''processing'']) True (\<lparr>tc_cache = [], tc_drawn = 0\<rparr>, ())))))
   = [queued ''Alice'' '''' ''processing'']"
proof -
  let ?s0 = "started_client (Holds [queued ''Alice'' '''' ''processing'']) True (\<lparr>tc_cache = [], tc_drawn = 0\<rparr>, ())
    :: unit client_process"
  have q: "QueuePayment now c x i r q m = (fst (QueuePayment now c x i r q m), False)"
    if "\<not> om_isConnected m" for now c x i r q m
    using that by (simp add: QueuePayment_def Let_def)
  have "\<not> om_isConnected (cs_manager ?s0)" by (simp add: started_client_def NewOfflinePaymentManager_def loadPendingPayments_def)
  from client_step.queue [OF q [OF this]] have "client_step (\<lambda>n. itoa (int n)) (always True '''') ?s0 (after_bob ?s0)"
    unfolding after_bob_def .
  moreover have "client_step (\<lambda>n. itoa (int n)) (always True '''') s (after_restart s)" for s
    unfolding after_restart_def by (rule client_step.restart)
  ultimately have "client_reaches (\<lambda>n. itoa (int n)) (always True '''') ?s0 (after_restart (after_bob ?s0))"
    by (blast intro: client_reaches_refl client_reaches_step)
  then show ?thesis
    by (rule restart_while_sending_blocks_the_queue [THEN conjunct1]) (simp_all add: queued_def StatusProcessing_def)
qed

end
