(* ===== verification/Strife_Client_Gateway.thy ===== *)
theory Strife_Client_Gateway
  imports Strife_Client_App Strife_Client_Theorems Strife_Access
begin

text \<open>
  The client connected to the gateway and the banks: retries over a network that loses requests and answers,
  and whole console sessions.
\<close>

subsection \<open>The connection\<close>

text \<open>
  The fate of one call: it reaches the gateway and is answered, its answer is lost until the deadline of the client
  has passed, or it does not reach the gateway. Calls beyond the list do not reach it.
\<close>

datatype delivery = Reached payment_env | AnswerLost payment_env | NotReached

type_synonym world = "gateway \<times> delivery list"

definition unreachable :: rpc_error where
  "unreachable = rpc_err Unavailable ''connection error: connect: connection refused''"

definition too_late :: rpc_error where
  "too_late = rpc_err DeadlineExceeded ''context deadline exceeded''"

text \<open>What gRPC makes of the results of a handler; a missing response without an error cannot be encoded.\<close>

definition answer :: "('r \<Rightarrow> client_reply) \<Rightarrow> 'r go_result option \<Rightarrow> client_reply rpc" where
  "answer wrap x =
     (case x of
        Some (_, Some e) \<Rightarrow> Inl e
      | Some (Some r, None) \<Rightarrow> Inr (wrap r)
      | Some (None, None) \<Rightarrow> Inl (rpc_err Internal ''grpc: error while marshaling'')
      | None \<Rightarrow> Inl unreachable)"

text \<open>The gateway registers the service PaymentGateway only.\<close>

definition gateway_serves ::
  "payment_env \<Rightarrow> string \<Rightarrow> ctx \<Rightarrow> client_request \<Rightarrow> gateway \<Rightarrow> gateway \<times> client_reply rpc" where
  "gateway_serves env method c req w =
     (case req of
        PaymentReq r \<Rightarrow>
          if method = ''/proto.PaymentGateway/MakePayment''
          then (case MakePayment env c r w of (w', x) \<Rightarrow> (w', answer PaymentReply x))
          else (w, Inl (rpc_err Unimplemented ''unknown method''))
      | BalanceReq r \<Rightarrow>
          if method = ''/proto.PaymentGateway/GetBalance''
          then (case GetBalanceMethod c r w of (w', x) \<Rightarrow> (w', answer BalanceReply x))
          else (w, Inl (rpc_err Unimplemented ''unknown method''))
      | AuthReq r \<Rightarrow>
          if method = ''/proto.PaymentGateway/Authenticate''
          then (case AuthenticateMethod c r w of (w', x) \<Rightarrow> (w', answer AuthReply x))
          else (w, Inl (rpc_err Unimplemented ''unknown service''))
      | _ \<Rightarrow> (w, Inl (rpc_err Unimplemented ''unknown method'')))"

text \<open>
  An attempt may meet any of these fates, also after one whose answer was lost. The code makes all attempts with one
  context, and after its deadline the later ones fail in the client; here they may still reach the gateway, so that
  the runs of the model are those of the code and some more.
\<close>

definition network :: "world connection" where
  "network method c req s =
     (case s of
        (w, Reached env # ds) \<Rightarrow> (case gateway_serves env method c req w of (w', r) \<Rightarrow> ((w', ds), r))
      | (w, AnswerLost env # ds) \<Rightarrow> ((fst (gateway_serves env method c req w), ds), Inl too_late)
      | (w, NotReached # ds) \<Rightarrow> ((w, ds), Inl unreachable)
      | (w, []) \<Rightarrow> ((w, []), Inl unreachable))"

subsection \<open>Attempts\<close>

text \<open>The number of calls that an invocation with retries makes, and the calls counted.\<close>

definition counted :: "'g invoker \<Rightarrow> (nat \<times> 'g) invoker" where
  "counted invoke c req s = (case s of (n, g) \<Rightarrow> (case invoke c req g of (g', r) \<Rightarrow> ((n + 1, g'), r)))"

definition gave_up :: "client_reply rpc \<Rightarrow> bool" where
  "gave_up r \<longleftrightarrow> (case r of Inl e \<Rightarrow> isRetryableError (err_code e) | Inr _ \<Rightarrow> False)"

lemma client_retry_counted:
  assumes "client_retry k (counted invoke) c req (n, g) = ((n', g'), r)" and "1 \<le> k" "k \<le> 3"
  shows "n < n' \<and> n' \<le> n + (4 - k) \<and> (gave_up r \<longrightarrow> n' = n + (4 - k)) \<and> client_retry k invoke c req g = (g', r)"
  using assms
proof (induction "3 - k" arbitrary: k n g rule: less_induct)
  case less
  obtain g1 x where i: "invoke c req g = (g1, x)" by fastforce
  show ?case
  proof (cases "\<exists>e. x = Inl e \<and> isRetryableError (err_code e) \<and> k < 3")
    case True
    then obtain e where e: "x = Inl e" "isRetryableError (err_code e)" "k < 3" by blast
    have r: "client_retry (k + 1) (counted invoke) c req (n + 1, g1) = ((n', g'), r)"
      using less.prems(1) i e by (simp add: client_retry.simps [of k] counted_def)
    have "n + 1 < n' \<and> n' \<le> n + 1 + (4 - (k + 1)) \<and> (gave_up r \<longrightarrow> n' = n + 1 + (4 - (k + 1)))
      \<and> client_retry (k + 1) invoke c req g1 = (g', r)"
      using e by (intro less.hyps [OF _ r]) simp_all
    moreover have "client_retry k invoke c req g = client_retry (k + 1) invoke c req g1"
      using i e by (simp add: client_retry.simps [of k])
    ultimately show ?thesis using e(3) by auto
  next
    case False
    then show ?thesis
      using less.prems i by (cases x) (auto simp: client_retry.simps [of k] counted_def gave_up_def)
  qed
qed

text \<open>C33. Bounded retries. Whatever the connection does, an invocation with retries returns after at least one
  and at most three calls, with the same result as without counting; it reports a retryable
  error only after the third call.\<close>

theorem at_most_three_calls:
  assumes "client_retry 1 (counted invoke) c req (0, g) = ((n, g'), r)"
  shows "1 \<le> n \<and> n \<le> 3 \<and> (gave_up r \<longrightarrow> n = 3) \<and> client_retry 1 invoke c req g = (g', r)"
  using client_retry_counted [OF assms] by simp

theorem at_most_three_calls_witness:
  "client_retry 1 (\<lambda>c req g. (g, Inl unreachable)) no_metadata OtherReq () = ((), Inl unreachable)"
proof -
  have "client_retry 1 (counted (\<lambda>c req g. (g, Inl unreachable))) no_metadata OtherReq (0, ())
      = ((3, ()), Inl unreachable)"
    by code_simp
  from at_most_three_calls [OF this] show ?thesis by blast
qed

subsection \<open>Lost requests and answers\<close>

lemma MakePayment_success:
  assumes "MakePayment env c req w = (w', Some (Some resp, None))"
  shows "\<exists>md u. ctx_metadata c = Some md \<and> md_first md ''username'' = Some u
    \<and> HasRole (gw_auth w) u [''user'', ''admin''] \<and> ProcessPayment env c req w = (w', Inr resp)"
proof -
  from assms have "AuthInterceptor gw_auth ''/proto.PaymentGateway/MakePayment''
      (\<lambda>c req w. of_rpc (ProcessPayment env c req w)) c req w = (w', Some (Some resp, None))"
    by (auto simp: MakePayment_def server_chain_unfold LoggingInterceptor_def dest!: RecoveryInterceptor_ok)
  then obtain md u where u: "ctx_metadata c = Some md" "md_first md ''username'' = Some u"
    "HasRole (gw_auth w) u [''user'', ''admin'']"
    and h: "of_rpc (ProcessPayment env c req w) = (w', Some (Some resp, None))"
    by (rule AuthInterceptor_passes [OF _ pay_methods(1,2)])
  from h have "ProcessPayment env c req w = (w', Inr resp)"
    by (auto simp: of_rpc_def split: prod.splits sum.splits)
  with u show ?thesis by blast
qed

lemma MakePayment_ok:
  assumes "ctx_metadata c = Some md" and "md_first md ''username'' = Some u"
    and "HasRole (gw_auth w) u [''user'', ''admin'']" and "ProcessPayment env c req w = (w', Inr resp)"
  shows "MakePayment env c req w = (w', Some (Some resp, None))"
  using assms pay_methods
  by (simp add: MakePayment_def server_chain_unfold RecoveryInterceptor_def LoggingInterceptor_def
      AuthInterceptor_def of_rpc_def)

text \<open>The state and the request in which the transfer has already been made.\<close>

definition settled :: "ctx \<Rightarrow> PaymentDetails \<Rightarrow> gateway \<Rightarrow> bool" where
  "settled c req w \<longleftrightarrow>
     (\<forall>env. \<exists>resp. MakePayment env c req w = (w, Some (Some resp, None)) \<and> resp_Success resp)"

lemma settled_after_success:
  assumes "MakePayment env c req w = (w', Some (Some resp, None))" and "resp_Success resp"
    and "gw_usesTwoPhase w" and "pd_ReceiverName req \<noteq> ''''"
  shows "settled c req w'"
  unfolding settled_def
proof
  fix env'
  obtain md u where u: "ctx_metadata c = Some md" "md_first md ''username'' = Some u"
    "HasRole (gw_auth w) u [''user'', ''admin'']" and p: "ProcessPayment env c req w = (w', Inr resp)"
    using MakePayment_success [OF assms(1)] by blast
  from transfer_replay [OF p assms(2,3,4), of env'] obtain resp'
    where r: "ProcessPayment env' c req w' = (w', Inr resp')" "resp_Success resp'" and a: "gw_auth w' = gw_auth w"
    by blast
  from MakePayment_ok [OF u(1,2) _ r(1)] u(3) a r(2)
  show "\<exists>resp. MakePayment env' c req w' = (w', Some (Some resp, None)) \<and> resp_Success resp" by auto
qed

text \<open>What the client learns: success, or that it gave up.\<close>

definition paid_or_gave_up :: "client_reply rpc \<Rightarrow> bool" where
  "paid_or_gave_up r \<longleftrightarrow> gave_up r \<or> (case r of Inr (PaymentReply x) \<Rightarrow> resp_Success x | _ \<Rightarrow> False)"

lemma network_settled:
  assumes "settled c req w" and "network make_payment c (PaymentReq req) (w, ds) = ((w', ds'), r)"
  shows "w' = w \<and> paid_or_gave_up r"
proof (cases ds)
  case Nil
  then show ?thesis
    using assms(2) by (auto simp: network_def unreachable_def rpc_err_def paid_or_gave_up_def gave_up_def isRetryableError_def)
next
  case (Cons d ds1)
  have serve: "\<exists>x. gateway_serves env make_payment c (PaymentReq req) w = (w, Inr (PaymentReply x)) \<and> resp_Success x"
    for env
    using assms(1) [unfolded settled_def, rule_format, of env]
    by (auto simp: gateway_serves_def make_payment_def answer_def)
  show ?thesis
  proof (cases d)
    case (Reached env)
    then show ?thesis
      using assms(2) Cons serve [of env] by (auto simp: network_def paid_or_gave_up_def)
  next
    case (AnswerLost env)
    then show ?thesis
      using assms(2) Cons serve [of env]
      by (auto simp: network_def too_late_def rpc_err_def paid_or_gave_up_def gave_up_def isRetryableError_def)
  next
    case NotReached
    then show ?thesis
      using assms(2) Cons
      by (auto simp: network_def unreachable_def rpc_err_def paid_or_gave_up_def gave_up_def isRetryableError_def)
  qed
qed

lemma client_retry_invariant:
  assumes "\<And>g g' r. I g \<Longrightarrow> invoke c req g = (g', r) \<Longrightarrow> I g' \<and> Q r" and "I g"
    and "client_retry k invoke c req g = (g', r)"
  shows "I g' \<and> Q r"
  using assms(2,3)
proof (induction "3 - k" arbitrary: k g rule: less_induct)
  case less
  obtain g1 x where i: "invoke c req g = (g1, x)" by fastforce
  note 1 = assms(1) [OF less.prems(1) i]
  show ?case
  proof (cases "\<exists>e. x = Inl e \<and> isRetryableError (err_code e) \<and> k < 3")
    case True
    then have "client_retry (k + 1) invoke c req g1 = (g', r)"
      using less.prems(2) i by (auto simp: client_retry.simps [of k])
    then show ?thesis using less.hyps [of "k + 1" g1] 1 True by auto
  next
    case False
    then show ?thesis using less.prems(2) i 1 by (cases x) (auto simp: client_retry.simps [of k])
  qed
qed

text \<open>Only the first user name and the first transaction id of the context matter.\<close>

definition same_caller :: "ctx \<Rightarrow> ctx \<Rightarrow> bool" where
  "same_caller c c' \<longleftrightarrow>
     (\<exists>md md'. ctx_metadata c = Some md \<and> ctx_metadata c' = Some md'
        \<and> md_first md ''username'' = md_first md' ''username''
        \<and> md_first md ''transaction_id'' = md_first md' ''transaction_id'')"

lemma same_caller_ids:
  assumes "same_caller c c'"
  shows "ExtractUsername c = ExtractUsername c'" "extractTransactionID c = extractTransactionID c'"
  using assms by (auto simp: same_caller_def ExtractUsername_def extractTransactionID_def)

lemma MakePayment_caller:
  assumes "same_caller c c'"
  shows "MakePayment env c req w = MakePayment env c' req w"
proof -
  have "ProcessPayment env c req w = ProcessPayment env c' req w" for w
    unfolding ProcessPayment_def same_caller_ids [OF assms] by (rule refl)
  then show ?thesis
    using assms
    by (auto simp: MakePayment_def server_chain_unfold RecoveryInterceptor_def LoggingInterceptor_def
        AuthInterceptor_def same_caller_def pay_methods(1,2) fails_def split: option.splits)
qed

lemma settled_caller: "same_caller c c' \<Longrightarrow> settled c req w \<Longrightarrow> settled c' req w"
  by (simp add: settled_def MakePayment_caller)

text \<open>The interceptor puts the cached transaction id into the context.\<close>

definition call_context :: "(nat \<Rightarrow> string) \<Rightarrow> ctx \<Rightarrow> PaymentDetails \<Rightarrow> tx_cache \<Rightarrow> ctx" where
  "call_context fresh c req t = snd (ensureTransactionID fresh (retry_metadata (PaymentReq req)) c t)"

lemma stub_payment:
  "stub fresh conn make_payment c (PaymentReq req) (t, g) =
    (case client_retry 1 (conn make_payment) (call_context fresh c req t) (PaymentReq req) g of
       (g', r) \<Rightarrow> ((fst (ensureTransactionID fresh (retry_metadata (PaymentReq req)) c t), g'), r))"
  by (simp add: stub_def client_chain_def ClientRetryInterceptor_def make_payment_def call_context_def
      split: prod.split)

lemma ensure_cached:
  "ensureTransactionID fresh m c t = (t', c') \<Longrightarrow>
   \<exists>i. map_of (tc_cache t') (cacheKey m) = Some i \<and> c' = addTransactionIDToContext c i"
  by (auto simp: ensureTransactionID_def getOrCreateTransactionID_def Let_def split: option.splits)

lemma md_first_gput [simp]:
  "md_first (gput k [v] md) k' = (if k' = k then Some v else md_first md k')"
  by (simp add: md_first_def gget_gput)

text \<open>The second call of the same payment goes out under the id of the first.\<close>

lemma call_context_again:
  assumes "ensureTransactionID fresh (retry_metadata (PaymentReq req)) c t = (t', c')"
    and "ctx_metadata c = Some md" "ctx_metadata c2 = Some md2"
    and "md_first md ''username'' = md_first md2 ''username''"
  shows "same_caller c' (call_context fresh c2 req t')"
proof -
  obtain i where "map_of (tc_cache t') (cacheKey (retry_metadata (PaymentReq req))) = Some i"
    and c': "c' = addTransactionIDToContext c i"
    using ensure_cached [OF assms(1)] by blast
  then have "call_context fresh c2 req t' = addTransactionIDToContext c2 i"
    by (simp add: call_context_def ensureTransactionID_def getOrCreateTransactionID_def)
  with c' assms(2-4) show ?thesis by (simp add: same_caller_def addTransactionIDToContext_def)
qed

text \<open>C13. A transfer that reaches the gateway and succeeds there is made exactly once, whatever the
  network loses. If the first attempt of a call is executed, with its answer delivered or lost, then neither the
  retries of the interceptor nor a later call for the same payment (as the offline queue makes it, with further
  retries) changes the gateway or the banks again, and each of the two calls reports success or that
  it gave up.\<close>

theorem resent_transfer_pays_once:
  assumes exec: "MakePayment env (call_context fresh c req t) req w = (w1, Some (Some resp, None))"
    and ok: "resp_Success resp" and two: "gw_usesTwoPhase w" and recv: "pd_ReceiverName req \<noteq> ''''"
    and d: "d = Reached env \<or> d = AnswerLost env"
    and first: "stub fresh network make_payment c (PaymentReq req) (t, w, d # ds) = ((t1, w', ds'), r1)"
    and second: "stub fresh network make_payment c2 (PaymentReq req) (t1, w', ds2) = ((t2, w'', ds2'), r2)"
    and user: "ctx_metadata c = Some md" "ctx_metadata c2 = Some md2"
      "md_first md ''username'' = md_first md2 ''username''"
  shows "w' = w1 \<and> w'' = w1 \<and> paid_or_gave_up r1 \<and> paid_or_gave_up r2"
proof -
  let ?c = "call_context fresh c req t"
  have settled: "settled ?c req w1" by (rule settled_after_success [OF exec ok two recv])
  have serve: "gateway_serves env make_payment ?c (PaymentReq req) w = (w1, Inr (PaymentReply resp))"
    using exec by (simp add: gateway_serves_def make_payment_def answer_def)
  have run: "w' = w1 \<and> paid_or_gave_up r"
    if "settled c0 req w1" "client_retry k (network make_payment) c0 (PaymentReq req) (w1, l) = ((w', l'), r)"
    for k c0 l w' l' r
    using client_retry_invariant [of "\<lambda>g. fst g = w1" "network make_payment" c0 "PaymentReq req" paid_or_gave_up]
      network_settled that by fastforce
  have one: "client_retry 1 (network make_payment) ?c (PaymentReq req) (w, d # ds) = ((w', ds'), r1)"
    and t1: "t1 = fst (ensureTransactionID fresh (retry_metadata (PaymentReq req)) c t)"
    using first unfolding stub_payment by (auto split: prod.splits)
  have 1: "w' = w1 \<and> paid_or_gave_up r1"
  proof (cases "d = Reached env")
    case True
    then show ?thesis
      using one ok serve by (auto simp: client_retry.simps [of "Suc 0"] network_def paid_or_gave_up_def)
  next
    case False
    then have "client_retry 2 (network make_payment) ?c (PaymentReq req) (w1, ds) = ((w', ds'), r1)"
      using one d serve
      by (simp add: client_retry.simps [of "Suc 0"] network_def too_late_def rpc_err_def isRetryableError_def
          numeral_2_eq_2)
    then show ?thesis by (rule run [OF settled])
  qed
  have "same_caller ?c (call_context fresh c2 req t1)"
    unfolding t1 by (rule call_context_again [OF _ user]) (simp add: call_context_def)
  then have "settled (call_context fresh c2 req t1) req w1" using settled by (rule settled_caller)
  moreover have "client_retry 1 (network make_payment) (call_context fresh c2 req t1) (PaymentReq req) (w1, ds2)
      = ((w'', ds2'), r2)"
    using second 1 unfolding stub_payment by (auto split: prod.splits)
  ultimately have "w'' = w1 \<and> paid_or_gave_up r2" by (rule run)
  with 1 show ?thesis by blast
qed

text \<open>A client of the freshly started system.\<close>

definition fresh_tx :: "nat \<Rightarrow> string" where
  "fresh_tx n = ''tx'' @ itoa (int n)"

definition fifty_to_Bob :: PaymentDetails where
  "fifty_to_Bob =
     \<lparr>pd_ClientName = ''Alice'', pd_Amount = units 50, pd_ReceiverName = ''Bob'', pd_Currency = '''',
      pd_RequestId = ''Alice_req_0''\<rparr>"

definition no_ids :: tx_cache where
  "no_ids = \<lparr>tc_cache = [], tc_drawn = 0\<rparr>"

theorem resent_transfer_pays_once_witness:
  "case stub fresh_tx network make_payment (user_context ''Alice'') (PaymentReq fifty_to_Bob)
      (no_ids, the_system, [AnswerLost reliable_env, NotReached, AnswerLost reliable_env]) of
     ((t1, w', _), _) \<Rightarrow>
       (case stub fresh_tx network make_payment (user_context ''Alice'') (PaymentReq fifty_to_Bob)
              (t1, w', [Reached reliable_env]) of
          ((_, w'', _), r) \<Rightarrow> w'' = w' \<and> paid_or_gave_up r)"
proof -
  let ?u = "user_context ''Alice''"
  let ?r = "PaymentReq fifty_to_Bob"
  obtain t1 w' ds' r1 where 1: "stub fresh_tx network make_payment ?u ?r
      (no_ids, the_system, [AnswerLost reliable_env, NotReached, AnswerLost reliable_env]) = ((t1, w', ds'), r1)"
    by (metis prod.exhaust)
  obtain t2 w'' ds'' r2 where 2: "stub fresh_tx network make_payment ?u ?r (t1, w', [Reached reliable_env])
      = ((t2, w'', ds''), r2)"
    by (metis prod.exhaust)
  obtain w1 x where 3: "MakePayment reliable_env (call_context fresh_tx ?u fifty_to_Bob no_ids) fifty_to_Bob the_system
      = (w1, x)"
    by (metis prod.exhaust)
  have "case snd (MakePayment reliable_env (call_context fresh_tx ?u fifty_to_Bob no_ids) fifty_to_Bob the_system) of
      Some (Some resp, None) \<Rightarrow> resp_Success resp | _ \<Rightarrow> False"
    by code_simp
  with 3 obtain resp where x: "x = Some (Some resp, None)" "resp_Success resp"
    by (auto split: option.splits)
  have two: "gw_usesTwoPhase the_system" "pd_ReceiverName fifty_to_Bob \<noteq> ''''"
    by code_simp+
  have md: "ctx_metadata ?u = Some [(''username'', [''Alice''])]" by (simp add: user_context_def)
  from resent_transfer_pays_once [OF 3 [unfolded x(1)] x(2) two _ 1 2 md md refl]
  show ?thesis using 1 2 by simp
qed

subsection \<open>Whole sessions\<close>

definition session_env :: "world client_env" where
  "session_env =
     \<lparr>ev_fresh = fresh_tx, ev_conn = network, ev_now = (\<lambda>_. 0), ev_order = map fst,
      ev_counter_written = True, ev_show_error = err_message, ev_show_auth = ar_Message,
      ev_quote = json_string, ev_format_time = itoa\<rparr>"

definition started_app :: "delivery list \<Rightarrow> string list \<Rightarrow> world ClientApp" where
  "started_app ds input =
     NewClientApp (no_ids, the_system, ds) NoFile True (ReadError ''no such file'') input"

definition app_tick :: "bool \<Rightarrow> world ClientApp \<Rightarrow> world ClientApp" where
  "app_tick connected app =
     (case connection_tick fresh_tx network connected (app_offlineManager app, app_wire app) of
        (m, tg) \<Rightarrow> app\<lparr>app_offlineManager := m, app_wire := tg\<rparr>)"

definition app_gateway :: "world ClientApp \<Rightarrow> gateway" where
  "app_gateway app = fst (snd (app_wire app))"

text \<open>Alice logs in and transfers 50 to Bob, twice; the first time the gateway cannot be reached.\<close>

definition transfer_input :: "string list" where
  "transfer_input = [''1'', ''Alice'', ''2'', ''50'', ''2'', ''Bob'']"

definition first_session :: "world ClientApp" where
  "first_session =
     fst (showMainMenu session_env
       (started_app ([Reached reliable_env] @ replicate 3 NotReached @ replicate 3 (Reached reliable_env))
          ([''1'', ''Alice'', ''password123''] @ drop 2 transfer_input @ transfer_input)))"

definition after_reconnect :: "world ClientApp" where
  "after_reconnect = app_tick True first_session"

definition second_session :: "world ClientApp" where
  "second_session = fst (showMainMenu session_env after_reconnect)"

text \<open>What a session left: the states of the queued payments, Alice's and Bob's balances at their banks,
  and the line before the last on the screen.\<close>

definition observed :: "world ClientApp \<Rightarrow> string list \<times> int option \<times> int option \<times> string" where
  "observed app =
     (map pp_Status (GetPendingPayments (app_offlineManager app)),
      at_A (app_gateway app) ''Alice'', at_B (app_gateway app) ''Bob'', hd (tl (rev (app_output app))))"

text \<open>A payment that follows one settled offline is not made. Alice's transfer of 50 to Bob is queued
  while the gateway is unreachable and made when the connection returns; the request counter is only
  incremented by a payment answered at the console, so her next transfer of 50 to Bob carries the same request
  id and hence the transaction id of the first. The gateway answers that it has been processed, the screen
  says "successful", and no money moves.\<close>

lemma payment_after_offline_success_is_not_made:
  "observed first_session =
     ([''pending''], Some 202, Some 160, ''Payment queued successfully with transaction ID: '')
   \<and> observed after_reconnect =
     ([], Some 152, Some 210, ''Payment queued successfully with transaction ID: '')
   \<and> observed second_session =
     ([], Some 152, Some 210, ''Payment of 50.00 for Alice successful!'')"
proof (intro conjI)
  show "observed first_session =
     ([''pending''], Some 202, Some 160, ''Payment queued successfully with transaction ID: '')"
    by code_simp
  show "observed after_reconnect =
     ([], Some 152, Some 210, ''Payment queued successfully with transaction ID: '')"
    by code_simp
  show "observed second_session =
     ([], Some 152, Some 210, ''Payment of 50.00 for Alice successful!'')"
    by code_simp
qed

subsection \<open>The end of the input\<close>

text \<open>What is left of the input is a part of it, whatever the handlers do.\<close>

definition consumes :: "'g ClientApp \<Rightarrow> 'g ClientApp \<Rightarrow> bool" where
  "consumes app app' \<longleftrightarrow> (\<exists>k. app_input app' = drop k (app_input app))"

lemma consumes_refl: "app_input app' = app_input app \<Longrightarrow> consumes app app'"
  by (auto simp: consumes_def intro: exI [of _ 0])

lemma consumes_trans: "consumes a b \<Longrightarrow> consumes b c \<Longrightarrow> consumes a c"
  by (auto simp: consumes_def)

lemma print_input [simp]: "app_input (print ls app) = app_input app"
  by (simp add: print_def)

lemma GetUserInput_consumes:
  "GetUserInput app = (app', l) \<Longrightarrow> consumes app app' \<and> (l = '''' \<or> l \<in> set (app_input app))"
  by (auto simp: GetUserInput_def consumes_def split: list.splits intro: exI [of _ 0] exI [of _ 1])

lemma same_input [simp]:
  "app_input (queue_for_later ev c x r q app) = app_input app"
  "app_input (displayPendingPayments app) = app_input app"
  "app_input (displayNotifications ev app) = app_input app"
  "app_input (handleCheckBalance ev c app) = app_input app"
  by (auto simp: queue_for_later_def displayPendingPayments_def displayNotifications_def
      handleCheckBalance_def Let_def split: prod.split sum.split)

lemma pay_now_input [simp]: "app_input (pay_now ev c x r app) = app_input app"
  by (auto simp: pay_now_def Let_def split: prod.split sum.split)

lemma authenticate_consumes: "consumes app (fst (app_authenticateUser ev c app))"
  by (auto simp: app_authenticateUser_def consumes_def Let_def split: prod.split dest!: GetUserInput_consumes)

lemma make_payment_consumes: "consumes app (handleMakePayment ev c app)"
proof -
  obtain app1 l where g: "GetUserInput (print [''Enter payment amount:''] app) = (app1, l)" by fastforce
  have 1: "consumes app app1" using GetUserInput_consumes [OF g] by (simp add: consumes_def)
  show ?thesis
  proof (cases "ParseFloat32 l")
    case (Inl e)
    then show ?thesis using 1 by (simp add: handleMakePayment_def g consumes_def)
  next
    case (Inr x)
    obtain app2 ch where g2: "GetUserInput (print transfer_type_menu app1) = (app2, ch)" by fastforce
    have 2: "consumes app app2"
      using GetUserInput_consumes [OF g2] 1 by (auto simp: consumes_def)
    obtain app3 rn where g3:
      "GetUserInput (print [''Enter receiver'' @ [CHR 0x27] @ ''s account name:''] app2) = (app3, rn)" by fastforce
    have 3: "consumes app app3"
      using GetUserInput_consumes [OF g3] 2 by (auto simp: consumes_def)
    show ?thesis
      using 2 3 by (cases "ch = ''2''") (simp_all add: handleMakePayment_def g g2 g3 [simplified] Inr consumes_def)
  qed
qed

lemma check_status_consumes: "consumes app (handleCheckTransactionStatus ev app)"
  by (auto simp: handleCheckTransactionStatus_def consumes_def split: prod.split dest!: GetUserInput_consumes)

lemma operation_menu_consumes: "consumes app (operation_menu ev c app)"
proof -
  obtain app1 l where g: "GetUserInput (print operations_menu app) = (app1, l)" by fastforce
  have "consumes app app1" using GetUserInput_consumes [OF g] by (simp add: consumes_def)
  moreover have "consumes app1 (operation_menu ev c app)"
    by (auto simp: operation_menu_def g intro: consumes_refl make_payment_consumes check_status_consumes)
  ultimately show ?thesis by (rule consumes_trans)
qed

lemma client_operations_consume: "consumes app (handleClientOperations ev app)"
proof -
  obtain app1 l where g: "GetUserInput (print client_prompt app) = (app1, l)" by fastforce
  have 1: "consumes app app1" using GetUserInput_consumes [OF g] by (simp add: consumes_def)
  show ?thesis
  proof (cases "ClientIsAuthenticated (app_authManager app1) l")
    case True
    then show ?thesis
      using consumes_trans [OF 1 operation_menu_consumes] by (simp add: handleClientOperations_def g)
  next
    case False
    obtain app2 ok where a: "app_authenticateUser ev l app1 = (app2, ok)" by fastforce
    have 2: "consumes app app2" using consumes_trans [OF 1 authenticate_consumes, of ev l] a by simp
    then show ?thesis
      using consumes_trans [OF 2 operation_menu_consumes] False a
      by (cases ok) (simp_all add: handleClientOperations_def g)
  qed
qed

lemma main_menu_consumes:
  assumes "showMainMenu ev app = (app', go_on)"
  shows "consumes app app' \<and> (\<not> go_on \<longrightarrow> ''2'' \<in> set (app_input app))"
proof -
  obtain app1 l where g: "GetUserInput (print main_menu app) = (app1, l)" by fastforce
  have 1: "consumes app app1" "l = '''' \<or> l \<in> set (app_input app)"
    using GetUserInput_consumes [OF g] by (simp_all add: consumes_def)
  consider (ops) "l = ''1''" | (exit) "l = ''2''" | (other) "l \<noteq> ''1''" "l \<noteq> ''2''" by blast
  then show ?thesis
  proof cases
    case ops
    then show ?thesis
      using assms consumes_trans [OF 1(1) client_operations_consume, of ev] by (simp add: showMainMenu_def g)
  next
    case exit
    then show ?thesis using assms 1 by (auto simp: showMainMenu_def g)
  next
    case other
    then show ?thesis using assms 1 by (auto simp: showMainMenu_def g consumes_def)
  qed
qed

text \<open>C34. The console returns only through option 2. When the input ends without it (a closed terminal, a
  pipe), the main loop does not end: it reads the empty string for ever.\<close>

theorem console_runs_until_told_to_exit:
  assumes "''2'' \<notin> set (app_input app)"
  shows "Run ev app = None"
proof -
  have "''2'' \<in> set (app_input app)" if "Run ev app = Some app'" for app'
  proof (rule Run.raw_induct [of "\<lambda>ev app _. ''2'' \<in> set (app_input app)", OF _ that])
    fix R :: "'a client_env \<Rightarrow> 'a ClientApp \<Rightarrow> 'a ClientApp option" and ev :: "'a client_env" and app y
    assume IH: "\<And>ev app y. R ev app = Some y \<Longrightarrow> ''2'' \<in> set (app_input app)"
      and body: "(case showMainMenu ev app of (app', go_on) \<Rightarrow> if go_on then R ev app' else Some app') = Some y"
    obtain app1 go_on where s: "showMainMenu ev app = (app1, go_on)" by fastforce
    note c = main_menu_consumes [OF s]
    show "''2'' \<in> set (app_input app)"
    proof (cases go_on)
      case True
      then have "''2'' \<in> set (app_input app1)" using body s by (auto intro: IH)
      then show ?thesis using c by (auto simp: consumes_def dest: in_set_dropD)
    qed (use c in simp)
  qed
  with assms show ?thesis by (cases "Run ev app") auto
qed

theorem console_runs_until_told_to_exit_witness:
  "Run session_env (started_app [] [''1'', ''Alice'', ''password123'']) = None
   \<and> Run session_env (started_app [] [''3'', ''2'']) \<noteq> None"
proof
  show "Run session_env (started_app [] [''1'', ''Alice'', ''password123'']) = None"
    by (rule console_runs_until_told_to_exit) (simp add: started_app_def NewClientApp_def)
  show "Run session_env (started_app [] [''3'', ''2'']) \<noteq> None"
    by (subst Run.simps, subst Run.simps)
      (simp add: showMainMenu_def GetUserInput_def print_def started_app_def NewClientApp_def)
qed

end
