(* ===== verification/MapReduce.thy ===== *)
theory MapReduce
  imports Go_Text
begin

text \<open>
  MapReduce (P2-MapReduce): the worker's map and reduce tasks (server/main.go), the master's assignment of the
  tasks and the job that the client program runs (client/main.go). The file system is a map from paths to
  contents; the directories exist, as main creates them. A panic, which ends the worker's process, is
  \<open>None\<close>. Map tasks write to files of their own and run one after the other here.
\<close>

subsection \<open>Requests and files\<close>

record MapRequest =
  mr_MapTaskId :: int
  mr_Filename :: string
  mr_NumReducers :: int
  mr_Mode :: string

record ReduceRequest =
  rr_ReduceTaskId :: int
  rr_Mode :: string

record TaskResponse =
  tr_Success :: bool
  tr_Message :: string

type_synonym files = "(string, string) gomap"

definition intermediate :: "int \<Rightarrow> int \<Rightarrow> string" where
  "intermediate m b = ''intermediate/mr-'' @ itoa m @ ''-'' @ itoa b @ ''.txt''"

definition out_file :: "int \<Rightarrow> string" where
  "out_file r = ''output/out-'' @ itoa r @ ''.txt''"

text \<open>filepath.Base.\<close>

definition Base :: "string \<Rightarrow> string" where
  "Base p =
     (if p = [] then ''.''
      else
        (let q = rev (dropWhile (\<lambda>c. c = CHR ''/'') (rev p))
         in if q = [] then ''/'' else last (split_at (CHR ''/'') q)))"

subsection \<open>The map task\<close>

definition hash :: "string \<Rightarrow> int" where
  "hash s = foldl (\<lambda>h (r, _). i64 (31 * h + r)) 0 (runes s)"

definition bucket :: "int \<Rightarrow> string \<Rightarrow> int" where
  "bucket n word = go_rem (hash word) n"

text \<open>The file is opened for appending without creating it; when there is none, the word is not written.\<close>

definition append_to :: "string \<Rightarrow> string \<Rightarrow> files \<Rightarrow> files" where
  "append_to path text fs =
     (case map_of fs path of None \<Rightarrow> fs | Some c \<Rightarrow> gput path (c @ text) fs)"

definition emitted :: "string \<Rightarrow> string \<Rightarrow> string \<Rightarrow> string" where
  "emitted mode filename word =
     (if mode = ''inverted_index'' then word @ '' '' @ Base filename @ nl
      else if mode = ''word_count'' then word @ '' 1'' @ nl else '''')"

text \<open>The remainder by zero panics.\<close>

fun map_words :: "MapRequest \<Rightarrow> string list \<Rightarrow> files \<Rightarrow> files option" where
  "map_words req [] fs = Some fs"
| "map_words req (w # ws) fs =
     (if mr_NumReducers req = 0 then None
      else map_words req ws
        (append_to (intermediate (mr_MapTaskId req) (bucket (mr_NumReducers req) w))
           (emitted (mr_Mode req) (mr_Filename req) w) fs))"

definition create_files :: "MapRequest \<Rightarrow> files \<Rightarrow> files" where
  "create_files req fs =
     foldl (\<lambda>fs i. gput (intermediate (mr_MapTaskId req) (int i)) '''' fs) fs [0..<nat (mr_NumReducers req)]"

text \<open>The words of a text, line by line.\<close>

definition words_of :: "string \<Rightarrow> string list" where
  "words_of text = concat (map Fields (scan_lines text))"

text \<open>The response, or \<open>None\<close> for a panic; an input file that cannot be opened is an error, too.\<close>

definition WorkerMap :: "MapRequest \<Rightarrow> files \<Rightarrow> files \<times> (string option \<times> TaskResponse) option" where
  "WorkerMap req fs =
     (case map_of fs (mr_Filename req) of
        None \<Rightarrow>
          (fs, Some (Some ''no such file or directory'',
                     \<lparr>tr_Success = False, tr_Message = ''Failed to open file''\<rparr>))
      | Some _ \<Rightarrow>
          let fs1 = create_files req fs
          in case map_words req (words_of (gget '''' fs1 (mr_Filename req))) fs1 of
               None \<Rightarrow> (fs1, None)
             | Some fs2 \<Rightarrow>
                 (fs2, Some (None, \<lparr>tr_Success = True, tr_Message = ''Map task completed''\<rparr>)))"

subsection \<open>The reduce task\<close>

text \<open>What fmt.Sscanf reads: an invalid byte becomes the character U+FFFD.\<close>

definition read_runes :: "string \<Rightarrow> string" where
  "read_runes s =
     concat (map (\<lambda>(r, b). if r = 0xFFFD then [CHR 0xEF, CHR 0xBF, CHR 0xBD] else b) (runes s))"

lemma read_runes_ascii: "ascii s \<Longrightarrow> read_runes s = s"
  by (simp add: read_runes_def runes_ascii) (induction s, simp_all add: ascii_def)

text \<open>A token that fmt.Sscanf stores; empty when the line has fewer.\<close>

definition token :: "nat \<Rightarrow> string \<Rightarrow> string" where
  "token k line = (let fs = Fields (read_runes line) in if k < length fs then fs ! k else '''')"

text \<open>The verb %d: sign and digits at the start of the token; zero when there are none or they overflow.\<close>

definition scan_int :: "string \<Rightarrow> int" where
  "scan_int t =
     (case sign_of t of
        (sg, r) \<Rightarrow>
          let n = sg * number_of 10 (takeWhile is_digit r) in if i64 n = n then n else 0)"

lemma intermediate_inj:
  assumes "intermediate m b = intermediate m' b'" and "0 \<le> m" "0 \<le> m'"
  shows "m = m' \<and> b = b'"
proof -
  have no: "CHR ''-'' \<notin> set (digits n)" if "0 \<le> n" for n
    using digits_no [OF that, of "CHR ''-''"] by (auto simp: is_digit_def byte_def)
  have "digits m @ CHR ''-'' # (itoa b @ ''.txt'') = digits m' @ CHR ''-'' # (itoa b' @ ''.txt'')"
    using assms by (simp add: intermediate_def itoa_def)
  from split_unique [OF this no no] assms have "digits m = digits m'" "itoa b = itoa b'" by simp_all
  then show ?thesis using digits_inj [OF assms(2,3)] itoa_inj_all by simp
qed

text \<open>The intermediate files of reduce task \<open>r\<close>, from map task \<open>m\<close> on until one is missing.\<close>

function reduce_texts :: "files \<Rightarrow> nat \<Rightarrow> int \<Rightarrow> string list" where
  "reduce_texts fs m r =
     (case map_of fs (intermediate (int m) r) of
        None \<Rightarrow> []
      | Some text \<Rightarrow> text # reduce_texts fs (m + 1) r)"
  by pat_completeness auto

lemma intermediate_inj_fst: "intermediate (int m) r = intermediate (int m') r \<Longrightarrow> m = m'"
  using intermediate_inj [of "int m" r "int m'" r] by simp

lemma finite_intermediate: "finite {j. m \<le> j \<and> map_of fs (intermediate (int j) r) \<noteq> None}"
proof -
  have "finite ((\<lambda>j. intermediate (int j) r) -` dom (map_of fs) \<inter> UNIV)"
    by (rule finite_vimage_IntI) (auto simp: finite_dom_map_of inj_def intermediate_inj_fst)
  then show ?thesis by (rule finite_subset [rotated]) (auto simp: dom_def)
qed

termination reduce_texts
proof (relation "measure (\<lambda>(fs, m, r). card {j. m \<le> j \<and> map_of fs (intermediate (int j) r) \<noteq> None})", goal_cases)
  case 1
  then show ?case by simp
next
  case (2 fs m r content)
  let ?from = "\<lambda>k. {j. k \<le> j \<and> map_of fs (intermediate (int j) r) \<noteq> None}"
  have "m \<in> ?from m" "m \<notin> ?from (m + 1)" using 2 by simp_all
  moreover have "?from (m + 1) \<subseteq> ?from m" by auto
  ultimately have "?from (m + 1) \<subset> ?from m" by blast
  then show ?case using psubset_card_mono [OF finite_intermediate] by simp
qed

declare reduce_texts.simps [simp del]

text \<open>Word counts: the first two tokens of each line.\<close>

type_synonym counts = "(string, int) gomap"

definition count_line :: "counts \<Rightarrow> string \<Rightarrow> counts" where
  "count_line c line =
     gput (token 0 line) (i64 (gget 0 c (token 0 line) + scan_int (token 1 line))) c"

definition word_counts :: "files \<Rightarrow> int \<Rightarrow> counts" where
  "word_counts fs r = foldl (\<lambda>c text. foldl count_line c (scan_lines text)) [] (reduce_texts fs 0 r)"

type_synonym index = "(string, (string, bool) gomap) gomap"

definition index_line :: "index \<Rightarrow> string \<Rightarrow> index" where
  "index_line x line =
     gput (token 0 line) (gput (token 1 line) True (gget [] x (token 0 line))) x"

definition inverted_index :: "files \<Rightarrow> int \<Rightarrow> index" where
  "inverted_index fs r = foldl (\<lambda>x text. foldl index_line x (scan_lines text)) [] (reduce_texts fs 0 r)"

text \<open>The orders are those of the loops over the maps.\<close>

definition completed_task :: TaskResponse where
  "completed_task = \<lparr>tr_Success = True, tr_Message = ''Reduce task completed''\<rparr>"

definition reduceWordCount :: "(counts \<Rightarrow> string list) \<Rightarrow> ReduceRequest \<Rightarrow> files \<Rightarrow> files \<times> TaskResponse" where
  "reduceWordCount order req fs =
     (let c = word_counts fs (rr_ReduceTaskId req);
          text = concat (map (\<lambda>w. w @ '' '' @ itoa (gget 0 c w) @ nl) (order c))
      in (gput (out_file (rr_ReduceTaskId req)) text fs, completed_task))"

text \<open>The verb %v prints a slice of strings in brackets, separated by blanks.\<close>

definition reduceInvertedIndex ::
  "(index \<Rightarrow> string list) \<Rightarrow> ((string, bool) gomap \<Rightarrow> string list) \<Rightarrow> ReduceRequest \<Rightarrow> files
     \<Rightarrow> files \<times> TaskResponse" where
  "reduceInvertedIndex order file_order req fs =
     (let x = inverted_index fs (rr_ReduceTaskId req);
          text = concat (map (\<lambda>w. w @ '' ['' @ join_with (CHR '' '') (file_order (gget [] x w)) @ '']'' @ nl)
                   (order x))
      in (gput (out_file (rr_ReduceTaskId req)) text fs, completed_task))"

record orders =
  or_counts :: "counts \<Rightarrow> string list"
  or_index :: "index \<Rightarrow> string list"
  or_files :: "(string, bool) gomap \<Rightarrow> string list"

definition WorkerReduce :: "orders \<Rightarrow> ReduceRequest \<Rightarrow> files \<Rightarrow> files \<times> TaskResponse" where
  "WorkerReduce os req fs =
     (if rr_Mode req = ''inverted_index'' then reduceInvertedIndex (or_index os) (or_files os) req fs
      else if rr_Mode req = ''word_count'' then reduceWordCount (or_counts os) req fs
      else (fs, \<lparr>tr_Success = False, tr_Message = ''Invalid mode''\<rparr>))"

subsection \<open>The master and the job (client/main.go)\<close>

record Master =
  ms_numMappers :: int
  ms_numReducers :: int
  ms_Mode :: string

definition map_port :: "int \<Rightarrow> int" where
  "map_port taskId = 56052 + taskId"

definition reduce_port :: "Master \<Rightarrow> int \<Rightarrow> int" where
  "reduce_port m taskId = 56052 + ms_numMappers m + taskId"

text \<open>
  \<open>up port\<close>: whether a worker answers on the port. The result is what the client prints: the message of the
  response, or the error of the call. A worker that panics does not answer.
\<close>

definition failed_call :: string where
  "failed_call = ''rpc error''"

definition AssignMapTask ::
  "(int \<Rightarrow> bool) \<Rightarrow> MapRequest \<Rightarrow> files \<Rightarrow> files \<times> (string + TaskResponse)" where
  "AssignMapTask up req fs =
     (if \<not> up (map_port (mr_MapTaskId req)) then (fs, Inl failed_call)
      else case WorkerMap req fs of
             (fs', None) \<Rightarrow> (fs', Inl failed_call)
           | (fs', Some (Some e, _)) \<Rightarrow> (fs', Inl e)
           | (fs', Some (None, resp)) \<Rightarrow> (fs', Inr resp))"

definition AssignReduceTask ::
  "(int \<Rightarrow> bool) \<Rightarrow> orders \<Rightarrow> Master \<Rightarrow> ReduceRequest \<Rightarrow> files \<Rightarrow> files \<times> (string + TaskResponse)" where
  "AssignReduceTask up os m req fs =
     (if \<not> up (reduce_port m (rr_ReduceTaskId req)) then (fs, Inl failed_call)
      else case WorkerReduce os req fs of (fs', resp) \<Rightarrow> (fs', Inr resp))"

fun printed :: "string \<Rightarrow> string + TaskResponse \<Rightarrow> string" where
  "printed what (Inl e) = what @ '' task failed: '' @ e"
| "printed what (Inr resp) = tr_Message resp"

definition map_request :: "Master \<Rightarrow> int \<Rightarrow> string \<Rightarrow> MapRequest" where
  "map_request m i file =
     \<lparr>mr_MapTaskId = i32 i, mr_Filename = file, mr_NumReducers = i32 (ms_numReducers m), mr_Mode = ms_Mode m\<rparr>"

fun run_maps ::
  "(int \<Rightarrow> bool) \<Rightarrow> Master \<Rightarrow> int \<Rightarrow> string list \<Rightarrow> files \<Rightarrow> files \<times> string list" where
  "run_maps up m i [] fs = (fs, [])"
| "run_maps up m i (file # rest) fs =
     (case AssignMapTask up (map_request m i file) fs of
        (fs1, r) \<Rightarrow>
          (case run_maps up m (i + 1) rest fs1 of (fs2, out) \<Rightarrow> (fs2, printed ''Map'' r # out)))"

fun run_reduces ::
  "(int \<Rightarrow> bool) \<Rightarrow> orders \<Rightarrow> Master \<Rightarrow> int list \<Rightarrow> files \<Rightarrow> files \<times> string list" where
  "run_reduces up os m [] fs = (fs, [])"
| "run_reduces up os m (i # is) fs =
     (case AssignReduceTask up os m \<lparr>rr_ReduceTaskId = i32 i, rr_Mode = ms_Mode m\<rparr> fs of
        (fs1, r) \<Rightarrow>
          (case run_reduces up os m is fs1 of (fs2, out) \<Rightarrow> (fs2, printed ''Reduce'' r # out)))"

text \<open>
  The program on its arguments and the files that match dataset/*.txt, in order. A number that cannot be parsed
  counts as zero, or as the limit it exceeds.
\<close>

definition atoi_value :: "string \<Rightarrow> int" where
  "atoi_value s =
     (case Atoi s of
        Inr n \<Rightarrow> n
      | Inl SyntaxError \<Rightarrow> 0
      | Inl RangeError \<Rightarrow> if fst (sign_of s) < 0 then - (2 ^ 63) else 2 ^ 63 - 1)"

definition run_job ::
  "(int \<Rightarrow> bool) \<Rightarrow> orders \<Rightarrow> string list \<Rightarrow> string list \<Rightarrow> files \<Rightarrow> files \<times> string list" where
  "run_job up os args dataset fs =
     (case args of
        a # mode # _ \<Rightarrow>
          if dataset = [] then (fs, [''No input files found''])
          else
            (let m = \<lparr>ms_numMappers = int (length dataset), ms_numReducers = atoi_value a, ms_Mode = mode\<rparr>
             in case run_maps up m 0 dataset fs of
                  (fs1, out1) \<Rightarrow>
                    (case run_reduces up os m (map int [0..<nat (ms_numReducers m)]) fs1 of
                       (fs2, out2) \<Rightarrow> (fs2, out1 @ out2)))
      | _ \<Rightarrow> (fs, [''Usage: go run client/main.go <numReducers> <mode>'']))"

end
