(* ===== verification/MapReduce_Theorems.thy ===== *)
theory MapReduce_Theorems
  imports MapReduce
begin

text \<open>
  Correctness of the word count job on ASCII files, from the input files to the output files: the lines that a
  map task writes are read back as the words they were written for, every output file holds exactly the words of
  its bucket with their numbers of occurrences; and the jobs that lose words or count old ones.
\<close>

subsection \<open>Words and lines\<close>

definition word :: "string \<Rightarrow> bool" where
  "word w \<longleftrightarrow> w \<noteq> [] \<and> ascii w \<and> list_all (\<lambda>c. \<not> is_space (byte c)) w"

lemma ascii_append [simp]: "ascii (a @ b) \<longleftrightarrow> ascii a \<and> ascii b"
  by (simp add: ascii_def)

lemma ascii_Cons: "ascii (c # s) \<longleftrightarrow> byte c < 128 \<and> ascii s"
  by (simp add: ascii_def)

lemma split_fields_word:
  assumes "list_all (\<lambda>c. \<not> is_space (byte c)) w"
  shows "split_fields (map (\<lambda>c. (byte c, [c])) w @ rs) acc = split_fields rs (acc @ w)"
  using assms by (induction w arbitrary: acc) auto

lemma Fields_word: "word w \<Longrightarrow> Fields w = [w]"
  using split_fields_word [of w "[]" "[]"] by (simp add: Fields_def word_def text_simps)

lemma Fields_two:
  assumes "word w" "word v"
  shows "Fields (w @ '' '' @ v) = [w, v]"
proof -
  have sp: "byte (CHR '' '') = 32" "is_space 32" by (simp_all add: byte_def is_space_def)
  have "ascii (w @ '' '' @ v)" using assms by (simp add: word_def ascii_Cons sp)
  then have "Fields (w @ '' '' @ v) =
      split_fields (map (\<lambda>c. (byte c, [c])) w @ (32, '' '') # map (\<lambda>c. (byte c, [c])) v @ []) []"
    by (simp add: Fields_def text_simps sp)
  also have "\<dots> = [w, v]"
    using assms by (simp add: split_fields_word word_def sp del: append_Nil2)
  finally show ?thesis .
qed

text \<open>What Fields yields are words made of the characters of the line.\<close>

lemma split_fields_words:
  assumes "ascii s" and "ascii acc" "list_all (\<lambda>c. \<not> is_space (byte c)) acc"
    and "w \<in> set (split_fields (map (\<lambda>c. (byte c, [c])) s) acc)"
  shows "word w \<and> set w \<subseteq> set s \<union> set acc \<and> length w \<le> length s + length acc"
  using assms
proof (induction s arbitrary: acc)
  case Nil
  then show ?case by (auto simp: word_def split: if_splits)
next
  case (Cons c s)
  show ?case
  proof (cases "is_space (byte c)")
    case True
    then consider "w = acc" "acc \<noteq> []" | "w \<in> set (split_fields (map (\<lambda>c. (byte c, [c])) s) [])"
      using Cons.prems(4) by (auto split: if_splits)
    then show ?thesis
    proof cases
      case 1
      then show ?thesis using Cons.prems(2,3) by (auto simp: word_def)
    next
      case 2
      then show ?thesis using Cons.IH [of "[]"] Cons.prems(1) by (auto simp: ascii_def)
    qed
  next
    case False
    then have "w \<in> set (split_fields (map (\<lambda>c. (byte c, [c])) s) (acc @ [c]))" using Cons.prems(4) by simp
    moreover have "ascii (acc @ [c])" "list_all (\<lambda>c. \<not> is_space (byte c)) (acc @ [c])" "ascii s"
      using Cons.prems False by (auto simp: ascii_def)
    ultimately show ?thesis using Cons.IH [of "acc @ [c]"] by auto
  qed
qed

lemma Fields_words: "ascii s \<Longrightarrow> w \<in> set (Fields s) \<Longrightarrow> word w \<and> length w \<le> length s"
  using split_fields_words [of s "[]" w] by (simp add: Fields_def text_simps ascii_def)

lemma words_of_words:
  assumes "ascii text" and "w \<in> set (words_of text)"
  shows "word w"
proof -
  obtain l where l: "l \<in> set (scan_lines text)" "w \<in> set (Fields l)"
    using assms(2) by (auto simp: words_of_def)
  have sub: "set p \<subseteq> set s" if "p \<in> set (split_at c s)" for p s c
    using that
  proof (induction s arbitrary: p)
    case (Cons d s)
    then show ?case by (cases "split_at c s") (fastforce split: if_splits)+
  qed simp
  have "set (drop_cr p) \<subseteq> set p" for p by (auto simp: drop_cr_def dest: in_set_butlastD)
  then have "set l \<subseteq> set text"
    using l(1) sub [of _ "CHR 0x0A" "text"]
    by (fastforce simp: scan_lines_def raw_lines_def Let_def dest: set_takeWhileD in_set_butlastD split: if_splits)
  then have "ascii l" using assms(1) by (auto simp: ascii_def list_all_iff)
  then show ?thesis using Fields_words l(2) by blast
qed

lemma word_chars:
  assumes "word w"
  shows "CHR 0x0A \<notin> set w" "CHR 0x0D \<notin> set w"
proof -
  have "is_space (byte (CHR 0x0A))" "is_space (byte (CHR 0x0D))" by (simp_all add: byte_def is_space_def)
  then show "CHR 0x0A \<notin> set w" "CHR 0x0D \<notin> set w"
    using assms by (auto simp: word_def list_all_iff)
qed

lemma split_lines:
  assumes "\<forall>l \<in> set ls. CHR 0x0A \<notin> set l"
  shows "split_at (CHR 0x0A) (concat (map (\<lambda>l. l @ nl) ls)) = ls @ [[]]"
  using assms by (induction ls) (simp_all add: nl_def split_at_append)

lemma scan_written_lines:
  assumes "\<forall>l \<in> set ls. CHR 0x0A \<notin> set l \<and> l \<noteq> [] \<and> last l \<noteq> CHR 0x0D \<and> length l < 65536"
  shows "scan_lines (concat (map (\<lambda>l. l @ nl) ls)) = ls"
proof -
  have "raw_lines (concat (map (\<lambda>l. l @ nl) ls)) = ls"
    using split_lines [of ls] assms by (simp add: raw_lines_def Let_def)
  moreover have "takeWhile (\<lambda>l. length l < 65536) ls = ls" using assms by (subst takeWhile_eq_all_conv) blast
  moreover have "map drop_cr ls = ls" using assms by (intro map_idI) (simp add: drop_cr_def)
  ultimately show ?thesis by (simp only: scan_lines_def)
qed

text \<open>The two tokens of a line that Map writes, and its lines.\<close>

definition written :: "string \<Rightarrow> string \<Rightarrow> string" where
  "written w v = w @ '' '' @ v"

lemma token_written:
  assumes "word w" "word v"
  shows "token 0 (written w v) = w \<and> token 1 (written w v) = v"
proof -
  have "ascii (written w v)" using assms by (simp add: written_def word_def ascii_Cons byte_def)
  then show ?thesis using Fields_two [OF assms] by (simp add: token_def written_def Let_def read_runes_ascii)
qed

lemma scan_records:
  assumes "\<forall>(w, v) \<in> set rs. word w \<and> word v \<and> length w + length v < 65535"
  shows "scan_lines (concat (map (\<lambda>(w, v). w @ '' '' @ v @ nl) rs)) = map (\<lambda>(w, v). written w v) rs"
proof -
  have "scan_lines (concat (map (\<lambda>l. l @ nl) (map (\<lambda>(w, v). written w v) rs))) = map (\<lambda>(w, v). written w v) rs"
  proof (rule scan_written_lines, intro ballI)
    fix l
    assume "l \<in> set (map (\<lambda>(w, v). written w v) rs)"
    then obtain w v where "(w, v) \<in> set rs" "l = written w v" by auto
    moreover from this have v: "word w" "word v" "length w + length v < 65535" using assms by auto
    have "last v \<noteq> CHR 0x0D"
    proof
      assume "last v = CHR 0x0D"
      then show False using word_chars(2) [OF v(2)] v(2) last_in_set [of v] by (simp add: word_def)
    qed
    ultimately show "CHR 0x0A \<notin> set l \<and> l \<noteq> [] \<and> last l \<noteq> CHR 0x0D \<and> length l < 65536"
      using v word_chars(1) [OF v(1)] word_chars(1) [OF v(2)] by (auto simp: written_def word_def)
  qed
  moreover have "concat (map (\<lambda>l. l @ nl) (map (\<lambda>(w, v). written w v) rs))
      = concat (map (\<lambda>(w, v). w @ '' '' @ v @ nl) rs)"
    by (simp add: comp_def written_def split_def)
  ultimately show ?thesis by metis
qed

text \<open>What the lines of any number of records yield when they are read.\<close>

lemma read_records:
  assumes "\<forall>(w, v) \<in> set rs. word w \<and> word v \<and> length w + length v < 65535"
  shows "map (\<lambda>l. (token 0 l, token 1 l)) (scan_lines (concat (map (\<lambda>(w, v). w @ '' '' @ v @ nl) rs))) = rs"
  unfolding scan_records [OF assms] map_map
  using assms by (intro map_idI) (auto simp: token_written [unfolded One_nat_def])

subsection \<open>One map task\<close>

text \<open>The words of bucket \<open>b\<close> among \<open>n\<close>.\<close>

definition in_bucket :: "int \<Rightarrow> int \<Rightarrow> string list \<Rightarrow> string list" where
  "in_bucket n b ws = filter (\<lambda>w. bucket n w = b) ws"

definition lines_for :: "MapRequest \<Rightarrow> string list \<Rightarrow> string" where
  "lines_for req ws = concat (map (emitted (mr_Mode req) (mr_Filename req)) ws)"

lemma append_to_other: "p \<noteq> q \<Longrightarrow> map_of (append_to q t fs) p = map_of fs p"
  by (simp add: append_to_def split: option.split)

lemma append_to_same: "map_of fs p = Some c \<Longrightarrow> map_of (append_to p t fs) p = Some (c @ t)"
  by (simp add: append_to_def)

lemma map_words_total: "mr_NumReducers req \<noteq> 0 \<Longrightarrow> \<exists>fs'. map_words req ws fs = Some fs'"
  by (induction ws arbitrary: fs) auto

lemma map_words_file:
  assumes "map_words req ws fs = Some fs'" and "0 \<le> mr_MapTaskId req"
    and "map_of fs (intermediate (mr_MapTaskId req) b) = Some c"
  shows "map_of fs' (intermediate (mr_MapTaskId req) b) =
    Some (c @ lines_for req (in_bucket (mr_NumReducers req) b ws))"
  using assms
proof (induction ws arbitrary: fs c)
  case Nil
  then show ?case by (simp add: lines_for_def in_bucket_def)
next
  case (Cons w ws)
  let ?i = "mr_MapTaskId req" and ?b = "bucket (mr_NumReducers req) w"
  let ?t = "emitted (mr_Mode req) (mr_Filename req) w"
  have step: "map_words req ws (append_to (intermediate ?i ?b) ?t fs) = Some fs'"
    using Cons.prems(1) by (auto split: if_splits)
  show ?case
  proof (cases "?b = b")
    case True
    then show ?thesis
      using Cons.IH [OF step Cons.prems(2)] append_to_same [OF Cons.prems(3)]
      by (simp add: lines_for_def in_bucket_def)
  next
    case False
    then have "intermediate ?i b \<noteq> intermediate ?i ?b"
      using intermediate_inj [of ?i b ?i ?b] Cons.prems(2) by auto
    then show ?thesis
      using Cons.IH [OF step Cons.prems(2)] Cons.prems(3) False
      by (simp add: append_to_other lines_for_def in_bucket_def)
  qed
qed

lemma map_words_other:
  assumes "map_words req ws fs = Some fs'" and "\<And>b. p \<noteq> intermediate (mr_MapTaskId req) b"
  shows "map_of fs' p = map_of fs p"
  using assms(1)
  by (induction ws arbitrary: fs) (auto simp: append_to_other assms(2) split: if_splits)

lemma create_files_lookup:
  "map_of (foldl (\<lambda>fs i. gput (intermediate m (int i)) '''' fs) fs [0..<k]) p =
     (if \<exists>i<k. p = intermediate m (int i) then Some '''' else map_of fs p)"
  by (induction k) (auto simp: less_Suc_eq)

text \<open>What a map task leaves on a file that can be opened.\<close>

definition mapped :: "MapRequest \<Rightarrow> files \<Rightarrow> files \<Rightarrow> bool" where
  "mapped req fs fs' \<longleftrightarrow>
     (\<forall>b. 0 \<le> b \<and> b < mr_NumReducers req \<longrightarrow>
        map_of fs' (intermediate (mr_MapTaskId req) b) =
          Some (lines_for req (in_bucket (mr_NumReducers req) b (words_of (gget '''' fs (mr_Filename req))))))
     \<and> (\<forall>p. (\<forall>b. p \<noteq> intermediate (mr_MapTaskId req) b) \<longrightarrow> map_of fs' p = map_of fs p)"

lemma WorkerMap_mapped:
  assumes "map_of fs (mr_Filename req) \<noteq> None" and "0 < mr_NumReducers req" and "0 \<le> mr_MapTaskId req"
    and "\<And>b. mr_Filename req \<noteq> intermediate (mr_MapTaskId req) b"
  shows "\<exists>fs'. WorkerMap req fs = (fs', Some (None, \<lparr>tr_Success = True, tr_Message = ''Map task completed''\<rparr>))
    \<and> mapped req fs fs'"
proof -
  let ?fs1 = "create_files req fs" and ?i = "mr_MapTaskId req" and ?n = "mr_NumReducers req"
  have look: "map_of ?fs1 p = (if \<exists>k<nat ?n. p = intermediate ?i (int k) then Some '''' else map_of fs p)" for p
    unfolding create_files_def by (rule create_files_lookup)
  then have input: "gget '''' ?fs1 (mr_Filename req) = gget '''' fs (mr_Filename req)"
    using assms(4) by (simp add: gget_def)
  let ?ws = "words_of (gget '''' fs (mr_Filename req))"
  obtain fs' where m: "map_words req ?ws ?fs1 = Some fs'"
    using map_words_total [of req ?ws ?fs1] assms(2) by auto
  have "mapped req fs fs'"
    unfolding mapped_def
  proof (intro conjI allI impI)
    fix b
    assume "0 \<le> b \<and> b < ?n"
    then have "\<exists>k<nat ?n. intermediate ?i b = intermediate ?i (int k)" by (intro exI [of _ "nat b"]) auto
    then have "map_of ?fs1 (intermediate ?i b) = Some ''''" by (simp add: look)
    from map_words_file [OF m assms(3) this]
    show "map_of fs' (intermediate ?i b) = Some (lines_for req (in_bucket ?n b ?ws))" by simp
  next
    fix p
    assume "\<forall>b. p \<noteq> intermediate ?i b"
    then show "map_of fs' p = map_of fs p" using map_words_other [OF m, of p] by (simp add: look)
  qed
  moreover have "WorkerMap req fs = (fs', Some (None, \<lparr>tr_Success = True, tr_Message = ''Map task completed''\<rparr>))"
    using assms(1) m input by (auto simp: WorkerMap_def Let_def)
  ultimately show ?thesis by blast
qed

subsection \<open>Map and Reduce agree on the format\<close>

text \<open>What a record says of its word: the name of the file, or the count one.\<close>

definition second_field :: "MapRequest \<Rightarrow> string" where
  "second_field req = (if mr_Mode req = ''inverted_index'' then Base (mr_Filename req) else ''1'')"

lemma one_is_word: "word ''1''"
  by (simp add: word_def ascii_def is_space_def byte_def)

lemma lines_for_records:
  assumes "mr_Mode req \<in> {''inverted_index'', ''word_count''}"
  shows "lines_for req ws = concat (map (\<lambda>(w, v). w @ '' '' @ v @ nl) (map (\<lambda>w. (w, second_field req)) ws))"
proof -
  have "emitted (mr_Mode req) (mr_Filename req) = (\<lambda>w. w @ '' '' @ second_field req @ nl)"
    using assms by (auto simp: fun_eq_iff emitted_def second_field_def)
  then show ?thesis by (simp add: lines_for_def comp_def)
qed

text \<open>C28. What Map writes, Reduce reads. A map task of either mode over an ASCII file that can be opened, with at
  least one reducer, leaves in its intermediate file for bucket b a text that the reduce task's scanner and
  Sscanf take apart into exactly one record for each word of the input whose hash falls into bucket b, in the
  order of the input and none lost: the word, and with it the count 1 or the base name of the input file.
  The conditions are that the input is not one of the task's own intermediate files, that for the inverted index the
  base name is a single ASCII word, and that no record reaches the 64 KiB at which the scanner stops.\<close>

theorem records_are_read_back:
  assumes input: "map_of fs (mr_Filename req) = Some text" "ascii text"
      "\<forall>b. mr_Filename req \<noteq> intermediate (mr_MapTaskId req) b"
    and n: "0 < mr_NumReducers req" and i: "0 \<le> mr_MapTaskId req"
    and mode: "mr_Mode req \<in> {''inverted_index'', ''word_count''}"
    and name: "mr_Mode req = ''inverted_index'' \<longrightarrow> word (Base (mr_Filename req))"
    and short: "\<forall>w \<in> set (words_of text). length w + length (second_field req) < 65535"
    and b: "0 \<le> b" "b < mr_NumReducers req"
  shows "\<exists>fs' out. WorkerMap req fs = (fs', Some (None, \<lparr>tr_Success = True, tr_Message = ''Map task completed''\<rparr>))
    \<and> map_of fs' (intermediate (mr_MapTaskId req) b) = Some out
    \<and> map (\<lambda>l. (token 0 l, token 1 l)) (scan_lines out)
      = map (\<lambda>w. (w, second_field req)) (filter (\<lambda>w. bucket (mr_NumReducers req) w = b) (words_of text))"
proof -
  let ?ws = "in_bucket (mr_NumReducers req) b (words_of text)"
  obtain fs' where w: "WorkerMap req fs = (fs', Some (None, \<lparr>tr_Success = True, tr_Message = ''Map task completed''\<rparr>))"
    and m: "mapped req fs fs'"
    using WorkerMap_mapped [of fs req] input n i by auto
  have "gget '''' fs (mr_Filename req) = text" using input(1) by (simp add: gget_def)
  then have out: "map_of fs' (intermediate (mr_MapTaskId req) b) = Some (lines_for req ?ws)"
    using m b by (simp add: mapped_def)
  have "word (second_field req)" using mode name one_is_word by (auto simp: second_field_def)
  then have "\<forall>(w, v) \<in> set (map (\<lambda>w. (w, second_field req)) ?ws). word w \<and> word v \<and> length w + length v < 65535"
    using short words_of_words [OF input(2)] by (auto simp: in_bucket_def)
  from read_records [OF this] w out show ?thesis
    by (intro exI [of _ fs'] exI [of _ "lines_for req ?ws"]) (simp add: lines_for_records [OF mode] in_bucket_def)
qed

theorem records_are_read_back_witness:
  "\<exists>fs' out. WorkerMap \<lparr>mr_MapTaskId = 0, mr_Filename = ''dataset/a.txt'', mr_NumReducers = 1, mr_Mode = ''word_count''\<rparr>
        [(''dataset/a.txt'', ''the fox'')] = (fs', Some (None, \<lparr>tr_Success = True, tr_Message = ''Map task completed''\<rparr>))
    \<and> map_of fs' (intermediate 0 0) = Some out
    \<and> map (\<lambda>l. (token 0 l, token 1 l)) (scan_lines out) = [(''the'', ''1''), (''fox'', ''1'')]"
proof -
  let ?req = "\<lparr>mr_MapTaskId = 0, mr_Filename = ''dataset/a.txt'', mr_NumReducers = 1, mr_Mode = ''word_count''\<rparr>"
  let ?fs = "[(''dataset/a.txt'', ''the fox'')]"
  have words: "words_of ''the fox'' = [''the'', ''fox'']" by code_simp
  have "bucket 1 w = 0" for w by (simp add: bucket_def go_rem_def)
  moreover have "ascii ''the fox''" by (simp add: ascii_def byte_def)
  moreover have "\<forall>b. ''dataset/a.txt'' \<noteq> intermediate 0 b" by (simp add: intermediate_def)
  ultimately show ?thesis
    using records_are_read_back [of ?fs ?req "''the fox''" 0] by (simp add: words second_field_def)
qed

subsection \<open>All map tasks\<close>

definition not_intermediate :: "string \<Rightarrow> bool" where
  "not_intermediate p \<longleftrightarrow> (\<forall>m b. p \<noteq> intermediate m b)"

definition input_ok :: "files \<Rightarrow> string \<Rightarrow> bool" where
  "input_ok fs f \<longleftrightarrow> map_of fs f \<noteq> None \<and> not_intermediate f"

definition content_of :: "files \<Rightarrow> string \<Rightarrow> string" where
  "content_of fs f = gget '''' fs f"

lemma run_maps_mapped:
  assumes "\<forall>f \<in> set dataset. input_ok fs f" and "0 \<le> i" and "i + int (length dataset) \<le> 2 ^ 31"
    and n: "0 < ms_numReducers m" "ms_numReducers m < 2 ^ 31" and up: "\<And>p. up p"
  shows "(\<forall>j < length dataset. \<forall>b. 0 \<le> b \<and> b < ms_numReducers m \<longrightarrow>
      map_of (fst (run_maps up m i dataset fs)) (intermediate (i + int j) b) =
        Some (lines_for (map_request m (i + int j) (dataset ! j))
          (in_bucket (ms_numReducers m) b (words_of (content_of fs (dataset ! j))))))
    \<and> (\<forall>p. (\<forall>j < length dataset. \<forall>b. p \<noteq> intermediate (i + int j) b) \<longrightarrow>
        map_of (fst (run_maps up m i dataset fs)) p = map_of fs p)
    \<and> snd (run_maps up m i dataset fs) = replicate (length dataset) ''Map task completed''"
  using assms(1-3)
proof (induction dataset arbitrary: i fs)
  case Nil
  then show ?case by simp
next
  case (Cons f rest)
  let ?n = "ms_numReducers m"
  let ?req = "map_request m i f"
  have req: "mr_MapTaskId ?req = i" "mr_Filename ?req = f" "mr_NumReducers ?req = ?n"
    using Cons.prems n by (simp_all add: map_request_def i32_id)
  have "\<exists>fs1. WorkerMap ?req fs = (fs1, Some (None, \<lparr>tr_Success = True, tr_Message = ''Map task completed''\<rparr>))
      \<and> mapped ?req fs fs1"
    by (rule WorkerMap_mapped) (use Cons.prems n req in \<open>auto simp: input_ok_def not_intermediate_def\<close>)
  then obtain fs1 where w: "WorkerMap ?req fs = (fs1, Some (None, \<lparr>tr_Success = True, tr_Message = ''Map task completed''\<rparr>))"
    and fs1: "mapped ?req fs fs1" by blast
  have keep: "map_of fs1 p = map_of fs p" if "\<And>b. p \<noteq> intermediate i b" for p
    using fs1 that by (simp add: mapped_def req)
  have inputs: "input_ok fs1 g" "content_of fs1 g = content_of fs g" if "g \<in> set rest" for g
    using Cons.prems(1) that keep [of g] by (auto simp: input_ok_def not_intermediate_def content_of_def gget_def)
  obtain fs2 out where r: "run_maps up m (i + 1) rest fs1 = (fs2, out)" by fastforce
  have all: "run_maps up m i (f # rest) fs = (fs2, ''Map task completed'' # out)"
    using up w r by (simp add: AssignMapTask_def)
  have IH1: "map_of fs2 (intermediate (i + 1 + int j) b) =
      Some (lines_for (map_request m (i + 1 + int j) (rest ! j))
        (in_bucket ?n b (words_of (content_of fs1 (rest ! j)))))"
    if "j < length rest" "0 \<le> b" "b < ?n" for j b
    using Cons.IH [of fs1 "i + 1"] inputs Cons.prems(2,3) that r by simp
  have IH2: "map_of fs2 p = map_of fs1 p" if "\<And>j b. j < length rest \<Longrightarrow> p \<noteq> intermediate (i + 1 + int j) b" for p
    using Cons.IH [of fs1 "i + 1"] inputs Cons.prems(2,3) that r by simp
  have IH3: "out = replicate (length rest) ''Map task completed''"
    using Cons.IH [of fs1 "i + 1"] inputs Cons.prems(2,3) r by simp
  have first: "map_of fs2 (intermediate i b) =
      Some (lines_for ?req (in_bucket ?n b (words_of (content_of fs f))))" if "0 \<le> b" "b < ?n" for b
  proof -
    have "intermediate i b \<noteq> intermediate (i + 1 + int j) b'" for j b'
      using intermediate_inj [of i b "i + 1 + int j" b'] Cons.prems(2) by auto
    then have "map_of fs2 (intermediate i b) = map_of fs1 (intermediate i b)" by (rule IH2)
    then show ?thesis using fs1 that by (simp add: mapped_def req content_of_def)
  qed
  show ?case
    unfolding all
  proof (intro conjI allI impI)
    fix j b
    assume j: "j < length (f # rest)" and b: "0 \<le> b \<and> b < ?n"
    show "map_of (fst (fs2, ''Map task completed'' # out)) (intermediate (i + int j) b) =
        Some (lines_for (map_request m (i + int j) ((f # rest) ! j))
          (in_bucket ?n b (words_of (content_of fs ((f # rest) ! j)))))"
    proof (cases j)
      case 0
      then show ?thesis using first b by simp
    next
      case (Suc k)
      then have "k < length rest" "i + int j = i + 1 + int k" using j by simp_all
      then show ?thesis using IH1 [of k b] b inputs(2) [of "rest ! k"] Suc by (simp add: add.assoc)
    qed
  next
    fix p
    assume p: "\<forall>j < length (f # rest). \<forall>b. p \<noteq> intermediate (i + int j) b"
    have "p \<noteq> intermediate (i + 1 + int j) b" if "j < length rest" for j b
      using p [rule_format, of "Suc j" b] that by (simp add: add.assoc)
    moreover have "p \<noteq> intermediate i b" for b using p [rule_format, of 0 b] by simp
    ultimately show "map_of (fst (fs2, ''Map task completed'' # out)) p = map_of fs p"
      using IH2 [of p] keep [of p] by simp
  qed (simp add: IH3)
qed

subsection \<open>Counting\<close>

lemma reduce_texts_upto:
  assumes "\<forall>j<k. map_of fs (intermediate (int (m + j)) r) = Some (t j)"
    and "map_of fs (intermediate (int (m + k)) r) = None"
  shows "reduce_texts fs m r = map t [0..<k]"
  using assms
proof (induction k arbitrary: m t)
  case 0
  then show ?case by (simp add: reduce_texts.simps [of fs m r])
next
  case (Suc k)
  have "map_of fs (intermediate (int m) r) = Some (t 0)" using Suc.prems(1) by (metis add.right_neutral zero_less_Suc)
  moreover have "reduce_texts fs (m + 1) r = map (\<lambda>j. t (Suc j)) [0..<k]"
  proof (rule Suc.IH)
    show "\<forall>j<k. map_of fs (intermediate (int (m + 1 + j)) r) = Some (t (Suc j))"
      using Suc.prems(1) by (metis Suc_less_eq add.assoc plus_1_eq_Suc)
    show "map_of fs (intermediate (int (m + 1 + k)) r) = None"
      using Suc.prems(2) by (simp add: add.assoc)
  qed
  ultimately have "reduce_texts fs m r = t 0 # map (\<lambda>j. t (Suc j)) [0..<k]"
    by (subst reduce_texts.simps) simp
  then show ?case by (simp add: upt_conv_Cons map_Suc_upt [symmetric] comp_def del: upt_Suc)
qed

definition count_words :: "string list \<Rightarrow> counts" where
  "count_words ws = foldl count_line [] (map (\<lambda>w. written w ''1'') ws)"

lemma word_one: "word ''1''" "scan_int ''1'' = 1"
  by (simp_all add: word_def ascii_def is_space_def byte_def scan_int_def is_digit_def number_of_def
      digit_value_def Let_def i64_def)

lemma count_words_snoc:
  "word w \<Longrightarrow> count_words (ws @ [w]) = gput w (i64 (gget 0 (count_words ws) w + 1)) (count_words ws)"
  using token_written [OF _ word_one(1), of w]
  by (simp add: count_words_def count_line_def word_one(2))

lemma count_words_spec:
  assumes "\<forall>w \<in> set ws. word w"
  shows "fst ` set (count_words ws) = set ws \<and> (\<forall>v. gget 0 (count_words ws) v = i64 (int (count_list ws v)))"
  using assms
proof (induction ws rule: rev_induct)
  case Nil
  then show ?case by (simp add: count_words_def gget_def i64_def)
next
  case (snoc w ws)
  then show ?case
    by (auto simp: count_words_snoc keys_gput gget_gput i64_add)
qed

text \<open>The words of all input files, in the order of the map tasks.\<close>

definition all_words :: "files \<Rightarrow> string list \<Rightarrow> string list" where
  "all_words fs dataset = concat (map (\<lambda>f. words_of (content_of fs f)) dataset)"

lemma scan_word_lines:
  assumes "\<forall>w \<in> set ws. word w \<and> length w < 65534"
  shows "scan_lines (concat (map (\<lambda>w. w @ '' 1'' @ nl) ws)) = map (\<lambda>w. written w ''1'') ws"
  using scan_records [of "map (\<lambda>w. (w, ''1'')) ws"] assms word_one(1) by (simp add: comp_def)

lemma in_bucket_concat: "concat (map (\<lambda>x. in_bucket n b (f x)) xs) = in_bucket n b (concat (map f xs))"
  by (induction xs) (simp_all add: in_bucket_def)

lemma map_nth_upt: "map (\<lambda>j. f (xs ! j)) [0..<length xs] = map f xs"
  by (metis map_map map_nth comp_def map_cong)

lemma emitted_count: "emitted ''word_count'' f = (\<lambda>w. w @ '' 1'' @ nl)"
  by (simp add: fun_eq_iff emitted_def)

text \<open>What the reduce task of bucket \<open>b\<close> finds after the map tasks.\<close>

lemma reduce_texts_after_maps:
  assumes ok: "\<forall>f \<in> set dataset. input_ok fs f" and len: "int (length dataset) \<le> 2 ^ 31"
    and n: "0 < ms_numReducers m" "ms_numReducers m < 2 ^ 31" and up: "\<And>p. up p"
    and b: "0 \<le> b" "b < ms_numReducers m"
    and stale: "map_of fs (intermediate (int (length dataset)) b) = None"
  shows "reduce_texts (fst (run_maps up m 0 dataset fs)) 0 b =
    map (\<lambda>f. concat (map (emitted (ms_Mode m) f)
          (in_bucket (ms_numReducers m) b (words_of (content_of fs f))))) dataset"
proof -
  let ?n = "ms_numReducers m" and ?fs = "fst (run_maps up m 0 dataset fs)"
  let ?t = "\<lambda>f. concat (map (emitted (ms_Mode m) f) (in_bucket ?n b (words_of (content_of fs f))))"
  note maps = run_maps_mapped [of dataset fs 0 m up, OF ok _ _ n up]
  have made: "map_of ?fs (intermediate (int j) b) = Some (?t (dataset ! j))" if "j < length dataset" for j
    using maps len that b by (simp add: lines_for_def map_request_def)
  have "intermediate (int (length dataset)) b \<noteq> intermediate (int j) b'" if "j < length dataset" for j b'
    using intermediate_inj [of "int (length dataset)" b "int j" b'] that by auto
  then have none: "map_of ?fs (intermediate (int (length dataset)) b) = None"
    using maps len stale by simp
  have "reduce_texts ?fs 0 b = map (\<lambda>j. ?t (dataset ! j)) [0..<length dataset]"
    by (rule reduce_texts_upto) (use made none in simp_all)
  also have "\<dots> = map ?t dataset" by (rule map_nth_upt)
  finally show ?thesis .
qed

lemma foldl_texts:
  "foldl (\<lambda>c text. foldl g c (scan_lines text)) c texts = foldl g c (concat (map scan_lines texts))"
  by (induction texts arbitrary: c) simp_all

text \<open>The counts of bucket \<open>b\<close> after the map tasks.\<close>

lemma word_counts_after_maps:
  assumes "\<forall>f \<in> set dataset. input_ok fs f \<and> ascii (content_of fs f)"
    and len: "int (length dataset) \<le> 2 ^ 31"
    and n: "0 < ms_numReducers m" "ms_numReducers m < 2 ^ 31" and up: "\<And>p. up p"
    and mode: "ms_Mode m = ''word_count''"
    and short: "\<forall>w \<in> set (all_words fs dataset). length w < 65534"
    and b: "0 \<le> b" "b < ms_numReducers m"
    and stale: "map_of fs (intermediate (int (length dataset)) b) = None"
  shows "word_counts (fst (run_maps up m 0 dataset fs)) b =
    count_words (in_bucket (ms_numReducers m) b (all_words fs dataset))"
proof -
  let ?w = "\<lambda>f. in_bucket (ms_numReducers m) b (words_of (content_of fs f))"
  have ok: "\<forall>f \<in> set dataset. input_ok fs f" using assms(1) by blast
  have scan: "scan_lines (concat (map (\<lambda>w. w @ '' 1'' @ nl) (?w f))) = map (\<lambda>w. written w ''1'') (?w f)"
    if "f \<in> set dataset" for f
    by (rule scan_word_lines)
      (use that short assms(1) words_of_words in \<open>auto simp: in_bucket_def all_words_def\<close>)
  have "map scan_lines (reduce_texts (fst (run_maps up m 0 dataset fs)) 0 b)
      = map (\<lambda>f. map (\<lambda>w. written w ''1'') (?w f)) dataset"
    using scan by (simp add: reduce_texts_after_maps [OF ok len n up b stale] mode emitted_count)
  then show ?thesis
    by (simp add: word_counts_def foldl_texts count_words_def map_concat [symmetric] comp_def
        flip: in_bucket_concat add: all_words_def) (simp add: map_concat comp_def)
qed

subsection \<open>All reduce tasks\<close>

lemma out_file_inj: "out_file i = out_file j \<longleftrightarrow> i = j"
  using itoa_inj_all by (auto simp: out_file_def)

lemma out_not_intermediate: "out_file r \<noteq> intermediate m b"
  by (simp add: out_file_def intermediate_def)

lemma reduce_texts_out: "reduce_texts (gput (out_file k) t fs) m r = reduce_texts fs m r"
proof (induction fs m r rule: reduce_texts.induct)
  case (1 fs m r)
  then show ?case
    using out_not_intermediate [of k "int m" r]
    by (subst (1 2) reduce_texts.simps) (auto split: option.split)
qed

lemma word_counts_out: "word_counts (gput (out_file k) t fs) r = word_counts fs r"
  by (simp add: word_counts_def reduce_texts_out)

lemma inverted_index_out: "inverted_index (gput (out_file k) t fs) r = inverted_index fs r"
  by (simp add: inverted_index_def reduce_texts_out)

text \<open>The output of a reduce task.\<close>

definition count_text :: "orders \<Rightarrow> counts \<Rightarrow> string" where
  "count_text os c = concat (map (\<lambda>w. w @ '' '' @ itoa (gget 0 c w) @ nl) (or_counts os c))"

definition index_text :: "orders \<Rightarrow> index \<Rightarrow> string" where
  "index_text os x =
     concat (map (\<lambda>w. w @ '' ['' @ join_with (CHR '' '') (or_files os (gget [] x w)) @ '']'' @ nl) (or_index os x))"

definition reduce_output :: "orders \<Rightarrow> string \<Rightarrow> files \<Rightarrow> int \<Rightarrow> string" where
  "reduce_output os mode fs i =
     (if mode = ''inverted_index'' then index_text os (inverted_index fs i)
      else count_text os (word_counts fs i))"

lemma reduce_output_out: "reduce_output os mode (gput (out_file k) t fs) i = reduce_output os mode fs i"
  by (simp add: reduce_output_def word_counts_out inverted_index_out)

lemma run_reduces_outputs:
  assumes "distinct is" and "\<forall>i \<in> set is. 0 \<le> i \<and> i < 2 ^ 31" and up: "\<And>p. up p"
    and mode: "ms_Mode m \<in> {''inverted_index'', ''word_count''}"
  shows "(\<forall>i \<in> set is. map_of (fst (run_reduces up os m is fs)) (out_file i) = Some (reduce_output os (ms_Mode m) fs i))
    \<and> (\<forall>i. i \<notin> set is \<longrightarrow> map_of (fst (run_reduces up os m is fs)) (out_file i) = map_of fs (out_file i))
    \<and> snd (run_reduces up os m is fs) = replicate (length is) ''Reduce task completed''"
  using assms(1,2)
proof (induction "is" arbitrary: fs)
  case Nil
  then show ?case by simp
next
  case (Cons i rest)
  let ?fs1 = "gput (out_file i) (reduce_output os (ms_Mode m) fs i) fs"
  have "AssignReduceTask up os m \<lparr>rr_ReduceTaskId = i32 i, rr_Mode = ms_Mode m\<rparr> fs = (?fs1, Inr completed_task)"
    using Cons.prems(2) up mode
    by (auto simp: AssignReduceTask_def WorkerReduce_def reduceWordCount_def reduceInvertedIndex_def Let_def i32_id
        count_text_def index_text_def reduce_output_def)
  then have "run_reduces up os m (i # rest) fs =
      (case run_reduces up os m rest ?fs1 of (fs2, out) \<Rightarrow> (fs2, ''Reduce task completed'' # out))"
    by (simp add: completed_task_def)
  then show ?case
    using Cons.IH [of ?fs1] Cons.prems by (auto simp: reduce_output_out out_file_inj split: prod.splits)
qed

text \<open>A whole job: bucket \<open>b\<close>'s output is that of the reduce task over what the map phase left.\<close>

lemma run_job_output:
  assumes "dataset \<noteq> []" and n: "Atoi a = Inr n" "0 < n" "n < 2 ^ 31" and up: "\<And>p. up p" and b: "0 \<le> b" "b < n"
    and mode: "mode \<in> {''inverted_index'', ''word_count''}"
  shows "map_of (fst (run_job up os [a, mode] dataset fs)) (out_file b) =
    Some (reduce_output os mode (fst (run_maps up
      \<lparr>ms_numMappers = int (length dataset), ms_numReducers = n, ms_Mode = mode\<rparr> 0 dataset fs)) b)"
proof -
  let ?m = "\<lparr>ms_numMappers = int (length dataset), ms_numReducers = n, ms_Mode = mode\<rparr>"
  let ?is = "map int [0..<nat n]" and ?fs1 = "fst (run_maps up ?m 0 dataset fs)"
  have "b = int (nat b)" "nat b < nat n" using b by auto
  then have mem: "b \<in> set ?is" by (metis atLeastLessThan_iff image_eqI le0 set_map set_upt)
  have d: "distinct ?is" "\<forall>i \<in> set ?is. 0 \<le> i \<and> i < 2 ^ 31" using n by (auto simp: distinct_map)
  have mode': "ms_Mode ?m \<in> {''inverted_index'', ''word_count''}" using mode by simp
  from run_reduces_outputs [where os = os and fs = ?fs1, OF d up mode', THEN conjunct1, rule_format, OF mem]
  have "map_of (fst (run_reduces up os ?m ?is ?fs1)) (out_file b) = Some (reduce_output os mode ?fs1 b)" by simp
  moreover have "fst (run_job up os [a, mode] dataset fs) = fst (run_reduces up os ?m ?is ?fs1)"
    using assms(1) n(1) by (simp add: run_job_def atoi_value_def Let_def split: prod.split)
  ultimately show ?thesis by simp
qed

text \<open>The output of one reduce task.\<close>

lemma word_count_output:
  assumes inputs: "\<forall>f \<in> set dataset. input_ok fs f \<and> ascii (content_of fs f)"
    and len: "dataset \<noteq> []" "int (length dataset) \<le> 2 ^ 31"
    and n: "Atoi a = Inr n" "0 < n" "n < 2 ^ 31" and up: "\<And>p. up p"
    and short: "\<forall>w \<in> set (all_words fs dataset). length w < 65534"
    and b: "0 \<le> b" "b < n" and stale: "map_of fs (intermediate (int (length dataset)) b) = None"
    and order: "\<And>c. distinct (or_counts os c) \<and> set (or_counts os c) = fst ` set c"
  shows "\<exists>ws. distinct ws \<and> set ws = {w \<in> set (all_words fs dataset). bucket n w = b}
    \<and> map_of (fst (run_job up os [a, ''word_count''] dataset fs)) (out_file b) =
        Some (concat (map (\<lambda>w. w @ '' '' @ itoa (i64 (int (count_list (all_words fs dataset) w))) @ nl) ws))"
proof -
  let ?m = "\<lparr>ms_numMappers = int (length dataset), ms_numReducers = n, ms_Mode = ''word_count''\<rparr>"
  let ?W = "all_words fs dataset"
  let ?c = "count_words (in_bucket n b ?W)"
  have "word_counts (fst (run_maps up ?m 0 dataset fs)) b = ?c"
    using word_counts_after_maps [of dataset fs ?m up b] inputs len(2) n(2,3) up short b stale by simp
  then have out: "map_of (fst (run_job up os [a, ''word_count''] dataset fs)) (out_file b) = Some (count_text os ?c)"
    using run_job_output [where os = os and fs = fs, OF len(1) n up b, of "''word_count''"]
    by (simp add: reduce_output_def)
  have "\<forall>w \<in> set (in_bucket n b ?W). word w"
    using inputs words_of_words by (auto simp: in_bucket_def all_words_def)
  note spec = count_words_spec [OF this]
  have "count_list (in_bucket n b ?W) w = count_list ?W w" if "w \<in> set (in_bucket n b ?W)" for w
    using that by (simp add: in_bucket_def count_list_eq_length_filter) (metis (mono_tags, lifting) filter_cong)
  then have "count_text os ?c =
      concat (map (\<lambda>w. w @ '' '' @ itoa (i64 (int (count_list ?W w))) @ nl) (or_counts os ?c))"
    using spec order [of ?c] unfolding count_text_def by (intro arg_cong [of _ _ concat] map_cong) auto
  then show ?thesis
    using order [of ?c] spec out by (intro exI [of _ "or_counts os ?c"]) (auto simp: in_bucket_def)
qed

text \<open>The words of a text fall into the buckets from 0 on, or into none.\<close>

lemma bucket_less: "0 < n \<Longrightarrow> bucket n w < n"
  by (simp add: bucket_def go_rem_less)

lemma buckets_cover:
  assumes "0 < n" and "\<forall>b. 0 \<le> b \<and> b < n \<longrightarrow> set (ws b) = {w \<in> W. bucket n w = b}"
  shows "(\<Union>b \<in> {0..<n}. set (ws b)) = {w \<in> W. 0 \<le> bucket n w}"
  using assms bucket_less [OF assms(1)] by auto

text \<open>C8. The word count job. A job with n reducers, whose workers all answer, over any number of ASCII input files,
  without a file of an earlier job with more input files left over, and with words below the scanner's limit,
  writes for each bucket from 0 to n - 1 an output file with one line for each word of the input whose hash has that
  remainder, each word once, with the number of its occurrences in all input files. Together the output files
  hold exactly the words of the input whose hash has a remainder that is not negative: the others are in no output file.
  The order of the lines is that of Go's loop over a map, an argument.\<close>

theorem word_count_job_is_correct:
  assumes inputs: "\<forall>f \<in> set dataset. input_ok fs f \<and> ascii (content_of fs f)"
    and len: "dataset \<noteq> []" "int (length dataset) \<le> 2 ^ 31"
    and n: "Atoi a = Inr n" "0 < n" "n < 2 ^ 31" and up: "\<And>p. up p"
    and short: "\<forall>w \<in> set (all_words fs dataset). length w < 65534"
    and stale: "\<forall>b. map_of fs (intermediate (int (length dataset)) b) = None"
    and order: "\<And>c. distinct (or_counts os c) \<and> set (or_counts os c) = fst ` set c"
  shows "\<exists>ws. (\<forall>b. 0 \<le> b \<and> b < n \<longrightarrow>
        distinct (ws b) \<and> set (ws b) = {w \<in> set (all_words fs dataset). bucket n w = b}
        \<and> map_of (fst (run_job up os [a, ''word_count''] dataset fs)) (out_file b) =
            Some (concat (map (\<lambda>w. w @ '' '' @ itoa (i64 (int (count_list (all_words fs dataset) w))) @ nl) (ws b))))
    \<and> (\<Union>b \<in> {0..<n}. set (ws b)) = {w \<in> set (all_words fs dataset). 0 \<le> bucket n w}"
proof -
  note out = word_count_output [of dataset fs a n up _ os, OF inputs len n up short _ _ _ order]
  have "\<forall>b \<in> {0..<n}. \<exists>ws. distinct ws \<and> set ws = {w \<in> set (all_words fs dataset). bucket n w = b}
      \<and> map_of (fst (run_job up os [a, ''word_count''] dataset fs)) (out_file b) =
          Some (concat (map (\<lambda>w. w @ '' '' @ itoa (i64 (int (count_list (all_words fs dataset) w))) @ nl) ws))"
    using stale by (intro ballI out) simp_all
  from bchoice [OF this] obtain ws where ws: "\<forall>b \<in> {0..<n}. distinct (ws b)
      \<and> set (ws b) = {w \<in> set (all_words fs dataset). bucket n w = b}
      \<and> map_of (fst (run_job up os [a, ''word_count''] dataset fs)) (out_file b) =
          Some (concat (map (\<lambda>w. w @ '' '' @ itoa (i64 (int (count_list (all_words fs dataset) w))) @ nl) (ws b)))"
    by blast
  then have "(\<Union>b \<in> {0..<n}. set (ws b)) = {w \<in> set (all_words fs dataset). 0 \<le> bucket n w}"
    by (intro buckets_cover [OF n(2)]) simp
  with ws show ?thesis by (intro exI [of _ ws]) simp
qed

subsection \<open>The inverted index\<close>

definition index_of :: "(string \<times> string) list \<Rightarrow> index" where
  "index_of rs = foldl index_line [] (map (\<lambda>(w, v). written w v) rs)"

lemma index_of_spec:
  assumes "\<forall>(w, v) \<in> set rs. word w \<and> word v"
  shows "fst ` set (index_of rs) = fst ` set rs
    \<and> (\<forall>w. fst ` set (gget [] (index_of rs) w) = {v. (w, v) \<in> set rs})"
  using assms
proof (induction rs rule: rev_induct)
  case Nil
  then show ?case by (simp add: index_of_def gget_def)
next
  case (snoc r rs)
  obtain w v where r: "r = (w, v)" by fastforce
  then have "token 0 (written w v) = w" "token (Suc 0) (written w v) = v"
    using snoc.prems token_written [of w v] by auto
  then have "index_of (rs @ [r]) = gput w (gput v True (gget [] (index_of rs) w)) (index_of rs)"
    by (simp add: index_of_def index_line_def r)
  then show ?case using snoc by (auto simp: r keys_gput gget_gput)
qed

text \<open>The records of bucket \<open>b\<close>: its words, each with the name of the file it stands in.\<close>

definition index_records :: "int \<Rightarrow> int \<Rightarrow> files \<Rightarrow> string list \<Rightarrow> (string \<times> string) list" where
  "index_records n b fs dataset =
     concat (map (\<lambda>f. map (\<lambda>w. (w, Base f)) (in_bucket n b (words_of (content_of fs f)))) dataset)"

lemma inverted_index_after_maps:
  assumes "\<forall>f \<in> set dataset. input_ok fs f \<and> ascii (content_of fs f) \<and> word (Base f)"
    and len: "int (length dataset) \<le> 2 ^ 31"
    and n: "0 < ms_numReducers m" "ms_numReducers m < 2 ^ 31" and up: "\<And>p. up p"
    and mode: "ms_Mode m = ''inverted_index''"
    and short: "\<forall>f \<in> set dataset. \<forall>w \<in> set (words_of (content_of fs f)). length w + length (Base f) < 65535"
    and b: "0 \<le> b" "b < ms_numReducers m"
    and stale: "map_of fs (intermediate (int (length dataset)) b) = None"
  shows "inverted_index (fst (run_maps up m 0 dataset fs)) b = index_of (index_records (ms_numReducers m) b fs dataset)"
proof -
  let ?w = "\<lambda>f. in_bucket (ms_numReducers m) b (words_of (content_of fs f))"
  let ?r = "\<lambda>f. map (\<lambda>w. (w, Base f)) (?w f)"
  have ok: "\<forall>f \<in> set dataset. input_ok fs f" using assms(1) by blast
  have emit: "emitted ''inverted_index'' f = (\<lambda>w. w @ '' '' @ Base f @ nl)" for f
    by (simp add: fun_eq_iff emitted_def)
  have scan: "scan_lines (concat (map (\<lambda>w. w @ '' '' @ Base f @ nl) (?w f))) = map (\<lambda>(w, v). written w v) (?r f)"
    if f: "f \<in> set dataset" for f
  proof -
    have "\<forall>(w, v) \<in> set (?r f). word w \<and> word v \<and> length w + length v < 65535"
      using f short assms(1) words_of_words by (auto simp: in_bucket_def)
    from scan_records [OF this] show ?thesis by (simp add: comp_def)
  qed
  have "map scan_lines (reduce_texts (fst (run_maps up m 0 dataset fs)) 0 b)
      = map (\<lambda>f. map (\<lambda>(w, v). written w v) (?r f)) dataset"
    using scan by (simp add: reduce_texts_after_maps [OF ok len n up b stale] mode emit)
  then have "inverted_index (fst (run_maps up m 0 dataset fs)) b
      = foldl index_line [] (concat (map (\<lambda>f. map (\<lambda>(w, v). written w v) (?r f)) dataset))"
    by (simp only: inverted_index_def foldl_texts)
  then show ?thesis by (simp add: index_of_def index_records_def map_concat comp_def)
qed

text \<open>The output of one reduce task.\<close>

lemma inverted_index_output:
  assumes inputs: "\<forall>f \<in> set dataset. input_ok fs f \<and> ascii (content_of fs f) \<and> word (Base f)"
    and len: "dataset \<noteq> []" "int (length dataset) \<le> 2 ^ 31"
    and n: "Atoi a = Inr n" "0 < n" "n < 2 ^ 31" and up: "\<And>p. up p"
    and short: "\<forall>f \<in> set dataset. \<forall>w \<in> set (words_of (content_of fs f)). length w + length (Base f) < 65535"
    and b: "0 \<le> b" "b < n" and stale: "map_of fs (intermediate (int (length dataset)) b) = None"
    and order: "\<And>x. distinct (or_index os x) \<and> set (or_index os x) = fst ` set x"
      "\<And>y. distinct (or_files os y) \<and> set (or_files os y) = fst ` set y"
  shows "\<exists>ws names. distinct ws \<and> set ws = {w \<in> set (all_words fs dataset). bucket n w = b}
    \<and> (\<forall>w \<in> set ws. distinct (names w)
          \<and> set (names w) = {Base f | f. f \<in> set dataset \<and> w \<in> set (words_of (content_of fs f))})
    \<and> map_of (fst (run_job up os [a, ''inverted_index''] dataset fs)) (out_file b) =
        Some (concat (map (\<lambda>w. w @ '' ['' @ join_with (CHR '' '') (names w) @ '']'' @ nl) ws))"
proof -
  let ?m = "\<lparr>ms_numMappers = int (length dataset), ms_numReducers = n, ms_Mode = ''inverted_index''\<rparr>"
  let ?rs = "index_records n b fs dataset"
  let ?x = "index_of ?rs" and ?names = "\<lambda>w. or_files os (gget [] (index_of (index_records n b fs dataset)) w)"
  have "inverted_index (fst (run_maps up ?m 0 dataset fs)) b = ?x"
    using inverted_index_after_maps [of dataset fs ?m up b] inputs len(2) n(2,3) up short b stale by simp
  then have out: "map_of (fst (run_job up os [a, ''inverted_index''] dataset fs)) (out_file b) = Some (index_text os ?x)"
    using run_job_output [where os = os and fs = fs, OF len(1) n up b, of "''inverted_index''"]
    by (simp add: reduce_output_def)
  have "\<forall>(w, v) \<in> set ?rs. word w \<and> word v"
    using inputs words_of_words by (auto simp: index_records_def in_bucket_def)
  note spec = index_of_spec [OF this]
  have words: "fst ` set ?rs = {w \<in> set (all_words fs dataset). bucket n w = b}"
    by (force simp: index_records_def all_words_def in_bucket_def)
  have names: "{v. (w, v) \<in> set ?rs}
      = {Base f | f. f \<in> set dataset \<and> w \<in> set (words_of (content_of fs f)) \<and> bucket n w = b}" for w
    by (auto simp: index_records_def in_bucket_def)
  have ws: "set (or_index os ?x) = {w \<in> set (all_words fs dataset). bucket n w = b}"
    using order(1) spec words by simp
  moreover have "set (?names w) = {Base f | f. f \<in> set dataset \<and> w \<in> set (words_of (content_of fs f))}"
    if "w \<in> set (or_index os ?x)" for w
    using order(2) [of "gget [] ?x w"] spec names [of w] that ws by simp
  ultimately show ?thesis
    using order(1) [of ?x] order(2) out
    by (intro exI [of _ "or_index os ?x"] exI [of _ ?names]) (simp add: index_text_def)
qed

text \<open>C9. The inverted index job. Under the conditions of the word count job, and with input files whose base names are
  single ASCII words, a job with n reducers writes for each bucket from 0 to n - 1 an output file with one line for
  each word of the input whose hash has that remainder, each word once, followed in brackets by the base names of
  exactly the files it occurs in, each once. Together the output files hold exactly the words of the input whose
  hash has a remainder that is not negative: the others are in no output file.\<close>

theorem inverted_index_job_is_correct:
  assumes inputs: "\<forall>f \<in> set dataset. input_ok fs f \<and> ascii (content_of fs f) \<and> word (Base f)"
    and len: "dataset \<noteq> []" "int (length dataset) \<le> 2 ^ 31"
    and n: "Atoi a = Inr n" "0 < n" "n < 2 ^ 31" and up: "\<And>p. up p"
    and short: "\<forall>f \<in> set dataset. \<forall>w \<in> set (words_of (content_of fs f)). length w + length (Base f) < 65535"
    and stale: "\<forall>b. map_of fs (intermediate (int (length dataset)) b) = None"
    and order: "\<And>x. distinct (or_index os x) \<and> set (or_index os x) = fst ` set x"
      "\<And>y. distinct (or_files os y) \<and> set (or_files os y) = fst ` set y"
  shows "\<exists>ws names. (\<forall>b. 0 \<le> b \<and> b < n \<longrightarrow>
        distinct (ws b) \<and> set (ws b) = {w \<in> set (all_words fs dataset). bucket n w = b}
        \<and> (\<forall>w \<in> set (ws b). distinct (names b w)
              \<and> set (names b w) = {Base f | f. f \<in> set dataset \<and> w \<in> set (words_of (content_of fs f))})
        \<and> map_of (fst (run_job up os [a, ''inverted_index''] dataset fs)) (out_file b) =
            Some (concat (map (\<lambda>w. w @ '' ['' @ join_with (CHR '' '') (names b w) @ '']'' @ nl) (ws b))))
    \<and> (\<Union>b \<in> {0..<n}. set (ws b)) = {w \<in> set (all_words fs dataset). 0 \<le> bucket n w}"
proof -
  let ?good = "\<lambda>b ws names. distinct ws \<and> set ws = {w \<in> set (all_words fs dataset). bucket n w = b}
      \<and> (\<forall>w \<in> set ws. distinct (names w)
            \<and> set (names w) = {Base f | f. f \<in> set dataset \<and> w \<in> set (words_of (content_of fs f))})
      \<and> map_of (fst (run_job up os [a, ''inverted_index''] dataset fs)) (out_file b) =
          Some (concat (map (\<lambda>w. w @ '' ['' @ join_with (CHR '' '') (names w) @ '']'' @ nl) ws))"
  note out = inverted_index_output [of dataset fs a n up _ os, OF inputs len n up short _ _ _ order]
  have "\<forall>b \<in> {0..<n}. \<exists>ws names. ?good b ws names"
    using stale by (intro ballI out) simp_all
  from bchoice [OF this] obtain ws where "\<forall>b \<in> {0..<n}. \<exists>names. ?good b (ws b) names" by blast
  from bchoice [OF this] obtain names where good: "\<forall>b \<in> {0..<n}. ?good b (ws b) (names b)" by blast
  then have "(\<Union>b \<in> {0..<n}. set (ws b)) = {w \<in> set (all_words fs dataset). 0 \<le> bucket n w}"
    by (intro buckets_cover [OF n(2)]) simp
  with good show ?thesis by (intro exI [of _ ws] exI [of _ names]) simp
qed

subsection \<open>Jobs to evaluate\<close>

definition in_key_order :: orders where
  "in_key_order =
     \<lparr>or_counts = (\<lambda>c. remdups (map fst c)), or_index = (\<lambda>x. remdups (map fst x)), or_files = (\<lambda>x. remdups (map fst x))\<rparr>"

definition two_files :: files where
  "two_files = [(''dataset/a.txt'', ''the cat'' @ nl @ ''the dog''), (''dataset/b.txt'', ''the end'' @ nl)]"

definition job :: "string \<Rightarrow> string \<Rightarrow> string list \<Rightarrow> files \<Rightarrow> files \<times> string list" where
  "job reducers mode dataset fs = run_job (\<lambda>_. True) in_key_order [reducers, mode] dataset fs"

lemma two_files_inputs:
  "\<forall>f \<in> set [''dataset/a.txt'', ''dataset/b.txt'']. input_ok two_files f \<and> ascii (content_of two_files f)"
  by (simp add: input_ok_def two_files_def not_intermediate_def intermediate_def content_of_def gget_def
      ascii_def byte_def nl_def)

lemma two_files_fresh: "map_of two_files (intermediate m b) = None"
  by (simp add: two_files_def intermediate_def)

lemma in_key_order_complete:
  "distinct (or_counts in_key_order c) \<and> set (or_counts in_key_order c) = fst ` set c"
  "distinct (or_index in_key_order x) \<and> set (or_index in_key_order x) = fst ` set x"
  "distinct (or_files in_key_order y) \<and> set (or_files in_key_order y) = fst ` set y"
  by (simp_all add: in_key_order_def)

theorem word_count_job_is_correct_witness:
  "\<exists>ws. (\<Union>b \<in> {0..<2 :: int}. set (ws b)) =
        {w \<in> set (all_words two_files [''dataset/a.txt'', ''dataset/b.txt'']). 0 \<le> bucket 2 w}
    \<and> map_of (fst (run_job (\<lambda>_. True) in_key_order [''2'', ''word_count'']
          [''dataset/a.txt'', ''dataset/b.txt''] two_files)) (out_file 1) =
        Some (concat (map (\<lambda>w. w @ '' '' @ itoa (i64 (int (count_list
          (all_words two_files [''dataset/a.txt'', ''dataset/b.txt'']) w))) @ nl) (ws 1)))"
proof -
  let ?d = "[''dataset/a.txt'', ''dataset/b.txt'']"
  have n: "Atoi ''2'' = Inr 2" by code_simp
  have "all_words two_files ?d = [''the'', ''cat'', ''the'', ''dog'', ''the'', ''end'']" by code_simp
  then have short: "\<forall>w \<in> set (all_words two_files ?d). length w < 65534" by simp
  have d: "?d \<noteq> []" "int (length ?d) \<le> 2 ^ 31" "0 < (2 :: int)" "(2 :: int) < 2 ^ 31" by simp_all
  have stale: "\<forall>b. map_of two_files (intermediate (int (length ?d)) b) = None" using two_files_fresh by blast
  from word_count_job_is_correct [OF two_files_inputs d(1,2) n d(3,4) TrueI short stale in_key_order_complete(1)]
  obtain ws :: "int \<Rightarrow> string list" where ws: "\<forall>b. 0 \<le> b \<and> b < 2 \<longrightarrow>
        distinct (ws b) \<and> set (ws b) = {w \<in> set (all_words two_files ?d). bucket 2 w = b}
        \<and> map_of (fst (run_job (\<lambda>_. True) in_key_order [''2'', ''word_count''] ?d two_files)) (out_file b) =
            Some (concat (map (\<lambda>w. w @ '' '' @ itoa (i64 (int (count_list (all_words two_files ?d) w))) @ nl) (ws b)))"
    and all: "(\<Union>b \<in> {0..<2 :: int}. set (ws b)) = {w \<in> set (all_words two_files ?d). 0 \<le> bucket 2 w}"
    by blast
  from ws [rule_format, of 1] all show ?thesis by (intro exI [of _ ws]) simp
qed

theorem inverted_index_job_is_correct_witness:
  "\<exists>ws names. (\<Union>b \<in> {0..<2 :: int}. set (ws b)) =
        {w \<in> set (all_words two_files [''dataset/a.txt'', ''dataset/b.txt'']). 0 \<le> bucket 2 w}
    \<and> map_of (fst (run_job (\<lambda>_. True) in_key_order [''2'', ''inverted_index'']
          [''dataset/a.txt'', ''dataset/b.txt''] two_files)) (out_file 1) =
        Some (concat (map (\<lambda>w. w @ '' ['' @ join_with (CHR '' '') (names (1 :: int) w) @ '']'' @ nl) (ws 1)))"
proof -
  let ?d = "[''dataset/a.txt'', ''dataset/b.txt'']"
  have n: "Atoi ''2'' = Inr 2" by code_simp
  have base: "Base ''dataset/a.txt'' = ''a.txt''" "Base ''dataset/b.txt'' = ''b.txt''"
    by (simp_all add: Base_def Let_def)
  have inputs: "\<forall>f \<in> set ?d. input_ok two_files f \<and> ascii (content_of two_files f) \<and> word (Base f)"
    using two_files_inputs
    by (simp add: base) (simp add: word_def ascii_def byte_def is_space_def)
  have "words_of (content_of two_files ''dataset/a.txt'') = [''the'', ''cat'', ''the'', ''dog'']"
    "words_of (content_of two_files ''dataset/b.txt'') = [''the'', ''end'']"
    by code_simp+
  then have short: "\<forall>f \<in> set ?d. \<forall>w \<in> set (words_of (content_of two_files f)). length w + length (Base f) < 65535"
    by (simp add: base)
  have d: "?d \<noteq> []" "int (length ?d) \<le> 2 ^ 31" "0 < (2 :: int)" "(2 :: int) < 2 ^ 31" by simp_all
  have stale: "\<forall>b. map_of two_files (intermediate (int (length ?d)) b) = None" using two_files_fresh by blast
  from inverted_index_job_is_correct [OF inputs d(1,2) n d(3,4) TrueI short stale in_key_order_complete(2,3)]
  obtain ws :: "int \<Rightarrow> string list" and names where ws: "\<forall>b. 0 \<le> b \<and> b < 2 \<longrightarrow>
        distinct (ws b) \<and> set (ws b) = {w \<in> set (all_words two_files ?d). bucket 2 w = b}
        \<and> (\<forall>w \<in> set (ws b). distinct (names b w)
              \<and> set (names b w) = {Base f | f. f \<in> set ?d \<and> w \<in> set (words_of (content_of two_files f))})
        \<and> map_of (fst (run_job (\<lambda>_. True) in_key_order [''2'', ''inverted_index''] ?d two_files)) (out_file b) =
            Some (concat (map (\<lambda>w. w @ '' ['' @ join_with (CHR '' '') (names b w) @ '']'' @ nl) (ws b)))"
    and all: "(\<Union>b \<in> {0..<2 :: int}. set (ws b)) = {w \<in> set (all_words two_files ?d). 0 \<le> bucket 2 w}"
    by blast
  from ws [rule_format, of 1] all show ?thesis by (intro exI [of _ ws] exI [of _ names]) simp
qed

text \<open>Two ways to a wrong output. Words whose hash overflows to a negative number with a remainder are lost: the
  bucket is negative, no file of that number exists, and the failed write goes unnoticed, so that a job over the
  single word "transformation" completes with two empty output files. And intermediate files of earlier jobs
  are counted again: after a job over two files, a job over the first file alone still finds the second map
  task's file, and its output is that of the earlier job.\<close>

lemma jobs_lose_and_recount_words:
  "(case job ''2'' ''word_count'' [''dataset/a.txt''] [(''dataset/a.txt'', ''transformation'')] of
     (fs, out) \<Rightarrow>
       bucket 2 ''transformation'' = - 1 \<and> map_of fs (out_file 0) = Some '''' \<and> map_of fs (out_file 1) = Some ''''
       \<and> out = [''Map task completed'', ''Reduce task completed'', ''Reduce task completed''])
   \<and> map_of (fst (job ''1'' ''word_count'' [''dataset/a.txt''] two_files)) (out_file 0) =
       Some (''the 2'' @ nl @ ''cat 1'' @ nl @ ''dog 1'' @ nl)
   \<and> map_of (fst (job ''1'' ''word_count'' [''dataset/a.txt'']
          (fst (job ''1'' ''word_count'' [''dataset/a.txt'', ''dataset/b.txt''] two_files)))) (out_file 0) =
       Some (''the 3'' @ nl @ ''cat 1'' @ nl @ ''dog 1'' @ nl @ ''end 1'' @ nl)"
  by (intro conjI; code_simp)

end
