(* ===== verification/MapReduce_Concurrent.thy ===== *)
theory MapReduce_Concurrent
  imports MapReduce_Theorems
begin

text \<open>
  The map tasks of a job run at the same time, each in a worker process of its own
  (P2-MapReduce/server/main.go and client/main.go). Here every creation of a file and every append is a step, and a
  schedule interleaves the steps of all tasks. The theorem says that the files are those of \<open>run_job\<close>, where
  the tasks run one after the other. Also here: how worker and master start.
\<close>

subsection \<open>File operations of a map task\<close>

datatype file_op = CreateFile string | AppendRecord string string

fun op_path :: "file_op \<Rightarrow> string" where
  "op_path (CreateFile p) = p"
| "op_path (AppendRecord p _) = p"

fun file_step :: "file_op \<Rightarrow> files \<Rightarrow> files" where
  "file_step (CreateFile p) fs = gput p '''' fs"
| "file_step (AppendRecord p t) fs = append_to p t fs"

text \<open>
  What Map does after it has opened the input: it creates the files of its buckets, then appends a record for each
  word. Without an input it does nothing; with zero reducers it panics before it writes.
\<close>

definition map_ops :: "MapRequest \<Rightarrow> files \<Rightarrow> file_op list" where
  "map_ops req fs =
     (case map_of fs (mr_Filename req) of
        None \<Rightarrow> []
      | Some text \<Rightarrow>
          if mr_NumReducers req = 0 then []
          else map (\<lambda>i. CreateFile (intermediate (mr_MapTaskId req) (int i))) [0..<nat (mr_NumReducers req)]
             @ map (\<lambda>w. AppendRecord (intermediate (mr_MapTaskId req) (bucket (mr_NumReducers req) w))
                         (emitted (mr_Mode req) (mr_Filename req) w)) (words_of text))"

subsection \<open>Interleaved map tasks\<close>

datatype map_task = WaitingTask MapRequest | WritingTask "file_op list"

text \<open>Task \<open>k\<close> opens its input, or does its next operation.\<close>

definition map_task_step :: "nat \<Rightarrow> map_task list \<times> files \<Rightarrow> (map_task list \<times> files) option" where
  "map_task_step k st =
     (case st of (ts, fs) \<Rightarrow>
        if k < length ts
        then (case ts ! k of
                WaitingTask req \<Rightarrow> Some (ts[k := WritingTask (map_ops req fs)], fs)
              | WritingTask [] \<Rightarrow> None
              | WritingTask (op # ops) \<Rightarrow> Some (ts[k := WritingTask ops], file_step op fs))
        else None)"

fun run_map_tasks :: "nat list \<Rightarrow> map_task list \<times> files \<Rightarrow> (map_task list \<times> files) option" where
  "run_map_tasks [] st = Some st"
| "run_map_tasks (k # ks) st =
     (case map_task_step k st of None \<Rightarrow> None | Some st' \<Rightarrow> run_map_tasks ks st')"

fun task_done :: "map_task \<Rightarrow> bool" where
  "task_done (WritingTask []) = True"
| "task_done _ = False"

fun map_requests :: "Master \<Rightarrow> int \<Rightarrow> string list \<Rightarrow> MapRequest list" where
  "map_requests m i [] = []"
| "map_requests m i (file # rest) = map_request m i file # map_requests m (i + 1) rest"

text \<open>The map phase: \<open>wg.Wait()\<close> returns when all tasks are done.\<close>

definition concurrent_maps :: "nat list \<Rightarrow> Master \<Rightarrow> string list \<Rightarrow> files \<Rightarrow> files option" where
  "concurrent_maps sched m dataset fs =
     (case run_map_tasks sched (map WaitingTask (map_requests m 0 dataset), fs) of
        None \<Rightarrow> None
      | Some (ts, fs') \<Rightarrow> if list_all task_done ts then Some fs' else None)"

text \<open>The files that a job leaves; the reduce tasks begin when the map tasks are done.\<close>

definition concurrent_job ::
  "nat list \<Rightarrow> (int \<Rightarrow> bool) \<Rightarrow> orders \<Rightarrow> string list \<Rightarrow> string list \<Rightarrow> files \<Rightarrow> files option" where
  "concurrent_job sched up os args dataset fs =
     (case args of
        a # mode # _ \<Rightarrow>
          if dataset = [] then Some fs
          else
            (let m = \<lparr>ms_numMappers = int (length dataset), ms_numReducers = atoi_value a, ms_Mode = mode\<rparr>
             in case concurrent_maps sched m dataset fs of
                  None \<Rightarrow> None
                | Some fs1 \<Rightarrow> Some (fst (run_reduces up os m (map int [0..<nat (ms_numReducers m)]) fs1)))
      | _ \<Rightarrow> Some fs)"

subsection \<open>Operations on different files commute\<close>

fun fop :: "file_op \<Rightarrow> (string \<Rightarrow> string option) \<Rightarrow> string \<Rightarrow> string option" where
  "fop (CreateFile p) F = F(p \<mapsto> '''')"
| "fop (AppendRecord p t) F = (case F p of None \<Rightarrow> F | Some c \<Rightarrow> F(p \<mapsto> c @ t))"

lemma map_of_file_step: "map_of (file_step op fs) = fop op (map_of fs)"
  by (cases op) (simp_all add: append_to_def split: option.split)

lemma map_of_fold: "map_of (fold file_step ops fs) = fold fop ops (map_of fs)"
  by (induction ops arbitrary: fs) (simp_all add: map_of_file_step)

lemma fop_other: "p \<noteq> op_path op \<Longrightarrow> fop op F p = F p"
  by (cases op) (simp_all split: option.split)

lemma fop_commute: "op_path a \<noteq> op_path b \<Longrightarrow> fop a (fop b F) = fop b (fop a F)"
  by (cases a; cases b) (auto simp: fun_upd_twist split: option.splits)

lemma fold_fop_front:
  assumes "\<forall>a \<in> set xs. op_path a \<noteq> op_path op"
  shows "fold fop (xs @ op # ys) F = fold fop (xs @ ys) (fop op F)"
  using assms
proof (induction xs arbitrary: F)
  case Nil
  then show ?case by simp
next
  case (Cons a xs)
  then show ?case using fop_commute [of a op F] by simp
qed

lemma fold_fop_other: "\<forall>a \<in> set ops. op_path a \<noteq> p \<Longrightarrow> fold fop ops F p = F p"
  by (induction ops arbitrary: F) (auto simp: fop_other)

subsection \<open>A task alone\<close>

lemma map_words_ops:
  "mr_NumReducers req \<noteq> 0 \<Longrightarrow> map_words req ws fs =
     Some (fold file_step (map (\<lambda>w. AppendRecord (intermediate (mr_MapTaskId req) (bucket (mr_NumReducers req) w))
       (emitted (mr_Mode req) (mr_Filename req) w)) ws) fs)"
  by (induction ws arbitrary: fs) simp_all

lemma file_step_create: "file_step (CreateFile p) = gput p ''''"
  by (rule ext) simp

lemma create_files_ops:
  "create_files req fs = fold file_step
     (map (\<lambda>i. CreateFile (intermediate (mr_MapTaskId req) (int i))) [0..<nat (mr_NumReducers req)]) fs"
  by (simp add: create_files_def foldl_conv_fold fold_map o_def file_step_create)

lemma map_ops_path:
  "op \<in> set (map_ops req fs) \<Longrightarrow> \<exists>b. op_path op = intermediate (mr_MapTaskId req) b"
  by (auto simp: map_ops_def split: option.splits if_splits)

lemma map_ops_cong:
  "map_of fs (mr_Filename req) = map_of fs' (mr_Filename req) \<Longrightarrow> map_ops req fs = map_ops req fs'"
  by (simp add: map_ops_def)

lemma WorkerMap_ops:
  assumes "\<And>b. mr_Filename req \<noteq> intermediate (mr_MapTaskId req) b"
  shows "fst (WorkerMap req fs) = fold file_step (map_ops req fs) fs"
proof (cases "map_of fs (mr_Filename req)")
  case None
  then show ?thesis by (simp add: WorkerMap_def map_ops_def)
next
  case (Some c)
  have "map_of (create_files req fs) (mr_Filename req) = Some c"
    unfolding create_files_def create_files_lookup using assms Some by simp
  then have read: "gget '''' (create_files req fs) (mr_Filename req) = c" by (simp add: gget_def)
  show ?thesis
  proof (cases "mr_NumReducers req = 0")
    case True
    have none: "map_words req ws fs = (if ws = [] then Some fs else None)" for ws
      by (cases ws) (simp_all add: True)
    have "create_files req fs = fs" by (simp add: create_files_def True)
    then show ?thesis by (simp add: WorkerMap_def Some map_ops_def True none Let_def)
  next
    case False
    then show ?thesis
      by (simp add: WorkerMap_def Some map_ops_def map_words_ops [OF False] read Let_def)
         (simp add: create_files_ops)
  qed
qed

subsection \<open>All tasks\<close>

text \<open>Requests of one job: different ids, and inputs that no task writes.\<close>

definition job_requests :: "MapRequest list \<Rightarrow> bool" where
  "job_requests reqs \<longleftrightarrow> distinct (map mr_MapTaskId reqs) \<and> (\<forall>r \<in> set reqs. 0 \<le> mr_MapTaskId r)
     \<and> (\<forall>r \<in> set reqs. \<forall>i b. mr_Filename r \<noteq> intermediate i b)"

text \<open>What a task still has to do, when the inputs are those of \<open>fs0\<close>.\<close>

fun remaining :: "files \<Rightarrow> map_task \<Rightarrow> file_op list" where
  "remaining fs0 (WaitingTask req) = map_ops req fs0"
| "remaining fs0 (WritingTask ops) = ops"

definition belongs :: "MapRequest \<Rightarrow> map_task \<Rightarrow> bool" where
  "belongs req t \<longleftrightarrow> (case t of WaitingTask req' \<Rightarrow> req' = req
     | WritingTask ops \<Rightarrow> \<forall>op \<in> set ops. \<exists>b. op_path op = intermediate (mr_MapTaskId req) b)"

lemma belongs_path:
  "belongs req t \<Longrightarrow> op \<in> set (remaining fs0 t) \<Longrightarrow> \<exists>b. op_path op = intermediate (mr_MapTaskId req) b"
  by (cases t) (auto simp: belongs_def dest: map_ops_path)

text \<open>The invariant of the schedules: doing the rest one task after the other leads to the same files.\<close>

definition on_the_way :: "MapRequest list \<Rightarrow> files \<Rightarrow> map_task list \<times> files \<Rightarrow> bool" where
  "on_the_way reqs fs0 st \<longleftrightarrow>
     list_all2 belongs reqs (fst st)
     \<and> (\<forall>r \<in> set reqs. map_of (snd st) (mr_Filename r) = map_of fs0 (mr_Filename r))
     \<and> fold fop (concat (map (remaining fs0) (fst st))) (map_of (snd st))
         = fold fop (concat (map (\<lambda>r. map_ops r fs0) reqs)) (map_of fs0)"

lemma concat_update:
  "k < length ts \<Longrightarrow> concat (map f (ts[k := t]))
     = concat (map f (take k ts)) @ f t @ concat (map f (drop (Suc k) ts))"
  by (simp add: upd_conv_take_nth_drop)

lemma concat_split:
  "k < length ts \<Longrightarrow> concat (map f ts)
     = concat (map f (take k ts)) @ f (ts ! k) @ concat (map f (drop (Suc k) ts))"
  using concat_update [of k ts f "ts ! k"] by simp

lemma map_task_step_on_the_way:
  assumes jobs: "job_requests reqs" and way: "on_the_way reqs fs0 (ts, fs)"
    and step: "map_task_step k (ts, fs) = Some (ts', fs')"
  shows "on_the_way reqs fs0 (ts', fs')"
proof -
  have k: "k < length ts" using step by (auto simp: map_task_step_def split: if_splits)
  have all2: "list_all2 belongs reqs ts" using way by (simp add: on_the_way_def)
  then have len: "length reqs = length ts" by (rule list_all2_lengthD)
  have own: "belongs (reqs ! l) (ts ! l)" if "l < length ts" for l
    using all2 that len by (simp add: list_all2_conv_all_nth)
  have inputs: "map_of fs (mr_Filename r) = map_of fs0 (mr_Filename r)" if "r \<in> set reqs" for r
    using way that by (simp add: on_the_way_def)
  show ?thesis
  proof (cases "ts ! k")
    case (WaitingTask req)
    then have req: "req = reqs ! k" using own [OF k] by (simp add: belongs_def)
    have ops: "map_ops req fs = map_ops req fs0"
      by (rule map_ops_cong) (use inputs k len in \<open>simp add: req\<close>)
    have st: "ts' = ts[k := WritingTask (map_ops req fs0)]" "fs' = fs"
      using step k WaitingTask by (simp_all add: map_task_step_def ops)
    have "belongs (reqs ! k) (WritingTask (map_ops req fs0))"
      by (auto simp: belongs_def req dest: map_ops_path)
    moreover have "map (remaining fs0) ts' = map (remaining fs0) ts"
      using k WaitingTask by (simp add: st map_update list_update_same_conv)
    ultimately show ?thesis
      using way list_all2_update_cong [OF all2, of "reqs ! k" "WritingTask (map_ops req fs0)" k]
      by (simp add: on_the_way_def st)
  next
    case (WritingTask ops0)
    with step k obtain op ops where ops0: "ops0 = op # ops" and st: "ts' = ts[k := WritingTask ops]" "fs' = file_step op fs"
      by (auto simp: map_task_step_def split: list.splits)
    obtain b where b: "op_path op = intermediate (mr_MapTaskId (reqs ! k)) b"
      using own [OF k] by (auto simp: belongs_def WritingTask ops0)
    have apart: "op_path a \<noteq> op_path op" if "a \<in> set (concat (map (remaining fs0) (take k ts)))" for a
    proof
      assume same: "op_path a = op_path op"
      from that obtain t where t: "t \<in> set (take k ts)" "a \<in> set (remaining fs0 t)" by auto
      from t(1) obtain l where "l < length (take k ts)" "t = take k ts ! l" by (metis in_set_conv_nth)
      with t(2) have l: "l < k" "a \<in> set (remaining fs0 (ts ! l))" by simp_all
      obtain c where c: "op_path a = intermediate (mr_MapTaskId (reqs ! l)) c"
        using belongs_path [OF own l(2)] l(1) k by auto
      have "0 \<le> mr_MapTaskId (reqs ! l)" "0 \<le> mr_MapTaskId (reqs ! k)"
        using jobs l(1) k len by (simp_all add: job_requests_def)
      with intermediate_inj [of "mr_MapTaskId (reqs ! l)" c "mr_MapTaskId (reqs ! k)" b] same b c
      have "map mr_MapTaskId reqs ! l = map mr_MapTaskId reqs ! k" using l(1) k len by simp
      then show False
        using nth_eq_iff_index_eq [of "map mr_MapTaskId reqs" l k] jobs l(1) k len
        by (simp add: job_requests_def)
    qed
    have "fold fop (concat (map (remaining fs0) ts')) (map_of fs')
        = fold fop (concat (map (remaining fs0) ts)) (map_of fs)"
      using fold_fop_front [of "concat (map (remaining fs0) (take k ts))" op
          "ops @ concat (map (remaining fs0) (drop (Suc k) ts))" "map_of fs"] apart
      unfolding st concat_update [OF k] concat_split [OF k, of "remaining fs0"] WritingTask ops0 map_of_file_step
      by simp
    moreover have "map_of fs' (mr_Filename r) = map_of fs (mr_Filename r)" if "r \<in> set reqs" for r
      using jobs that b by (simp add: st map_of_file_step fop_other job_requests_def)
    moreover have "list_all2 belongs reqs ts'"
      using all2 own [OF k] k
      by (auto simp: st list_all2_conv_all_nth nth_list_update belongs_def WritingTask ops0)
    ultimately show ?thesis using way inputs by (simp add: on_the_way_def)
  qed
qed

lemma run_map_tasks_on_the_way:
  assumes "job_requests reqs" and "on_the_way reqs fs0 st" and "run_map_tasks sched st = Some st'"
  shows "on_the_way reqs fs0 st'"
  using assms(2,3)
proof (induction sched arbitrary: st)
  case Nil
  then show ?case by simp
next
  case (Cons k ks)
  from Cons.prems(2) obtain st1 where st1: "map_task_step k st = Some st1" "run_map_tasks ks st1 = Some st'"
    by (auto split: option.splits)
  have "on_the_way reqs fs0 st1"
    using map_task_step_on_the_way [OF assms(1)] Cons.prems(1) st1(1) by (metis prod.collapse)
  then show ?case by (rule Cons.IH [OF _ st1(2)])
qed

lemma done_remaining: "task_done t \<Longrightarrow> remaining fs0 t = []"
  by (cases t rule: task_done.cases) auto

text \<open>Every schedule that finishes the tasks leaves the files that the operations in the order of the tasks leave.\<close>

lemma finished_tasks:
  assumes "job_requests reqs" and "run_map_tasks sched (map WaitingTask reqs, fs) = Some (ts, fs')"
    and "list_all task_done ts"
  shows "map_of fs' = fold fop (concat (map (\<lambda>r. map_ops r fs) reqs)) (map_of fs)"
proof -
  have "on_the_way reqs fs (map WaitingTask reqs, fs)"
    by (auto simp: on_the_way_def list_all2_conv_all_nth belongs_def o_def)
  from run_map_tasks_on_the_way [OF assms(1) this assms(2)]
  have "fold fop (concat (map (remaining fs) ts)) (map_of fs')
      = fold fop (concat (map (\<lambda>r. map_ops r fs) reqs)) (map_of fs)"
    by (simp add: on_the_way_def)
  moreover have "concat (map (remaining fs) ts) = []"
    using assms(3) by (auto simp: list_all_iff done_remaining)
  ultimately show ?thesis by simp
qed

subsection \<open>The job\<close>

lemma map_requests_members:
  "r \<in> set (map_requests m i dataset) \<Longrightarrow>
     \<exists>j f. i \<le> j \<and> j < i + int (length dataset) \<and> f \<in> set dataset \<and> r = map_request m j f"
proof (induction dataset arbitrary: i)
  case Nil
  then show ?case by simp
next
  case (Cons f rest)
  show ?case
  proof (cases "r = map_request m i f")
    case True
    then show ?thesis by (intro exI [of _ i] exI [of _ f]) simp
  next
    case False
    with Cons.prems have "r \<in> set (map_requests m (i + 1) rest)" by simp
    from Cons.IH [OF this] obtain j g where "i + 1 \<le> j" "j < i + 1 + int (length rest)" "g \<in> set rest"
      "r = map_request m j g" by blast
    then show ?thesis by (intro exI [of _ j] exI [of _ g]) simp
  qed
qed

lemma map_requests_job:
  assumes "0 \<le> i" and "i + int (length dataset) \<le> 2 ^ 31" and "\<forall>f \<in> set dataset. not_intermediate f"
  shows "job_requests (map_requests m i dataset)"
  using assms
proof (induction dataset arbitrary: i)
  case Nil
  then show ?case by (simp add: job_requests_def)
next
  case (Cons f rest)
  have small: "i32 j = j" if "i \<le> j" "j < i + 1 + int (length rest)" for j
  proof (rule i32_id)
    show "- (2 ^ 31) \<le> j" "j < 2 ^ 31" using Cons.prems(1,2) that by simp_all
  qed
  have "mr_MapTaskId r \<noteq> i" if "r \<in> set (map_requests m (i + 1) rest)" for r
  proof -
    note mem = that
    obtain j g where "i + 1 \<le> j" "j < i + 1 + int (length rest)" "r = map_request m j g"
      using map_requests_members [OF mem] by blast
    then show ?thesis using small [of j] by (simp add: map_request_def)
  qed
  moreover have "mr_MapTaskId (map_request m i f) = i" using small [of i] by (simp add: map_request_def)
  moreover have "job_requests (map_requests m (i + 1) rest)" by (rule Cons.IH) (use Cons.prems in auto)
  ultimately show ?case
    using Cons.prems by (auto simp: job_requests_def not_intermediate_def map_request_def)
qed

lemma fst_AssignMapTask: "(\<And>p. up p) \<Longrightarrow> fst (AssignMapTask up req fs) = fst (WorkerMap req fs)"
  by (auto simp: AssignMapTask_def split: prod.split option.split)

lemma run_maps_ops:
  assumes "\<forall>f \<in> set dataset. not_intermediate f" and up: "\<And>p. up p"
  shows "map_of (fst (run_maps up m i dataset fs))
    = fold fop (concat (map (\<lambda>r. map_ops r fs) (map_requests m i dataset))) (map_of fs)"
  using assms(1)
proof (induction dataset arbitrary: i fs)
  case Nil
  then show ?case by simp
next
  case (Cons f rest)
  let ?r = "map_request m i f" and ?fs1 = "fst (AssignMapTask up (map_request m i f) fs)"
  have fs1: "map_of ?fs1 = fold fop (map_ops ?r fs) (map_of fs)"
    using WorkerMap_ops [of ?r fs] Cons.prems
    by (simp add: fst_AssignMapTask [OF up] map_of_fold not_intermediate_def map_request_def)
  have "map_ops r ?fs1 = map_ops r fs" if "r \<in> set (map_requests m (i + 1) rest)" for r
  proof (rule map_ops_cong)
    note mem = that
    obtain j g where "g \<in> set rest" "r = map_request m j g"
      using map_requests_members [OF mem] by blast
    then have g: "g \<in> set rest" "mr_Filename r = g" by (simp_all add: map_request_def)
    then have "not_intermediate g" using Cons.prems by simp
    then have "\<forall>a \<in> set (map_ops ?r fs). op_path a \<noteq> g"
      using map_ops_path by (fastforce simp: not_intermediate_def)
    then show "map_of ?fs1 (mr_Filename r) = map_of fs (mr_Filename r)"
      unfolding fs1 g(2) by (rule fold_fop_other)
  qed
  then have same: "map (\<lambda>r. map_ops r ?fs1) (map_requests m (i + 1) rest)
      = map (\<lambda>r. map_ops r fs) (map_requests m (i + 1) rest)" by (intro map_cong refl)
  have "map_of (fst (run_maps up m (i + 1) rest ?fs1))
      = fold fop (concat (map (\<lambda>r. map_ops r ?fs1) (map_requests m (i + 1) rest))) (map_of ?fs1)"
    by (rule Cons.IH) (use Cons.prems in simp)
  then show ?case unfolding same fs1 by (simp add: case_prod_beta)
qed

text \<open>Reduce tasks see the files only through their names and contents.\<close>

lemma reduce_texts_cong: "map_of fs = map_of fs' \<Longrightarrow> reduce_texts fs m r = reduce_texts fs' m r"
proof (induction fs m r rule: reduce_texts.induct)
  case (1 fs m r)
  then show ?case
    by (simp add: reduce_texts.simps [of fs m r] reduce_texts.simps [of fs' m r] split: option.split)
qed

lemma WorkerReduce_cong:
  assumes "map_of fs = map_of fs'"
  shows "map_of (fst (WorkerReduce os req fs)) = map_of (fst (WorkerReduce os req fs'))"
  using assms
  by (simp add: WorkerReduce_def reduceWordCount_def reduceInvertedIndex_def word_counts_def
      inverted_index_def reduce_texts_cong [OF assms] Let_def)

lemma run_reduces_cong:
  assumes "map_of fs = map_of fs'"
  shows "map_of (fst (run_reduces up os m is fs)) = map_of (fst (run_reduces up os m is fs'))"
  using assms
proof (induction "is" arbitrary: fs fs')
  case Nil
  then show ?case by simp
next
  case (Cons i "is")
  let ?req = "\<lparr>rr_ReduceTaskId = i32 i, rr_Mode = ms_Mode m\<rparr>"
  have "map_of (fst (AssignReduceTask up os m ?req fs)) = map_of (fst (AssignReduceTask up os m ?req fs'))"
    using Cons.prems WorkerReduce_cong [OF Cons.prems] by (simp add: AssignReduceTask_def case_prod_beta)
  from Cons.IH [OF this] show ?case by (simp add: case_prod_beta)
qed

text \<open>C10. Map tasks may run at the same time: for every schedule of their file operations that finishes
  them, the job leaves the files that it leaves when the tasks run one after the other, provided that all workers answer
  and no input file has the name of an intermediate file.\<close>

theorem concurrent_job_equals_sequential_job:
  assumes "\<forall>f \<in> set dataset. not_intermediate f" and "int (length dataset) \<le> 2 ^ 31"
    and "\<forall>p. up p" and "concurrent_job sched up os args dataset fs = Some fs'"
  shows "map_of fs' = map_of (fst (run_job up os args dataset fs))"
proof -
  consider "length args < 2" | a mode rest where "args = a # mode # rest"
    by (cases args rule: list.exhaust; cases "tl args") auto
  then show ?thesis
  proof cases
    case 1
    then show ?thesis using assms(4)
      by (auto simp: concurrent_job_def run_job_def split: list.splits)
  next
    case 2
    let ?m = "\<lparr>ms_numMappers = int (length dataset), ms_numReducers = atoi_value a, ms_Mode = mode\<rparr>"
    let ?is = "map int [0..<nat (ms_numReducers ?m)]"
    show ?thesis
    proof (cases "dataset = []")
      case True
      then show ?thesis using assms(4) by (simp add: 2 concurrent_job_def run_job_def)
    next
      case False
      with assms(4) obtain fs1 where fs1: "concurrent_maps sched ?m dataset fs = Some fs1"
        and fs': "fs' = fst (run_reduces up os ?m ?is fs1)"
        by (auto simp: 2 concurrent_job_def Let_def split: option.splits)
      from fs1 obtain ts where run: "run_map_tasks sched (map WaitingTask (map_requests ?m 0 dataset), fs) = Some (ts, fs1)"
        and all: "list_all task_done ts"
        by (auto simp: concurrent_maps_def split: option.splits if_splits)
      have "job_requests (map_requests ?m 0 dataset)" by (rule map_requests_job) (use assms in simp_all)
      from finished_tasks [OF this run all]
      have "map_of fs1 = map_of (fst (run_maps up ?m 0 dataset fs))"
        using run_maps_ops [OF assms(1), of up ?m 0 fs] assms(3) by simp
      from run_reduces_cong [OF this] False show ?thesis
        by (simp add: 2 fs' run_job_def Let_def case_prod_beta)
    qed
  qed
qed

definition two_texts :: files where
  "two_texts = [(''dataset/a.txt'', ''x y''), (''dataset/b.txt'', ''y'')]"

lemma interleaved_texts:
  "concurrent_job [0, 1, 0, 1, 1, 0, 0] (\<lambda>_. True) in_key_order [''1'', ''word_count'']
     [''dataset/a.txt'', ''dataset/b.txt''] two_texts \<noteq> None"
  by code_simp

theorem concurrent_job_equals_sequential_job_witness:
  "\<exists>fs'. concurrent_job [0, 1, 0, 1, 1, 0, 0] (\<lambda>_. True) in_key_order [''1'', ''word_count'']
       [''dataset/a.txt'', ''dataset/b.txt''] two_texts = Some fs'
     \<and> map_of fs' = map_of (fst (run_job (\<lambda>_. True) in_key_order [''1'', ''word_count'']
       [''dataset/a.txt'', ''dataset/b.txt''] two_texts))"
proof -
  obtain fs' where "concurrent_job [0, 1, 0, 1, 1, 0, 0] (\<lambda>_. True) in_key_order [''1'', ''word_count'']
      [''dataset/a.txt'', ''dataset/b.txt''] two_texts = Some fs'"
    using interleaved_texts by blast
  moreover have "\<forall>f \<in> set [''dataset/a.txt'', ''dataset/b.txt'']. not_intermediate f"
    using two_files_inputs by (simp add: input_ok_def)
  ultimately show ?thesis using concurrent_job_equals_sequential_job by fastforce
qed

subsection \<open>How worker and master start\<close>

text \<open>
  What a program serves and the lines it prints. The errors of net.Listen, of Serve and of starting a process
  are arguments; None is the panic when a worker is started without a port.
\<close>

definition serve_lines :: "string \<Rightarrow> string \<Rightarrow> string option \<Rightarrow> string option \<Rightarrow> bool \<times> string list" where
  "serve_lines refusal running listen serve =
     (case listen of
        Some err \<Rightarrow> (False, [refusal @ err])
      | None \<Rightarrow>
          (True, running # (case serve of None \<Rightarrow> [] | Some err \<Rightarrow> [''Failed to serve: '' @ err])))"

definition worker_main ::
  "string list \<Rightarrow> string option \<Rightarrow> string option \<Rightarrow> (bool \<times> string list) option" where
  "worker_main args listen serve =
     (case args of
        _ # port # _ \<Rightarrow>
          Some (serve_lines (''Failed to listen on port '' @ port @ '': '')
                 (''Worker server listening on :'' @ port) listen serve)
      | _ \<Rightarrow> None)"

definition startWorker :: "int \<Rightarrow> string option \<Rightarrow> string list" where
  "startWorker port start =
     (case start of
        None \<Rightarrow> []
      | Some err \<Rightarrow> [''Failed to start worker on port '' @ itoa port @ '': '' @ err])"

definition startMaster ::
  "int \<Rightarrow> int \<Rightarrow> string \<Rightarrow> string option \<Rightarrow> string option \<Rightarrow> Master \<times> bool \<times> string list" where
  "startMaster numMappers numReducers mode listen serve =
     (\<lparr>ms_numMappers = numMappers, ms_numReducers = numReducers, ms_Mode = mode\<rparr>,
      serve_lines ''Failed to listen: '' ''Master server listening on :50051'' listen serve)"

text \<open>A worker that the master starts gets its port, so it does not panic.\<close>

lemma started_worker_has_port: "worker_main [program, port] listen serve \<noteq> None"
  by (simp add: worker_main_def)

end
