(* ===== verification/LoadBalancer.thy ===== *)
theory LoadBalancer
  imports Go_Text
begin

text \<open>
  The look-aside load balancer (P1-LoadBalancer): the balancer's three RPC methods over the entries it keeps in etcd
  (lb_server/main.go), the backend servers with their load counters and reports (server/main.go), and one
  request of the test client (client/main.go). etcd is not part of the sources: what it does with a put,
  a prefix query, a lease and a keep-alive is a parameter of the model (\<open>etcd\<close>). A value in etcd is
  represented by the status it decodes to, \<open>None\<close> for any other text.
\<close>

subsection \<open>Messages and state\<close>

record ServerStatus =
  ss_Address :: string
  ss_Load :: int
  ss_Available :: bool

record ServerLoad =
  sl_Address :: string
  sl_Load :: int
  sl_Available :: bool

text \<open>The enumeration is open: any other number can arrive.\<close>

datatype LoadBalanceStrategy = PICK_FIRST | ROUND_ROBIN | LEAST_LOAD | OtherStrategy int

definition etcdServersPrefix :: string where
  "etcdServersPrefix = ''/lb/servers/''"

definition etcdLBKey :: string where
  "etcdLBKey = ''/lb/lbserver''"

text \<open>
  Over a state of etcd: a put with the key and the value, and its error; the entries under a prefix, or
  the error; a new lease; the put of a text under a lease; whether a lease can be kept alive.
\<close>

record 's etcd =
  et_put :: "string \<Rightarrow> ServerStatus option \<Rightarrow> 's \<Rightarrow> 's \<times> string option"
  et_get_prefix :: "string \<Rightarrow> 's \<Rightarrow> string + (string \<times> ServerStatus option) list"
  et_grant :: "int \<Rightarrow> 's \<Rightarrow> 's \<times> (string + int)"
  et_put_lease :: "string \<Rightarrow> string \<Rightarrow> int \<Rightarrow> 's \<Rightarrow> 's \<times> string option"
  et_keep_alive :: "int \<Rightarrow> 's \<Rightarrow> 's \<times> string option"

record LoadBalancer =
  lb_rrIndex :: int

subsection \<open>The balancer (lb_server/main.go)\<close>

definition RegisterServer :: "'s etcd \<Rightarrow> string \<Rightarrow> 's \<Rightarrow> 's \<times> (string + string)" where
  "RegisterServer e address s =
     (case et_put e (etcdServersPrefix @ address)
             (Some \<lparr>ss_Address = address, ss_Load = 0, ss_Available = True\<rparr>) s of
        (s', Some err) \<Rightarrow> (s', Inl (''failed to put key in etcd: '' @ err))
      | (s', None) \<Rightarrow> (s', Inr ''Registered successfully''))"

definition ReportLoad :: "'s etcd \<Rightarrow> ServerLoad \<Rightarrow> 's \<Rightarrow> 's \<times> (string + string)" where
  "ReportLoad e req s =
     (case et_put e (etcdServersPrefix @ sl_Address req)
             (Some \<lparr>ss_Address = sl_Address req, ss_Load = sl_Load req, ss_Available = sl_Available req\<rparr>) s of
        (s', Some err) \<Rightarrow> (s', Inl (''failed to update key in etcd: '' @ err))
      | (s', None) \<Rightarrow> (s', Inr ''Load updated''))"

definition available_servers :: "(string \<times> ServerStatus option) list \<Rightarrow> ServerStatus list" where
  "available_servers kvs =
     List.map_filter
       (\<lambda>(k, v). case v of None \<Rightarrow> None | Some st \<Rightarrow> if ss_Available st then Some st else None) kvs"

text \<open>The loop of the strategy LEAST_LOAD.\<close>

definition least_loaded :: "ServerStatus list \<Rightarrow> ServerStatus" where
  "least_loaded servers =
     foldl (\<lambda>best s. if ss_Load s < ss_Load best then s else best) (hd servers) servers"

definition GetBestServer ::
  "'s etcd \<Rightarrow> LoadBalanceStrategy \<Rightarrow> LoadBalancer \<Rightarrow> 's \<Rightarrow> LoadBalancer \<times> (string + string)" where
  "GetBestServer e strategy lb s =
     (case et_get_prefix e etcdServersPrefix s of
        Inl err \<Rightarrow> (lb, Inl (''failed to query etcd: '' @ err))
      | Inr kvs \<Rightarrow>
          let servers = available_servers kvs
          in if servers = [] then (lb, Inl ''no available servers'')
             else
               (case strategy of
                  PICK_FIRST \<Rightarrow> (lb, Inr (ss_Address (servers ! 0)))
                | ROUND_ROBIN \<Rightarrow>
                    let i = (if lb_rrIndex lb \<ge> int (length servers) then 0 else lb_rrIndex lb)
                    in (lb\<lparr>lb_rrIndex := i64 (i + 1)\<rparr>,
                        Inr (ss_Address (servers ! nat (go_rem i (int (length servers))))))
                | LEAST_LOAD \<Rightarrow> (lb, Inr (ss_Address (least_loaded servers)))
                | OtherStrategy _ \<Rightarrow> (lb, Inl ''unknown strategy'')))"

definition registerLBServer :: "'s etcd \<Rightarrow> string \<Rightarrow> int \<Rightarrow> 's \<Rightarrow> 's \<times> (string + int)" where
  "registerLBServer e addr leaseTTL s =
     (case et_grant e leaseTTL s of
        (s1, Inl err) \<Rightarrow> (s1, Inl err)
      | (s1, Inr lease) \<Rightarrow>
          (case et_put_lease e etcdLBKey addr lease s1 of
             (s2, Some err) \<Rightarrow> (s2, Inl err)
           | (s2, None) \<Rightarrow>
               (case et_keep_alive e lease s2 of
                  (s3, Some err) \<Rightarrow> (s3, Inl err)
                | (s3, None) \<Rightarrow> (s3, Inr lease))))"

subsection \<open>Backend servers (server/main.go)\<close>

definition maxConcurrentTasks :: int where
  "maxConcurrentTasks = 5"

function fibonacci :: "int \<Rightarrow> int" where
  "fibonacci n = (if n \<le> 1 then n else i64 (fibonacci (n - 1) + fibonacci (n - 2)))"
  by pat_completeness auto

termination fibonacci
  by (relation "measure nat") auto

declare fibonacci.simps [simp del]

record backendServer =
  bs_serverAddr :: string
  bs_concurrentTasks :: int

text \<open>The result of a task. What stands before the first colon is dropped, and the blanks behind it.\<close>

definition task_body :: "string \<Rightarrow> string" where
  "task_body task =
     (let parts = split_at (CHR '':'') task
      in if length parts > 1 then TrimSpace (join_with (CHR '':'') (tl parts)) else task)"

definition task_result :: "string \<Rightarrow> string" where
  "task_result task =
     (if has_prefix ''fibonacci:'' task
      then
        (let taskParts = split_at (CHR '':'') task
         in if length taskParts = 2
            then (case Atoi (TrimSpace (taskParts ! 1)) of
                    Inl _ \<Rightarrow> ''Error: invalid number for fibonacci''
                  | Inr n \<Rightarrow> ''Fibonacci('' @ itoa n @ '') = '' @ itoa (fibonacci n))
            else ''Error: invalid task format'')
      else ''Error: unknown task'')"

text \<open>A task holds the counter from its start to its end.\<close>

definition start_task :: "backendServer \<Rightarrow> backendServer" where
  "start_task b = b\<lparr>bs_concurrentTasks := i32 (bs_concurrentTasks b + 1)\<rparr>"

definition end_task :: "backendServer \<Rightarrow> backendServer" where
  "end_task b = b\<lparr>bs_concurrentTasks := i32 (bs_concurrentTasks b - 1)\<rparr>"

text \<open>A whole call, not interrupted: the server it runs on, and the result.\<close>

definition Compute :: "string \<Rightarrow> backendServer \<Rightarrow> backendServer \<times> string" where
  "Compute task b = (end_task (start_task b), task_result (task_body task))"

text \<open>What the reporting loop sends.\<close>

definition load_report :: "backendServer \<Rightarrow> ServerLoad" where
  "load_report b =
     \<lparr>sl_Address = bs_serverAddr b, sl_Load = bs_concurrentTasks b,
      sl_Available = bs_concurrentTasks b < maxConcurrentTasks\<rparr>"

definition start_backend :: "'s etcd \<Rightarrow> int \<Rightarrow> 's \<Rightarrow> ('s \<times> (string + string)) \<times> backendServer" where
  "start_backend e port s =
     (let serverAddr = ''127.0.0.1:'' @ itoa port
      in (RegisterServer e serverAddr s, \<lparr>bs_serverAddr = serverAddr, bs_concurrentTasks = 0\<rparr>))"

subsection \<open>The client (client/main.go)\<close>

definition client_strategy :: "string \<Rightarrow> LoadBalanceStrategy" where
  "client_strategy s =
     (if s = ''pick_first'' then PICK_FIRST
      else if s = ''round_robin'' then ROUND_ROBIN
      else if s = ''least_load'' then LEAST_LOAD
      else LEAST_LOAD)"

definition client_task :: "int \<Rightarrow> string" where
  "client_task clientID = ''Client '' @ itoa clientID @ '': '' @ ''fibonacci:'' @ itoa 40"

text \<open>The address a request of the client goes to, and the task it sends there.\<close>

definition client_request_step ::
  "'s etcd \<Rightarrow> string \<Rightarrow> int \<Rightarrow> LoadBalancer \<Rightarrow> 's \<Rightarrow> LoadBalancer \<times> (string + string \<times> string)" where
  "client_request_step e strategy clientID lb s =
     (case GetBestServer e (client_strategy strategy) lb s of
        (lb', Inl err) \<Rightarrow> (lb', Inl err)
      | (lb', Inr address) \<Rightarrow> (lb', Inr (address, client_task clientID)))"

end
