(* ===== verification/LoadBalancer_Theorems.thy ===== *)
theory LoadBalancer_Theorems
  imports LoadBalancer
begin

text \<open>
  Properties of the load balancer: the strategies against the registry that the servers' registrations and
  reports define, the rotation of round robin, and the results of the backend servers.
\<close>

subsection \<open>What is assumed of etcd\<close>

text \<open>
  \<open>view s\<close> is the content of the store. A successful put sets the key, a failed one may have done so; a
  query with a prefix yields the entries whose key has the prefix, once each, in ascending order of the keys'
  bytes, which is etcd's default.
\<close>

fun bytes_less :: "string \<Rightarrow> string \<Rightarrow> bool" where
  "bytes_less _ [] = False"
| "bytes_less [] (_ # _) = True"
| "bytes_less (a # as) (b # bs) = (byte a < byte b \<or> (a = b \<and> bytes_less as bs))"

definition etcd_works :: "'s etcd \<Rightarrow> ('s \<Rightarrow> string \<Rightarrow> ServerStatus option option) \<Rightarrow> bool" where
  "etcd_works e view \<longleftrightarrow>
     (\<forall>k v s s'. et_put e k v s = (s', None) \<longrightarrow> view s' = (view s)(k \<mapsto> v))
     \<and> (\<forall>k v s s' err. et_put e k v s = (s', Some err) \<longrightarrow> view s' = view s \<or> view s' = (view s)(k \<mapsto> v))
     \<and> (\<forall>p s kvs. et_get_prefix e p s = Inr kvs \<longrightarrow>
          sorted_wrt bytes_less (map fst kvs) \<and> set kvs = {(k, v). view s k = Some v \<and> has_prefix p k})"

lemma bytes_less_irrefl [simp]: "\<not> bytes_less a a"
  by (induction a) auto

lemma bytes_less_append [simp]: "bytes_less (p @ a) (p @ b) = bytes_less a b"
  by (induction p) auto

subsection \<open>The registry\<close>

datatype lb_op = Register string | Report ServerLoad

text \<open>Registrations and reports, one after the other; whether all of them were stored.\<close>

fun run_ops :: "'s etcd \<Rightarrow> lb_op list \<Rightarrow> 's \<Rightarrow> 's \<times> bool" where
  "run_ops e [] s = (s, True)"
| "run_ops e (op # ops) s =
     (case (case op of Register a \<Rightarrow> RegisterServer e a s | Report r \<Rightarrow> ReportLoad e r s) of
        (s1, r) \<Rightarrow>
          (case run_ops e ops s1 of (s2, ok) \<Rightarrow> (s2, ok \<and> (case r of Inl _ \<Rightarrow> False | Inr _ \<Rightarrow> True))))"

text \<open>What the operations mean: the last status of each server.\<close>

fun registry :: "lb_op list \<Rightarrow> (string \<Rightarrow> ServerStatus option) \<Rightarrow> string \<Rightarrow> ServerStatus option" where
  "registry [] m = m"
| "registry (Register a # ops) m =
     registry ops (m(a \<mapsto> \<lparr>ss_Address = a, ss_Load = 0, ss_Available = True\<rparr>))"
| "registry (Report r # ops) m =
     registry ops (m(sl_Address r \<mapsto>
       \<lparr>ss_Address = sl_Address r, ss_Load = sl_Load r, ss_Available = sl_Available r\<rparr>))"

text \<open>The store holds exactly the registry under the prefix.\<close>

definition stores :: "(string \<Rightarrow> ServerStatus option option) \<Rightarrow> (string \<Rightarrow> ServerStatus option) \<Rightarrow> bool" where
  "stores v m \<longleftrightarrow> (\<forall>a. v (etcdServersPrefix @ a) = map_option Some (m a)) \<and> (\<forall>a st. m a = Some st \<longrightarrow> ss_Address st = a)"

lemma stores_update:
  "stores v m \<Longrightarrow> ss_Address st = a \<Longrightarrow> stores (v(etcdServersPrefix @ a \<mapsto> Some st)) (m(a \<mapsto> st))"
  by (auto simp: stores_def)

lemma run_ops_registry:
  assumes "etcd_works e view" and "run_ops e ops s = (s', True)" and "stores (view s) m"
  shows "stores (view s') (registry ops m)"
  using assms(2,3)
proof (induction ops arbitrary: s m)
  case Nil
  then show ?case by simp
next
  case (Cons op ops)
  show ?case
  proof (cases op)
    case (Register a)
    let ?st = "\<lparr>ss_Address = a, ss_Load = 0, ss_Available = True\<rparr>"
    obtain s1 r where p: "et_put e (etcdServersPrefix @ a) (Some ?st) s = (s1, r)" by fastforce
    then have "r = None" and go: "run_ops e ops s1 = (s', True)"
      using Cons.prems(1) Register by (auto simp: RegisterServer_def split: option.splits prod.splits)
    then have v: "view s1 = (view s)(etcdServersPrefix @ a \<mapsto> Some ?st)"
      using assms(1) p by (auto simp: etcd_works_def)
    have "stores (view s1) (m(a \<mapsto> ?st))"
      unfolding v by (rule stores_update [OF Cons.prems(2)]) simp
    then show ?thesis unfolding Register registry.simps by (rule Cons.IH [OF go])
  next
    case (Report q)
    let ?st = "\<lparr>ss_Address = sl_Address q, ss_Load = sl_Load q, ss_Available = sl_Available q\<rparr>"
    obtain s1 r where p: "et_put e (etcdServersPrefix @ sl_Address q) (Some ?st) s = (s1, r)" by fastforce
    then have "r = None" and go: "run_ops e ops s1 = (s', True)"
      using Cons.prems(1) Report by (auto simp: ReportLoad_def split: option.splits prod.splits)
    then have v: "view s1 = (view s)(etcdServersPrefix @ sl_Address q \<mapsto> Some ?st)"
      using assms(1) p by (auto simp: etcd_works_def)
    have "stores (view s1) (m(sl_Address q \<mapsto> ?st))"
      unfolding v by (rule stores_update [OF Cons.prems(2)]) simp
    then show ?thesis unfolding Report registry.simps by (rule Cons.IH [OF go])
  qed
qed

text \<open>The available servers of a query: sorted by address, and exactly those of the registry.\<close>

lemma available_servers_simps [simp]:
  "available_servers [] = []"
  "available_servers ((k, None) # kvs) = available_servers kvs"
  "available_servers ((k, Some st) # kvs) =
     (if ss_Available st then st # available_servers kvs else available_servers kvs)"
  by (simp_all add: available_servers_def List.map_filter_def)

lemma available_set:
  "st \<in> set (available_servers kvs) \<longleftrightarrow> ss_Available st \<and> (\<exists>k. (k, Some st) \<in> set kvs)"
proof (induction kvs)
  case (Cons x kvs)
  obtain k v where "x = (k, v)" by fastforce
  then show ?case using Cons.IH by (cases v) auto
qed simp

lemma available_from_registry:
  assumes "etcd_works e view" and "stores (view s) m" and "et_get_prefix e etcdServersPrefix s = Inr kvs"
  shows "set (available_servers kvs) = {st. m (ss_Address st) = Some st \<and> ss_Available st}"
    and "sorted_wrt (\<lambda>a b. bytes_less (ss_Address a) (ss_Address b)) (available_servers kvs)"
proof -
  have kvs: "set kvs = {(k, v). view s k = Some v \<and> has_prefix etcdServersPrefix k}"
    and sorted: "sorted_wrt bytes_less (map fst kvs)"
    using assms(1,3) unfolding etcd_works_def by blast+
  have entry: "(k, Some st) \<in> set kvs \<longleftrightarrow> m (ss_Address st) = Some st \<and> k = etcdServersPrefix @ ss_Address st" for k st
  proof
    assume "(k, Some st) \<in> set kvs"
    then obtain a where "k = etcdServersPrefix @ a" "view s k = Some (Some st)"
      by (auto simp: kvs has_prefix_append)
    then have "map_option Some (m a) = Some (Some st)" using assms(2) unfolding stores_def by metis
    then have "m a = Some st" by simp
    then show "m (ss_Address st) = Some st \<and> k = etcdServersPrefix @ ss_Address st"
      using assms(2) \<open>k = etcdServersPrefix @ a\<close> unfolding stores_def by metis
  next
    assume "m (ss_Address st) = Some st \<and> k = etcdServersPrefix @ ss_Address st"
    then have "view s k = Some (Some st)" using assms(2) unfolding stores_def by (metis option.simps(9))
    then show "(k, Some st) \<in> set kvs"
      using \<open>m (ss_Address st) = Some st \<and> k = etcdServersPrefix @ ss_Address st\<close>
      by (simp add: kvs has_prefix_append)
  qed
  show "set (available_servers kvs) = {st. m (ss_Address st) = Some st \<and> ss_Available st}"
    by (auto simp: available_set entry)
  have "sorted_wrt (\<lambda>a b. bytes_less (ss_Address a) (ss_Address b)) (available_servers l)"
    if "sorted_wrt bytes_less (map fst l)" "set l \<subseteq> set kvs" for l
    using that
  proof (induction l)
    case Nil
    then show ?case by simp
  next
    case (Cons x l)
    obtain k v where x: "x = (k, v)" by fastforce
    have IH: "sorted_wrt (\<lambda>a b. bytes_less (ss_Address a) (ss_Address b)) (available_servers l)"
      using Cons by simp
    show ?case
    proof (cases "\<exists>st. v = Some st \<and> ss_Available st")
      case False
      then have "available_servers (x # l) = available_servers l"
        by (cases v) (auto simp: x)
      then show ?thesis using IH by simp
    next
      case True
      then obtain st where st: "v = Some st" "ss_Available st" by blast
      have "bytes_less (ss_Address st) (ss_Address t)" if t: "t \<in> set (available_servers l)" for t
      proof -
        obtain k' where k': "(k', Some t) \<in> set l" using t by (auto simp: available_set)
        then have "bytes_less k k'" using Cons.prems(1) x by force
        moreover have "k = etcdServersPrefix @ ss_Address st" "k' = etcdServersPrefix @ ss_Address t"
          using entry Cons.prems(2) x st k' by auto
        ultimately show ?thesis by simp
      qed
      moreover have "available_servers (x # l) = st # available_servers l"
        by (simp add: x st)
      ultimately show ?thesis using IH by simp
    qed
  qed
  then show "sorted_wrt (\<lambda>a b. bytes_less (ss_Address a) (ss_Address b)) (available_servers kvs)"
    using sorted by blast
qed

subsection \<open>The strategies\<close>

lemma least_loaded_split:
  "xs \<noteq> [] \<Longrightarrow> \<exists>pre post. xs = pre @ least_loaded xs # post
     \<and> (\<forall>s \<in> set pre. ss_Load (least_loaded xs) < ss_Load s)
     \<and> (\<forall>s \<in> set post. ss_Load (least_loaded xs) \<le> ss_Load s)"
proof (induction xs rule: rev_induct)
  case Nil
  then show ?case by simp
next
  case (snoc x xs)
  show ?case
  proof (cases "xs = []")
    case True
    then show ?thesis by (intro exI [of _ "[]"]) (simp add: least_loaded_def)
  next
    case False
    then obtain pre post where IH: "xs = pre @ least_loaded xs # post"
      "\<forall>s \<in> set pre. ss_Load (least_loaded xs) < ss_Load s"
      "\<forall>s \<in> set post. ss_Load (least_loaded xs) \<le> ss_Load s"
      using snoc.IH by blast
    have step: "least_loaded (xs @ [x]) =
        (if ss_Load x < ss_Load (least_loaded xs) then x else least_loaded xs)"
      using False by (simp add: least_loaded_def)
    show ?thesis
    proof (cases "ss_Load x < ss_Load (least_loaded xs)")
      case True
      have "ss_Load x < ss_Load s" if "s \<in> set xs" for s
        using that True IH by (metis (no_types, lifting) Un_iff less_trans not_less order_le_less set_ConsD set_append)
      then show ?thesis using True by (intro exI [of _ xs] exI [of _ "[]"]) (simp add: step)
    next
      case False
      then show ?thesis
        using IH by (intro exI [of _ pre] exI [of _ "post @ [x]"]) (auto simp: step)
    qed
  qed
qed

text \<open>The choice of the strategy LEAST_LOAD in a registry: the least load, the first address among equal loads.\<close>

definition best_in :: "(string \<Rightarrow> ServerStatus option) \<Rightarrow> string \<Rightarrow> bool" where
  "best_in m a \<longleftrightarrow>
     (\<exists>st. m a = Some st \<and> ss_Available st
        \<and> (\<forall>a' st'. m a' = Some st' \<and> ss_Available st' \<and> a' \<noteq> a
             \<longrightarrow> ss_Load st < ss_Load st' \<or> (ss_Load st = ss_Load st' \<and> bytes_less a a')))"

text \<open>C20. The strategy LEAST_LOAD answers with the least loaded available server. After any sequence of
  registrations and load reports that were stored, an answer names a server whose last status is available and
  has the least load among all servers whose last status is available, the first in the order of addresses among
  equal loads; and "no available servers" is answered only if there is none.\<close>

theorem least_load_picks_the_least_loaded:
  assumes etcd: "etcd_works e view" and empty: "view s0 = Map.empty"
    and ops: "run_ops e ops s0 = (s, True)" and query: "et_get_prefix e etcdServersPrefix s = Inr kvs"
    and best: "GetBestServer e LEAST_LOAD lb s = (lb', r)"
  shows "lb' = lb
    \<and> (case r of
         Inr a \<Rightarrow> best_in (registry ops Map.empty) a
       | Inl msg \<Rightarrow> msg = ''no available servers''
           \<and> (\<forall>a st. registry ops Map.empty a = Some st \<longrightarrow> \<not> ss_Available st))"
proof -
  let ?m = "registry ops Map.empty" and ?xs = "available_servers kvs"
  have "stores (view s0) Map.empty" by (simp add: stores_def empty)
  then have st: "stores (view s) ?m" by (rule run_ops_registry [OF etcd ops])
  note set = available_from_registry(1) [OF etcd st query]
  note sorted = available_from_registry(2) [OF etcd st query]
  have addr: "ss_Address u = a" if "?m a = Some u" for a u using st that by (simp add: stores_def)
  show ?thesis
  proof (cases "?xs = []")
    case True
    then have "\<not> ss_Available u" if "?m a = Some u" for a u using set addr [OF that] that by auto
    then show ?thesis using best query True by (auto simp: GetBestServer_def)
  next
    case False
    let ?b = "least_loaded ?xs"
    obtain pre post where split: "?xs = pre @ ?b # post"
      "\<forall>s \<in> set pre. ss_Load ?b < ss_Load s" "\<forall>s \<in> set post. ss_Load ?b \<le> ss_Load s"
      using least_loaded_split [OF False] by blast
    have "?b \<in> set ?xs" by (subst split(1)) simp
    then have b: "?m (ss_Address ?b) = Some ?b" "ss_Available ?b" using set by auto
    have later: "bytes_less (ss_Address ?b) (ss_Address u)" if "u \<in> set post" for u
    proof -
      have "sorted_wrt (\<lambda>a b. bytes_less (ss_Address a) (ss_Address b)) (pre @ ?b # post)"
        using sorted split(1) by simp
      then show ?thesis using that by (simp add: sorted_wrt_append)
    qed
    have "best_in ?m (ss_Address ?b)"
      unfolding best_in_def
    proof (intro exI [of _ ?b] conjI allI impI b)
      fix a' u
      assume u: "?m a' = Some u \<and> ss_Available u \<and> a' \<noteq> ss_Address ?b"
      then have "ss_Address u = a'" using addr by blast
      then have "u \<in> set ?xs" "u \<noteq> ?b" using u set by auto
      then have "u \<in> set pre \<or> u \<in> set post" by (subst (asm) split(1)) auto
      then show "ss_Load ?b < ss_Load u \<or> (ss_Load ?b = ss_Load u \<and> bytes_less (ss_Address ?b) a')"
        using split(2,3) later \<open>ss_Address u = a'\<close> by fastforce
    qed
    then show ?thesis using best query False by (auto simp: GetBestServer_def Let_def)
  qed
qed

subsection \<open>An etcd in memory\<close>

fun insert_sorted :: "string \<Rightarrow> 'v \<Rightarrow> (string \<times> 'v) list \<Rightarrow> (string \<times> 'v) list" where
  "insert_sorted k v [] = [(k, v)]"
| "insert_sorted k v ((k', v') # m) =
     (if k = k' then (k, v) # m else if bytes_less k k' then (k, v) # (k', v') # m
      else (k', v') # insert_sorted k v m)"

lemma bytes_less_trans: "bytes_less a b \<Longrightarrow> bytes_less b c \<Longrightarrow> bytes_less a c"
proof (induction a b arbitrary: c rule: bytes_less.induct)
  case (2 b bs)
  then show ?case by (cases c) auto
next
  case (3 a as b bs)
  then show ?case by (cases c) auto
qed simp

lemma byte_inj: "byte a = byte b \<Longrightarrow> a = b"
  by (metis byte_def char_of_char)

lemma bytes_less_total: "a \<noteq> b \<Longrightarrow> \<not> bytes_less a b \<Longrightarrow> bytes_less b a"
proof (induction a b rule: bytes_less.induct)
  case (1 a)
  then show ?case by (cases a) auto
next
  case (3 a as b bs)
  then show ?case by (cases "byte a = byte b") (auto dest: byte_inj)
qed auto

lemma insert_sorted_keys: "fst ` set (insert_sorted k v m) = insert k (fst ` set m)"
proof (induction m)
  case (Cons x m)
  obtain k' v' where x: "x = (k', v')" by fastforce
  show ?case unfolding x using Cons.IH by (simp add: insert_commute)
qed simp

lemma insert_sorted_sorted:
  "sorted_wrt bytes_less (map fst m) \<Longrightarrow> sorted_wrt bytes_less (map fst (insert_sorted k v m))"
proof (induction m)
  case Nil
  then show ?case by simp
next
  case (Cons x m)
  obtain k' v' where x: "x = (k', v')" by fastforce
  have less: "\<forall>z \<in> fst ` set m. bytes_less k' z" and m: "sorted_wrt bytes_less (map fst m)"
    using Cons.prems x by simp_all
  consider "k = k'" | "bytes_less k k'" "k \<noteq> k'" | "bytes_less k' k" "\<not> bytes_less k k'" "k \<noteq> k'"
    using bytes_less_total by blast
  then show ?case
  proof cases
    case 1
    then show ?thesis using less m by (simp add: x)
  next
    case 2
    then have "\<forall>z \<in> fst ` set m. bytes_less k z" using less bytes_less_trans by blast
    then show ?thesis using 2 less m by (simp add: x)
  next
    case 3
    then have "\<forall>z \<in> fst ` set (insert_sorted k v m). bytes_less k' z"
      using less by (simp add: insert_sorted_keys)
    then show ?thesis using 3 Cons.IH [OF m] by (simp add: x)
  qed
qed

lemma bytes_sorted_distinct: "sorted_wrt bytes_less xs \<Longrightarrow> distinct xs"
proof (induction xs)
  case (Cons x xs)
  then show ?case using bytes_less_irrefl [of x] by auto
qed simp

lemma insert_sorted_lookup:
  "sorted_wrt bytes_less (map fst m) \<Longrightarrow> map_of (insert_sorted k v m) = (map_of m)(k \<mapsto> v)"
proof (induction m)
  case (Cons x m)
  then show ?case by (cases x) auto
qed simp

text \<open>The log of all puts, the last one first, and the sorted content that it stands for.\<close>

type_synonym memory = "(string \<times> ServerStatus option) list"

definition content :: "memory \<Rightarrow> (string \<times> ServerStatus option) list" where
  "content s = foldr (\<lambda>(k, v). insert_sorted k v) s []"

definition memory_etcd :: "memory etcd" where
  "memory_etcd =
     \<lparr>et_put = (\<lambda>k v s. ((k, v) # s, None)),
      et_get_prefix = (\<lambda>p s. Inr (filter (\<lambda>(k, v). has_prefix p k) (content s))),
      et_grant = (\<lambda>ttl s. (s, Inr 1)), et_put_lease = (\<lambda>k v l s. (s, None)),
      et_keep_alive = (\<lambda>l s. (s, None))\<rparr>"

lemma content_sorted: "sorted_wrt bytes_less (map fst (content s))"
  by (induction s) (auto simp: content_def intro: insert_sorted_sorted split: prod.split)

lemma memory_etcd_works: "etcd_works memory_etcd (\<lambda>s. map_of (content s))"
  unfolding etcd_works_def
proof (intro conjI allI impI)
  fix k v s s'
  assume "et_put memory_etcd k v s = (s', None)"
  then have "s' = (k, v) # s" by (simp add: memory_etcd_def)
  then show "map_of (content s') = (map_of (content s))(k \<mapsto> v)"
    using content_sorted [of s] by (simp add: content_def insert_sorted_lookup)
next
  fix k v s s' err
  assume "et_put memory_etcd k v s = (s', Some err)"
  then show "map_of (content s') = map_of (content s) \<or> map_of (content s') = (map_of (content s))(k \<mapsto> v)"
    by (simp add: memory_etcd_def)
next
  fix p s kvs
  assume "et_get_prefix memory_etcd p s = Inr kvs"
  then have kvs: "kvs = filter (\<lambda>(k, v). has_prefix p k) (content s)" by (simp add: memory_etcd_def)
  show "sorted_wrt bytes_less (map fst kvs)"
    unfolding kvs using content_sorted [of s] by (simp add: sorted_wrt_map sorted_wrt_filter)
  have "distinct (map fst (content s))" by (rule bytes_sorted_distinct [OF content_sorted])
  then show "set kvs = {(k, v). map_of (content s) k = Some v \<and> has_prefix p k}"
    unfolding kvs by auto
qed

theorem least_load_picks_the_least_loaded_witness:
  "best_in
     (registry [Register ''a:1'', Register ''b:2'', Report \<lparr>sl_Address = ''a:1'', sl_Load = 3, sl_Available = True\<rparr>]
       Map.empty) ''b:2''"
  using least_load_picks_the_least_loaded
    [OF memory_etcd_works, where ?s0.0 = "[]" and lb = "\<lparr>lb_rrIndex = 0\<rparr>" and r = "Inr ''b:2''" and lb' = "\<lparr>lb_rrIndex = 0\<rparr>"
      and ops = "[Register ''a:1'', Register ''b:2'', Report \<lparr>sl_Address = ''a:1'', sl_Load = 3, sl_Available = True\<rparr>]"
      and s = "fst (run_ops memory_etcd [Register ''a:1'', Register ''b:2'', Report \<lparr>sl_Address = ''a:1'', sl_Load = 3, sl_Available = True\<rparr>] [])"]
  by (simp add: memory_etcd_def RegisterServer_def ReportLoad_def content_def etcdServersPrefix_def GetBestServer_def
      available_servers_def List.map_filter_def least_loaded_def byte_def Let_def)

subsection \<open>Round robin\<close>

text \<open>The answers of consecutive calls.\<close>

fun rr_calls :: "'s etcd \<Rightarrow> nat \<Rightarrow> LoadBalancer \<Rightarrow> 's \<Rightarrow> (string + string) list" where
  "rr_calls e 0 lb s = []"
| "rr_calls e (Suc k) lb s =
     (case GetBestServer e ROUND_ROBIN lb s of (lb', r) \<Rightarrow> r # rr_calls e k lb' s)"

text \<open>The position of the next answer among \<open>n\<close> servers.\<close>

definition rr_start :: "LoadBalancer \<Rightarrow> nat \<Rightarrow> nat" where
  "rr_start lb n = (if int n \<le> lb_rrIndex lb then 0 else nat (lb_rrIndex lb))"

lemma round_robin_step:
  assumes "et_get_prefix e etcdServersPrefix s = Inr kvs" and "available_servers kvs = xs" and "xs \<noteq> []"
    and "0 \<le> lb_rrIndex lb" and "int (length xs) < 2 ^ 63"
  shows "GetBestServer e ROUND_ROBIN lb s =
    (lb\<lparr>lb_rrIndex := int (rr_start lb (length xs)) + 1\<rparr>, Inr (ss_Address (xs ! rr_start lb (length xs))))"
proof -
  let ?i = "rr_start lb (length xs)"
  have i: "(if lb_rrIndex lb \<ge> int (length xs) then 0 else lb_rrIndex lb) = int ?i" "?i < length xs"
    using assms(3,4) by (auto simp: rr_start_def)
  have "go_rem (int ?i) (int (length xs)) = int ?i" using i(2) by (subst go_rem_nonneg) auto
  moreover have "i64 (int ?i + 1) = int ?i + 1" using i(2) assms(5) by (intro i64_id) linarith+
  ultimately show ?thesis using assms(1,2,3) i(1) by (simp add: GetBestServer_def Let_def)
qed

lemma rr_start_next: "i < n \<Longrightarrow> rr_start (lb\<lparr>lb_rrIndex := int i + 1\<rparr>) n = Suc i mod n"
  by (cases "Suc i = n") (auto simp: rr_start_def)

lemma rr_calls_rotate:
  assumes "et_get_prefix e etcdServersPrefix s = Inr kvs" and "available_servers kvs = xs" and "xs \<noteq> []"
    and "0 \<le> lb_rrIndex lb" and "int (length xs) < 2 ^ 63"
  shows "rr_calls e k lb s = map (\<lambda>j. Inr (ss_Address (xs ! ((rr_start lb (length xs) + j) mod length xs)))) [0..<k]"
  using assms(4)
proof (induction k arbitrary: lb)
  case 0
  then show ?case by simp
next
  case (Suc k)
  let ?n = "length xs" and ?i = "rr_start lb (length xs)"
  let ?lb = "lb\<lparr>lb_rrIndex := int ?i + 1\<rparr>"
  have i: "?i < ?n" using assms(3) Suc.prems by (auto simp: rr_start_def)
  have "rr_calls e (Suc k) lb s = Inr (ss_Address (xs ! ?i)) # rr_calls e k ?lb s"
    using round_robin_step [OF assms(1-3) Suc.prems assms(5)] by simp
  also have "rr_calls e k ?lb s = map (\<lambda>j. Inr (ss_Address (xs ! ((Suc ?i mod ?n + j) mod ?n)))) [0..<k]"
    using Suc.IH [of ?lb] by (simp add: rr_start_next [OF i])
  also have "\<dots> = map (\<lambda>j. Inr (ss_Address (xs ! ((?i + Suc j) mod ?n)))) [0..<k]"
    by (simp add: mod_add_left_eq)
  finally show ?case
    using i by (simp add: upt_conv_Cons map_Suc_upt [symmetric] comp_def del: upt_Suc)
qed

lemma rotation_covers:
  assumes "0 < n"
  shows "(\<lambda>j. (i + j) mod n) ` {0..<n} = {0..<n :: nat}"
proof -
  have "m \<in> (\<lambda>j. (i + j) mod n) ` {0..<n}" if "m < n" for m
  proof -
    have "i mod n < n" using assms by simp
    have "(i + (m + (n - i mod n)) mod n) mod n = (i mod n + (m + (n - i mod n))) mod n"
      by (metis mod_add_left_eq mod_add_right_eq)
    also have "i mod n + (m + (n - i mod n)) = m + n" using \<open>i mod n < n\<close> by simp
    also have "(m + n) mod n = m" using that by simp
    finally show ?thesis using assms by (intro image_eqI [of _ _ "(m + (n - i mod n)) mod n"]) auto
  qed
  then show ?thesis using assms by auto
qed

lemma available_addresses:
  assumes etcd: "etcd_works e view" and st: "stores (view s) m" and query: "et_get_prefix e etcdServersPrefix s = Inr kvs"
  shows "set (map ss_Address (available_servers kvs)) = {a. \<exists>st. m a = Some st \<and> ss_Available st}"
    and "sorted_wrt bytes_less (map ss_Address (available_servers kvs))"
proof -
  note set = available_from_registry(1) [OF etcd st query]
  have addr: "ss_Address u = b" if "m b = Some u" for b u using st that by (simp add: stores_def)
  show "set (map ss_Address (available_servers kvs)) = {a. \<exists>st. m a = Some st \<and> ss_Available st}"
    unfolding set_map set
  proof (intro set_eqI iffI)
    fix b
    assume "b \<in> {a. \<exists>st. m a = Some st \<and> ss_Available st}"
    then obtain u where "m b = Some u" "ss_Available u" by blast
    then have "u \<in> {st. m (ss_Address st) = Some st \<and> ss_Available st}" "b = ss_Address u"
      using addr [of b u] by simp_all
    then show "b \<in> ss_Address ` {st. m (ss_Address st) = Some st \<and> ss_Available st}" by blast
  qed blast
  show "sorted_wrt bytes_less (map ss_Address (available_servers kvs))"
    using available_from_registry(2) [OF etcd st query] by (simp add: sorted_wrt_map)
qed

lemma available_length: "length (available_servers kvs) \<le> length kvs"
proof (induction kvs)
  case (Cons x kvs)
  obtain k v where "x = (k, v)" by fastforce
  then show ?case using Cons by (cases v) auto
qed simp

lemma rotation_serves_each:
  assumes ne: "as \<noteq> []" and dist: "distinct as"
    and cs: "cs = map (\<lambda>j. Inr (as ! ((i + j) mod length as)) :: string + string) [0..<length as]"
  shows "set cs = Inr ` set as" and "distinct cs"
proof -
  have "0 < length as" using ne by simp
  then have "(\<lambda>i. Inr (as ! i) :: string + string) ` (\<lambda>j. (i + j) mod length as) ` {0..<length as}
      = Inr ` (!) as ` {0..<length as}"
    by (simp only: rotation_covers image_image)
  then have "set cs = Inr ` (!) as ` {0..<length as}" by (simp add: cs image_image)
  then show all: "set cs = Inr ` set as" by (simp only: nth_image [OF order_refl] take_all [OF order_refl])
  have "card (Inr ` set as :: (string + string) set) = length as"
    using dist by (simp add: card_image distinct_card)
  then show "distinct cs" by (intro card_distinct) (simp only: all, simp add: cs)
qed

text \<open>C21. Round robin serves every available server in turn. With the servers' registrations and reports
  stored and none changing, the answers of consecutive calls run through the addresses of the available servers
  in their order, from the balancer's position on and around again, so that as many calls as there are available
  servers name each of them exactly once.\<close>

theorem round_robin_serves_all_in_turn:
  assumes etcd: "etcd_works e view" and empty: "view s0 = Map.empty"
    and ops: "run_ops e ops s0 = (s, True)" and query: "et_get_prefix e etcdServersPrefix s = Inr kvs"
    and some: "registry ops Map.empty a = Some st" "ss_Available st"
    and index: "0 \<le> lb_rrIndex lb" and fits: "int (length kvs) < 2 ^ 63"
  shows "\<exists>as. sorted_wrt bytes_less as
    \<and> set as = {a. \<exists>st. registry ops Map.empty a = Some st \<and> ss_Available st}
    \<and> (\<forall>k. rr_calls e k lb s = map (\<lambda>j. Inr (as ! ((rr_start lb (length as) + j) mod length as))) [0..<k])
    \<and> distinct (rr_calls e (length as) lb s) \<and> set (rr_calls e (length as) lb s) = Inr ` set as"
proof -
  let ?m = "registry ops Map.empty" and ?xs = "available_servers kvs"
  let ?as = "map ss_Address ?xs"
  have "stores (view s0) Map.empty" by (simp add: stores_def empty)
  then have st: "stores (view s) ?m" by (rule run_ops_registry [OF etcd ops])
  note as = available_addresses(1) [OF etcd st query] and sorted = available_addresses(2) [OF etcd st query]
  have "a \<in> set ?as" unfolding as using some by blast
  then have ne: "?xs \<noteq> []" by auto
  have len: "int (length ?xs) < 2 ^ 63" using available_length [of kvs] fits by linarith
  have run: "rr_calls e k lb s = map (\<lambda>j. Inr (?as ! ((rr_start lb (length ?as) + j) mod length ?as))) [0..<k]" for k
    using rr_calls_rotate [OF query refl ne index len] ne by (simp add: nth_map)
  have "?as \<noteq> []" using ne by simp
  note each = rotation_serves_each [OF this bytes_sorted_distinct [OF sorted] run]
  show ?thesis using sorted as run each by (intro exI [of _ ?as]) simp
qed

definition three_servers :: "lb_op list" where
  "three_servers =
     [Register ''a:1'', Register ''c:3'', Register ''b:2'', Register ''d:4'',
      Report \<lparr>sl_Address = ''c:3'', sl_Load = 5, sl_Available = False\<rparr>]"

theorem round_robin_serves_all_in_turn_witness:
  "\<exists>as. sorted_wrt bytes_less as
    \<and> set as = {a. \<exists>st. registry three_servers Map.empty a = Some st \<and> ss_Available st}
    \<and> (\<forall>k. rr_calls memory_etcd k \<lparr>lb_rrIndex = 7\<rparr> (fst (run_ops memory_etcd three_servers []))
          = map (\<lambda>j. Inr (as ! ((rr_start \<lparr>lb_rrIndex = 7\<rparr> (length as) + j) mod length as))) [0..<k])
    \<and> distinct (rr_calls memory_etcd (length as) \<lparr>lb_rrIndex = 7\<rparr> (fst (run_ops memory_etcd three_servers [])))
    \<and> set (rr_calls memory_etcd (length as) \<lparr>lb_rrIndex = 7\<rparr> (fst (run_ops memory_etcd three_servers []))) = Inr ` set as"
proof (rule round_robin_serves_all_in_turn [OF memory_etcd_works, where ?s0.0 = "[]" and a = "''a:1''"
      and st = "\<lparr>ss_Address = ''a:1'', ss_Load = 0, ss_Available = True\<rparr>"
      and kvs = "content (fst (run_ops memory_etcd three_servers []))"])
  show "run_ops memory_etcd three_servers [] = (fst (run_ops memory_etcd three_servers []), True)"
    by (simp add: memory_etcd_def RegisterServer_def ReportLoad_def three_servers_def)
  show "et_get_prefix memory_etcd etcdServersPrefix (fst (run_ops memory_etcd three_servers [])) =
      Inr (content (fst (run_ops memory_etcd three_servers [])))"
    by (simp add: memory_etcd_def RegisterServer_def ReportLoad_def content_def etcdServersPrefix_def
        three_servers_def byte_def)
  show "int (length (content (fst (run_ops memory_etcd three_servers [])))) < 2 ^ 63"
    by (simp add: memory_etcd_def RegisterServer_def ReportLoad_def content_def etcdServersPrefix_def
        three_servers_def byte_def)
qed (simp_all add: content_def three_servers_def)

subsection \<open>Backend servers\<close>

fun fib :: "nat \<Rightarrow> nat" where
  "fib 0 = 0"
| "fib (Suc 0) = 1"
| "fib (Suc (Suc n)) = fib (Suc n) + fib n"

primrec fib_pair :: "nat \<Rightarrow> int \<times> int" where
  "fib_pair 0 = (0, 1)"
| "fib_pair (Suc n) = (case fib_pair n of (a, b) \<Rightarrow> (b, a + b))"

lemma fib_pair: "fib_pair n = (int (fib n), int (fib (Suc n)))"
  by (induction n) simp_all

lemma fib_mono: "m \<le> n \<Longrightarrow> fib m \<le> fib n"
proof -
  have "fib k \<le> fib (Suc k)" for k by (cases k) simp_all
  then show "m \<le> n \<Longrightarrow> fib m \<le> fib n" by (rule lift_Suc_mono_le)
qed

lemma fib_92: "int (fib 92) = 7540113804746346429"
proof -
  have "fst (fib_pair 92) = 7540113804746346429" by code_simp
  then show ?thesis by (simp add: fib_pair)
qed

lemma i64_sum: "i64 (i64 a + i64 b) = i64 (a + b)"
  by (metis add.commute i64_add)

text \<open>The recursion on 64-bit integers is the Fibonacci sequence modulo \<open>2 ^ 64\<close>.\<close>

lemma fibonacci_wraps: "fibonacci (int n) = i64 (int (fib n))"
proof (induction n rule: fib.induct)
  case 1
  then show ?case by (simp add: fibonacci.simps [of 0] i64_def)
next
  case 2
  then show ?case by (simp add: fibonacci.simps [of 1] i64_def)
next
  case (3 n)
  have "fibonacci (int (Suc (Suc n))) = i64 (fibonacci (int (Suc n)) + fibonacci (int n))"
    by (subst fibonacci.simps) simp
  then show ?case using 3 by (simp add: i64_sum)
qed

lemma fibonacci_exact: "n \<le> 92 \<Longrightarrow> fibonacci (int n) = int (fib n)"
  using fib_mono [of n 92] fib_92 by (simp add: fibonacci_wraps i64_id)


text \<open>Trimming a text of ASCII characters.\<close>

lemma TrimSpace_solid:
  assumes "ascii s" "s \<noteq> []" "\<not> is_space (byte (hd s))" "\<not> is_space (byte (last s))"
  shows "TrimSpace s = s"
proof -
  let ?m = "map (\<lambda>c. (byte c, [c])) s"
  have "dropWhile (\<lambda>(r, b). is_space r) ?m = ?m"
    using assms(2,3) by (cases s) simp_all
  moreover have "dropWhile (\<lambda>(r, b). is_space r) (rev ?m) = rev ?m"
    using assms(2,4) by (cases s rule: rev_cases) simp_all
  moreover have "concat (map snd ?m) = s" by (simp add: comp_def)
  ultimately show ?thesis by (simp add: TrimSpace_def Let_def runes_ascii [OF assms(1)])
qed

lemma TrimSpace_blank: "ascii s \<Longrightarrow> TrimSpace (CHR '' '' # s) = TrimSpace s"
  by (simp add: TrimSpace_def Let_def runes_ascii ascii_def byte_def is_space_def)

lemma digits_ascii:
  assumes "0 \<le> n"
  shows "ascii (digits n)" "digits n \<noteq> []" "\<not> is_space (byte (hd (digits n)))" "\<not> is_space (byte (last (digits n)))"
    "CHR '':'' \<notin> set (digits n)"
proof -
  have all: "list_all is_digit (digits n)" and ne: "digits n \<noteq> []" using digits_value [OF assms] by simp_all
  have no: "\<not> is_space (byte c)" if "is_digit c" for c using that by (auto simp: is_digit_def is_space_def)
  show "digits n \<noteq> []" by (rule ne)
  show "ascii (digits n)" using all by (auto simp: ascii_def list_all_iff is_digit_def)
  show "\<not> is_space (byte (hd (digits n)))" "\<not> is_space (byte (last (digits n)))"
    using all ne no by (simp_all add: list_all_iff)
  show "CHR '':'' \<notin> set (digits n)" using all by (auto simp: list_all_iff is_digit_def byte_def)
qed

lemma task_body_named:
  assumes "CHR '':'' \<notin> set name" and "0 \<le> n"
  shows "task_body (name @ '': fibonacci:'' @ itoa n) = ''fibonacci:'' @ itoa n"
proof -
  let ?t = "''fibonacci:'' @ itoa n"
  have d: "itoa n = digits n" using assms(2) by (simp add: itoa_def)
  have "split_at (CHR '':'') (name @ CHR '':'' # (CHR '' '' # ?t)) = name # split_at (CHR '':'') (CHR '' '' # ?t)"
    by (rule split_at_append [OF assms(1)])
  then have "task_body (name @ '': fibonacci:'' @ itoa n) = TrimSpace (CHR '' '' # ?t)"
    by (simp add: task_body_def Let_def join_split del: split_at.simps)
  also have "\<dots> = TrimSpace ?t"
    using digits_ascii(1) [OF assms(2)] by (intro TrimSpace_blank) (simp add: d ascii_def byte_def)
  also have "\<dots> = ?t"
    using digits_ascii [OF assms(2)] by (intro TrimSpace_solid) (simp_all add: d ascii_def byte_def is_space_def)
  finally show ?thesis .
qed

lemma split_fibonacci:
  assumes "0 \<le> n"
  shows "split_at (CHR '':'') (''fibonacci:'' @ itoa n) = [''fibonacci'', itoa n]"
  using split_at_append [of "CHR '':''" "''fibonacci''" "itoa n"] split_at_absent [of "CHR '':''" "itoa n"]
    digits_ascii(5) [OF assms] assms by (simp add: itoa_def del: split_at.simps)

lemma task_result_fibonacci:
  assumes "0 \<le> n" "n < 2 ^ 63"
  shows "task_result (''fibonacci:'' @ itoa n) = ''Fibonacci('' @ itoa n @ '') = '' @ itoa (fibonacci n)"
proof -
  have d: "itoa n = digits n" using assms(1) by (simp add: itoa_def)
  have "TrimSpace (itoa n) = itoa n"
    unfolding d using digits_ascii [OF assms(1)] by (intro TrimSpace_solid)
  moreover have "Atoi (itoa n) = Inr n" by (rule Atoi_itoa) (use assms in simp_all)
  ultimately show ?thesis
    using split_fibonacci [OF assms(1)] by (simp add: task_result_def del: split_at.simps)
qed


text \<open>C29. A backend server answers the Fibonacci tasks of the clients. A task "name: fibonacci:n" with
  n at most 92, where every value fits into 64 bits, is answered with the n-th Fibonacci number, and the call
  leaves the server's load counter as it was. A task without a name before it, "fibonacci:n", is answered as an
  unknown task, although the method's comment describes that form.\<close>

theorem compute_answers_fibonacci:
  assumes "CHR '':'' \<notin> set name" and "n \<le> 92"
    and "- (2 ^ 31) \<le> bs_concurrentTasks b" "bs_concurrentTasks b < 2 ^ 31"
  shows "Compute (name @ '': fibonacci:'' @ itoa (int n)) b =
      (b, ''Fibonacci('' @ itoa (int n) @ '') = '' @ itoa (int (fib n)))
    \<and> snd (Compute (''fibonacci:'' @ itoa (int n)) b) = ''Error: unknown task''"
proof
  have counter: "end_task (start_task b) = b"
    using assms(3,4) by (simp add: start_task_def end_task_def i32_def mod_simps)
  show "Compute (name @ '': fibonacci:'' @ itoa (int n)) b =
      (b, ''Fibonacci('' @ itoa (int n) @ '') = '' @ itoa (int (fib n)))"
    unfolding Compute_def task_body_named [OF assms(1) of_nat_0_le_iff] counter
    using assms(2) by (subst task_result_fibonacci) (simp_all add: fibonacci_exact)
  have d: "itoa (int n) = digits (int n)" by (simp add: itoa_def)
  have "TrimSpace (itoa (int n)) = itoa (int n)"
    unfolding d using digits_ascii [of "int n"] by (intro TrimSpace_solid) simp_all
  then have body: "task_body (''fibonacci:'' @ itoa (int n)) = itoa (int n)"
    using split_fibonacci [of "int n"] by (simp add: task_body_def Let_def del: split_at.simps)
  have "\<not> has_prefix ''fibonacci:'' (itoa (int n))"
    using digits_ascii(5) [of "int n"] by (auto simp: d has_prefix_append simp del: has_prefix.simps)
  then show "snd (Compute (''fibonacci:'' @ itoa (int n)) b) = ''Error: unknown task''"
    unfolding Compute_def body by (simp add: task_result_def del: has_prefix.simps)
qed

theorem compute_answers_fibonacci_witness:
  "snd (Compute (client_task 7) \<lparr>bs_serverAddr = ''127.0.0.1:50051'', bs_concurrentTasks = 3\<rparr>)
     = ''Fibonacci(40) = 102334155''"
proof -
  have "fst (fib_pair 40) = 102334155" by code_simp
  then have "int (fib 40) = 102334155" by (simp add: fib_pair)
  moreover have "itoa 102334155 = ''102334155''" "itoa 40 = ''40''" by code_simp+
  ultimately show ?thesis
    using compute_answers_fibonacci [of "''Client '' @ itoa 7" 40
        "\<lparr>bs_serverAddr = ''127.0.0.1:50051'', bs_concurrentTasks = 3\<rparr>"] digits_ascii(5) [of 7]
    by (simp add: client_task_def itoa_def)
qed

end
