(* ===== verification/LoadBalancer_Programs.thy ===== *)
theory LoadBalancer_Programs
  imports LoadBalancer_Theorems
begin

text \<open>
  The programs around the balancer: the life of a backend server with its registration, its five-second reports and its
  listening (P1-LoadBalancer/server/main.go), and the load test (client/main.go). Dialling, listening and
  serving can fail; their outcomes, the times and the order of the events are arguments.
\<close>

subsection \<open>A backend server (simulateBackendServer)\<close>

text \<open>The outcomes: dialling for the registration, listening, serving.\<close>

record backend_host =
  bh_dial :: "string option"
  bh_listen :: "string option"
  bh_serve :: "string option"

text \<open>
  What a server leaves behind: the state of etcd, whether its reporting goroutine runs, whether it serves, and what it
  has logged; and the report that the goroutine has made up and not yet sent. Serving goes on until Serve returns.
\<close>

record backend_process =
  bp_server :: backendServer
  bp_reporting :: bool
  bp_serving :: bool
  bp_report :: "ServerLoad option"
  bp_log :: "string list"

definition backend_address :: "int \<Rightarrow> string" where
  "backend_address port = ''127.0.0.1:'' @ itoa port"

definition simulateBackendServer ::
  "'s etcd \<Rightarrow> backend_host \<Rightarrow> int \<Rightarrow> 's \<Rightarrow> 's \<times> backend_process" where
  "simulateBackendServer e host port s =
     (let serverAddr = backend_address port;
          server = \<lparr>bs_serverAddr = serverAddr, bs_concurrentTasks = 0\<rparr>
      in case bh_dial host of
           Some err \<Rightarrow>
             (s, \<lparr>bp_server = server, bp_reporting = False, bp_serving = False,
                  bp_report = None, bp_log = [''Server '' @ serverAddr @ '': failed to connect to LB: '' @ err]\<rparr>)
         | None \<Rightarrow>
             (case RegisterServer e serverAddr s of
                (s', r) \<Rightarrow>
                  let log1 = (case r of Inl err \<Rightarrow> [''Server '' @ serverAddr @ '': registration error: '' @ err]
                              | Inr _ \<Rightarrow> [])
                  in case bh_listen host of
                       Some err \<Rightarrow>
                         (s', \<lparr>bp_server = server, bp_reporting = True, bp_serving = False,
                               bp_report = None, bp_log = log1 @ [''Server '' @ serverAddr @ '': listen error: '' @ err]\<rparr>)
                     | None \<Rightarrow>
                         (s', \<lparr>bp_server = server, bp_reporting = True, bp_serving = bh_serve host = None,
                               bp_report = None, bp_log = log1 @ [''Backend server running on '' @ serverAddr]
                                 @ (case bh_serve host of
                                      None \<Rightarrow> []
                                    | Some err \<Rightarrow> [''Server '' @ serverAddr @ '': serve error: '' @ err])\<rparr>)))"

text \<open>
  One turn of the reporting loop in its two steps, between which tasks start and end: the counter is read and the
  report is made up; it is sent. \<open>dial\<close> is the outcome of dialling.
\<close>

definition report_read :: "backend_process \<Rightarrow> backend_process" where
  "report_read p =
     (if \<not> bp_reporting p \<or> bp_report p \<noteq> None then p
      else
        (let b = bp_server p
         in p\<lparr>bp_report := Some (load_report b),
              bp_log := bp_log p
                @ (if bs_concurrentTasks b \<noteq> 0
                   then [bs_serverAddr b @ '' has Current Load '' @ itoa (bs_concurrentTasks b) @ '':''] else [])\<rparr>))"

definition report_send :: "'s etcd \<Rightarrow> string option \<Rightarrow> backend_process \<Rightarrow> 's \<Rightarrow> 's \<times> backend_process" where
  "report_send e dial p s =
     (case bp_report p of
        None \<Rightarrow> (s, p)
      | Some report \<Rightarrow>
          let addr = bs_serverAddr (bp_server p)
          in case dial of
               Some err \<Rightarrow>
                 (s, p\<lparr>bp_report := None,
                       bp_log := bp_log p @ [''Server '' @ addr @ '': failed to reconnect to LB: '' @ err]\<rparr>)
             | None \<Rightarrow>
                 (case ReportLoad e report s of
                    (s', r) \<Rightarrow>
                      (s', p\<lparr>bp_report := None,
                             bp_log := bp_log p
                               @ (case r of Inl err \<Rightarrow> [''Server '' @ addr @ '': report load error: '' @ err]
                                  | Inr _ \<Rightarrow> [])\<rparr>)))"

text \<open>Calls arrive only while the server serves.\<close>

datatype backend_event = ReportReads | ReportSends "string option" | TaskStarts | TaskEnds

fun backend_step :: "'s etcd \<Rightarrow> backend_event \<Rightarrow> 's \<times> backend_process \<Rightarrow> 's \<times> backend_process" where
  "backend_step e ReportReads (s, p) = (s, report_read p)"
| "backend_step e (ReportSends dial) (s, p) = report_send e dial p s"
| "backend_step e TaskStarts (s, p) =
     (s, if bp_serving p then p\<lparr>bp_server := start_task (bp_server p)\<rparr> else p)"
| "backend_step e TaskEnds (s, p) =
     (s, if 0 < bs_concurrentTasks (bp_server p) then p\<lparr>bp_server := end_task (bp_server p)\<rparr> else p)"

text \<open>main starts the servers on consecutive ports.\<close>

definition start_servers ::
  "'s etcd \<Rightarrow> (nat \<Rightarrow> backend_host) \<Rightarrow> nat \<Rightarrow> int \<Rightarrow> 's \<Rightarrow> 's \<times> backend_process list" where
  "start_servers e hosts numServers startPort s =
     foldl (\<lambda>(s, ps) i. case simulateBackendServer e (hosts i) (i64 (startPort + int i)) s of
              (s', p) \<Rightarrow> (s', ps @ [p]))
       (s, []) [0..<numServers]"

subsection \<open>The load test (client/main.go)\<close>

text \<open>
  What one turn of a client's loop meets: the time check, the state of etcd, the outcomes of dialling the chosen
  server and of the computation, and the measured milliseconds.
\<close>

record 's client_turn =
  ct_before_stop :: bool
  ct_etcd :: 's
  ct_dial :: "string \<Rightarrow> string option"
  ct_compute :: "string \<Rightarrow> string \<Rightarrow> string + string"
  ct_latency :: int

record load_test =
  lt_totalRequests :: int
  lt_totalLatency :: int
  lt_log :: "string list"

definition client_turn_result ::
  "'s etcd \<Rightarrow> LoadBalanceStrategy \<Rightarrow> int \<Rightarrow> 's client_turn \<Rightarrow> LoadBalancer \<times> load_test \<Rightarrow> LoadBalancer \<times> load_test" where
  "client_turn_result e strategy clientID t st =
     (case st of (lb, totals) \<Rightarrow>
       (let client = ''Client '' @ itoa clientID;
            logs = (\<lambda>line. totals\<lparr>lt_log := lt_log totals @ [client @ line]\<rparr>)
        in case GetBestServer e strategy lb (ct_etcd t) of
             (lb', Inl err) \<Rightarrow> (lb', logs ('': error getting best server: '' @ err))
           | (lb', Inr address) \<Rightarrow>
               (case ct_dial t address of
                  Some err \<Rightarrow> (lb', logs ('': error connecting to backend '' @ address @ '': '' @ err))
                | None \<Rightarrow>
                    (case ct_compute t address (client_task clientID) of
                       Inl err \<Rightarrow> (lb', logs ('': compute error: '' @ err))
                     | Inr _ \<Rightarrow>
                         (lb', totals\<lparr>lt_totalRequests := i64 (lt_totalRequests totals + 1),
                                      lt_totalLatency := i64 (lt_totalLatency totals + ct_latency t)\<rparr>)))))"

text \<open>The loop of one client, over the turns that time allows.\<close>

fun client_loop ::
  "'s etcd \<Rightarrow> LoadBalanceStrategy \<Rightarrow> int \<Rightarrow> 's client_turn list \<Rightarrow> LoadBalancer \<times> load_test \<Rightarrow> LoadBalancer \<times> load_test" where
  "client_loop e strategy clientID [] st = st"
| "client_loop e strategy clientID (t # ts) st =
     (if ct_before_stop t then client_loop e strategy clientID ts (client_turn_result e strategy clientID t st) else st)"

text \<open>
  The whole test, one client after the other; the clients share the totals. Without a connection to the balancer
  the program ends with log.Fatalf (\<open>Inl\<close>).
\<close>

definition load_test_main ::
  "'s etcd \<Rightarrow> string option \<Rightarrow> string \<Rightarrow> 's client_turn list list \<Rightarrow> LoadBalancer \<Rightarrow> string + (LoadBalancer \<times> load_test)" where
  "load_test_main e dial strategyStr clients lb =
     (case dial of
        Some err \<Rightarrow> Inl (''Failed to connect to Load Balancer: '' @ err)
      | None \<Rightarrow>
          Inr (foldl (\<lambda>st (i, ts). client_loop e (client_strategy strategyStr) (int i) ts st)
                 (lb, \<lparr>lt_totalRequests = 0, lt_totalLatency = 0, lt_log = []\<rparr>)
                 (zip [0..<length clients] clients)))"


subsection \<open>The load balancer (lb_server/main.go)\<close>

text \<open>
  What main serves, if it comes that far, the line it logs and the text of log.Fatalf; the errors of the
  client of etcd, of net.Listen and of Serve are arguments.
\<close>

record lb_program =
  lbp_serves :: "LoadBalancer option"
  lbp_log :: "string list"
  lbp_fatal :: "string option"

definition lb_server_main ::
  "'s etcd \<Rightarrow> string option \<Rightarrow> string option \<Rightarrow> string option \<Rightarrow> 's \<Rightarrow> 's \<times> lb_program" where
  "lb_server_main e connect listen serve s =
     (let fatal = (\<lambda>m. \<lparr>lbp_serves = None, lbp_log = [], lbp_fatal = Some m\<rparr>)
      in case connect of
           Some err \<Rightarrow> (s, fatal (''Failed to connect to etcd: '' @ err))
         | None \<Rightarrow>
             (case registerLBServer e ''127.0.0.1:50050'' 10 s of
                (s1, Inl err) \<Rightarrow> (s1, fatal (''Failed to register LB server in etcd: '' @ err))
              | (s1, Inr _) \<Rightarrow>
                  (s1, case listen of
                     Some err \<Rightarrow> fatal (''Failed to listen: '' @ err)
                   | None \<Rightarrow>
                       \<lparr>lbp_serves = Some \<lparr>lb_rrIndex = 0\<rparr>,
                        lbp_log = [''Load Balancer running on port 50050''],
                        lbp_fatal = map_option (\<lambda>err. ''Failed to serve: '' @ err) serve\<rparr>)))"

text \<open>The balancer serves exactly when every step before succeeded; it registers itself before it listens.\<close>

lemma balancer_serves_iff:
  "lbp_serves (snd (lb_server_main e connect listen serve s)) \<noteq> None \<longleftrightarrow>
     connect = None \<and> \<not> isl (snd (registerLBServer e ''127.0.0.1:50050'' 10 s)) \<and> listen = None"
  by (auto simp: lb_server_main_def Let_def split: option.splits prod.splits sum.splits)

lemma balancer_registers_before_listening:
  "connect = None \<Longrightarrow> fst (lb_server_main e connect listen serve s)
     = fst (registerLBServer e ''127.0.0.1:50050'' 10 s)"
  by (auto simp: lb_server_main_def Let_def split: prod.splits sum.splits)

subsection \<open>What is reported\<close>

text \<open>The tasks that run after some events, when \<open>n\<close> ran before.\<close>

fun running_tasks :: "backend_event list \<Rightarrow> nat \<Rightarrow> nat" where
  "running_tasks [] n = n"
| "running_tasks (ReportReads # es) n = running_tasks es n"
| "running_tasks (ReportSends _ # es) n = running_tasks es n"
| "running_tasks (TaskStarts # es) n = running_tasks es (Suc n)"
| "running_tasks (TaskEnds # es) n = running_tasks es (n - 1)"

definition backend_run :: "'s etcd \<Rightarrow> backend_event list \<Rightarrow> 's \<times> backend_process \<Rightarrow> 's \<times> backend_process" where
  "backend_run e es st = foldl (\<lambda>st ev. backend_step e ev st) st es"

lemma report_server [simp]:
  "bp_server (report_read p) = bp_server p" "bp_serving (report_read p) = bp_serving p"
  "bp_reporting (report_read p) = bp_reporting p"
  "bp_server (snd (report_send e dial p s)) = bp_server p" "bp_serving (snd (report_send e dial p s)) = bp_serving p"
  "bp_reporting (snd (report_send e dial p s)) = bp_reporting p"
  by (simp_all add: report_read_def report_send_def Let_def split: option.split prod.split)

lemma backend_run_append: "backend_run e (es @ es') st = backend_run e es' (backend_run e es st)"
  by (simp add: backend_run_def)

text \<open>Tasks touch neither etcd nor the report that is made up.\<close>

fun task_event :: "backend_event \<Rightarrow> bool" where
  "task_event TaskStarts = True"
| "task_event TaskEnds = True"
| "task_event _ = False"

lemma backend_run_tasks:
  assumes "list_all task_event es"
  shows "\<exists>b. backend_run e es (s, p) = (s, p\<lparr>bp_server := b\<rparr>) \<and> bs_serverAddr b = bs_serverAddr (bp_server p)"
  using assms
proof (induction es arbitrary: p)
  case Nil
  then show ?case by (intro exI [of _ "bp_server p"]) (simp add: backend_run_def)
next
  case (Cons ev es)
  have "\<exists>b. backend_step e ev (s, p) = (s, p\<lparr>bp_server := b\<rparr>) \<and> bs_serverAddr b = bs_serverAddr (bp_server p)"
    using Cons.prems
    by (cases ev) (auto simp: start_task_def end_task_def intro: exI [of _ "bp_server p"])
  then obtain b where b: "backend_step e ev (s, p) = (s, p\<lparr>bp_server := b\<rparr>)" "bs_serverAddr b = bs_serverAddr (bp_server p)"
    by blast
  from Cons.IH [of "p\<lparr>bp_server := b\<rparr>"] Cons.prems b show ?case by (auto simp: backend_run_def)
qed

lemma i32_small: "0 \<le> n \<Longrightarrow> n < 2 ^ 31 \<Longrightarrow> i32 n = n"
  by (simp add: i32_def)

text \<open>The counter of a server that serves is the number of the tasks that run.\<close>

lemma backend_run_counter:
  assumes "bp_serving p" and "bs_concurrentTasks (bp_server p) = int n" and "n + length es < 2 ^ 31"
    and "backend_run e es (s, p) = (s', p')"
  shows "bs_concurrentTasks (bp_server p') = int (running_tasks es n) \<and> bp_serving p'
    \<and> bs_serverAddr (bp_server p') = bs_serverAddr (bp_server p) \<and> bp_reporting p' = bp_reporting p"
  using assms
proof (induction es arbitrary: s p n)
  case Nil
  then show ?case by (simp add: backend_run_def)
next
  case (Cons ev es)
  obtain s1 p1 where one: "backend_step e ev (s, p) = (s1, p1)" by fastforce
  then have rest: "backend_run e es (s1, p1) = (s', p')" using Cons.prems(4) by (simp add: backend_run_def)
  show ?case
  proof (cases ev)
    case ReportReads
    then have p1: "p1 = report_read p" using one by simp
    show ?thesis using Cons.IH [of p1 n s1] Cons.prems rest ReportReads by (simp add: p1)
  next
    case (ReportSends dial)
    then have p1: "p1 = snd (report_send e dial p s)" using one by (metis backend_step.simps(2) snd_conv)
    show ?thesis using Cons.IH [of p1 n s1] Cons.prems rest ReportSends by (simp add: p1)
  next
    case TaskStarts
    then have p1: "p1 = p\<lparr>bp_server := start_task (bp_server p)\<rparr>" using one Cons.prems(1) by simp
    have "i32 (int n + 1) = int (Suc n)" using Cons.prems(3) by (subst i32_small) auto
    then show ?thesis using Cons.IH [of p1 "Suc n" s1] Cons.prems rest TaskStarts by (simp add: p1 start_task_def)
  next
    case TaskEnds
    show ?thesis
    proof (cases n)
      case 0
      then have "p1 = p" using one Cons.prems(2) TaskEnds by simp
      then show ?thesis using Cons.IH [of p1 0 s1] Cons.prems rest TaskEnds 0 by simp
    next
      case (Suc m)
      then have p1: "p1 = p\<lparr>bp_server := end_task (bp_server p)\<rparr>" using one Cons.prems(2) TaskEnds by simp
      have "i32 (int n - 1) = int m" using Cons.prems(3) Suc by (subst i32_small) auto
      then show ?thesis using Cons.IH [of p1 m s1] Cons.prems rest TaskEnds Suc by (simp add: p1 end_task_def)
    qed
  qed
qed

text \<open>C32. The registry follows the servers. A backend server that listens and serves runs through any events; then, with
  no report under way, its reporting goroutine reads the counter, tasks start and end meanwhile in any number, and
  the report is sent and reaches etcd. It leaves there the number of the tasks that were running when the counter was
  read, and marks the server as available exactly when these were less than five, whatever has happened since.\<close>

theorem reports_follow_the_tasks:
  assumes works: "etcd_works e view" and start: "simulateBackendServer e host port s = (s1, p1)" and serves: "bp_serving p1"
    and before: "bp_report (snd (backend_run e es (s1, p1))) = None" and few: "length es < 2 ^ 31"
    and meanwhile: "list_all task_event es'"
    and run: "backend_run e (es @ ReportReads # es') (s1, p1) = (s2, p2)"
    and put: "et_put e (etcdServersPrefix @ backend_address port) v s2 = (s3, None)"
      "v = Some \<lparr>ss_Address = backend_address port, ss_Load = int (running_tasks es 0),
        ss_Available = running_tasks es 0 < 5\<rparr>"
  shows "fst (report_send e None p2 s2) = s3
    \<and> view (fst (report_send e None p2 s2)) (etcdServersPrefix @ backend_address port) =
      Some (Some \<lparr>ss_Address = backend_address port, ss_Load = int (running_tasks es 0),
        ss_Available = running_tasks es 0 < 5\<rparr>)"
proof -
  have p1: "bp_reporting p1 \<and> bs_concurrentTasks (bp_server p1) = 0 \<and> bs_serverAddr (bp_server p1) = backend_address port"
    using start serves
    by (auto simp: simulateBackendServer_def Let_def split: option.splits prod.splits)
  obtain t q where q: "backend_run e es (s1, p1) = (t, q)" by fastforce
  have counter: "bs_concurrentTasks (bp_server q) = int (running_tasks es 0)"
    "bs_serverAddr (bp_server q) = backend_address port" "bp_reporting q"
    using backend_run_counter [OF serves, of 0 es e s1 t q] q few p1 by simp_all
  then have report: "bp_report (report_read q) = Some \<lparr>sl_Address = backend_address port,
      sl_Load = int (running_tasks es 0), sl_Available = running_tasks es 0 < 5\<rparr>"
    using before q by (simp add: report_read_def load_report_def maxConcurrentTasks_def Let_def)
  have "backend_run e es' (t, report_read q) = (s2, p2)"
    using run q by (simp add: backend_run_append) (simp add: backend_run_def)
  then have "bp_report p2 = bp_report (report_read q)"
    using backend_run_tasks [OF meanwhile, of e t "report_read q"] by auto
  then have "fst (report_send e None p2 s2) = s3"
    using put report by (simp add: report_send_def ReportLoad_def Let_def)
  moreover have "view s3 = (view s2)(etcdServersPrefix @ backend_address port \<mapsto> v)"
    using works put(1) by (auto simp: etcd_works_def)
  ultimately show ?thesis using put(2) by simp
qed


definition good_host :: backend_host where
  "good_host = \<lparr>bh_dial = None, bh_listen = None, bh_serve = None\<rparr>"

definition deaf_host :: backend_host where
  "deaf_host = \<lparr>bh_dial = None, bh_listen = Some ''address already in use'', bh_serve = None\<rparr>"

theorem reports_follow_the_tasks_witness:
  "case backend_run memory_etcd ([TaskStarts, TaskStarts, TaskEnds, TaskStarts] @ ReportReads # [TaskStarts, TaskStarts, TaskStarts])
      (simulateBackendServer memory_etcd good_host 50051 []) of
     (s, p) \<Rightarrow> map_of (content (fst (report_send memory_etcd None p s))) ''/lb/servers/127.0.0.1:50051'' =
       Some (Some \<lparr>ss_Address = ''127.0.0.1:50051'', ss_Load = 2, ss_Available = True\<rparr>)"
proof -
  let ?es = "[TaskStarts, TaskStarts, TaskEnds, TaskStarts]" and ?es' = "[TaskStarts, TaskStarts, TaskStarts]"
  have a: "backend_address 50051 = ''127.0.0.1:50051''" by code_simp
  obtain s1 p1 where start: "simulateBackendServer memory_etcd good_host 50051 [] = (s1, p1)" by fastforce
  have "bp_serving (snd (simulateBackendServer memory_etcd good_host 50051 []))"
    "bp_report (snd (backend_run memory_etcd ?es (simulateBackendServer memory_etcd good_host 50051 []))) = None"
    by code_simp+
  then have serves: "bp_serving p1" "bp_report (snd (backend_run memory_etcd ?es (s1, p1))) = None" by (simp_all add: start)
  obtain s2 p2 where run: "backend_run memory_etcd (?es @ ReportReads # ?es') (s1, p1) = (s2, p2)" by fastforce
  let ?v = "Some \<lparr>ss_Address = backend_address 50051, ss_Load = int (running_tasks ?es 0), ss_Available = running_tasks ?es 0 < 5\<rparr>"
  have "et_put memory_etcd (etcdServersPrefix @ backend_address 50051) ?v s2
      = ((etcdServersPrefix @ backend_address 50051, ?v) # s2, None)"
    by (simp add: memory_etcd_def)
  note reports_follow_the_tasks [OF memory_etcd_works start serves _ _ run this refl, THEN conjunct2]
  then have "map_of (content (fst (report_send memory_etcd None p2 s2))) (etcdServersPrefix @ backend_address 50051) = Some ?v"
    by simp
  moreover have "etcdServersPrefix @ backend_address 50051 = ''/lb/servers/127.0.0.1:50051''"
    "?v = Some \<lparr>ss_Address = ''127.0.0.1:50051'', ss_Load = 2, ss_Available = True\<rparr>"
    by (simp_all add: a etcdServersPrefix_def)
  ultimately have "map_of (content (fst (report_send memory_etcd None p2 s2))) ''/lb/servers/127.0.0.1:50051'' =
      Some (Some \<lparr>ss_Address = ''127.0.0.1:50051'', ss_Load = 2, ss_Available = True\<rparr>)" by (simp only:)
  then show ?thesis unfolding start run by (simp only: prod.case)
qed

text \<open>
  A server that cannot listen stays registered, and goes on reporting that it is free: under LEAST_LOAD
  it gets the calls as soon as the others have work.
\<close>

lemma deaf_server_is_chosen:
  "(let (s1, dead) = simulateBackendServer memory_etcd deaf_host 50051 [];
        (s2, alive) = simulateBackendServer memory_etcd good_host 50052 s1;
        (s3, alive) = backend_run memory_etcd [TaskStarts, ReportReads, ReportSends None] (s2, alive);
        (s4, dead) = backend_run memory_etcd [TaskStarts, ReportReads, ReportSends None] (s3, dead)
    in (bp_serving dead, bp_serving alive, snd (GetBestServer memory_etcd LEAST_LOAD \<lparr>lb_rrIndex = 0\<rparr> s4)))
   = (False, True, Inr ''127.0.0.1:50051'')"
  by code_simp

end
