(* ===== verification/Spec2Isabelle.thy ===== *)
theory Spec2Isabelle
  imports
    Byz_Theorems Byz_Concurrent_Simulation
    Strife_Bank_Theorems Strife_Payment_Faults Strife_Books Strife_Repeats Strife_Access
    Strife_Types Strife_Startup Strife_Logs Strife_Routines
    Strife_Client_Gateway
    MapReduce_Concurrent
    LoadBalancer_Programs
begin

text \<open>
  A model of the Go programs of this repository, the four parts of Assignment2, and the theorems about
  them. Directories below are relative to src/Assignment2.

  The programs. P4-ByzantineConsensus simulates the agreement of generals: the client registers generals at a
  server, sends the commander's order, relays messages in rounds and collects the decisions. P3-Strife is a
  payment system: a console client calls a gateway, which authorizes the request, runs a two-phase commit
  over the bank servers and keeps balances of its own; the client retries calls and queues payments while it
  has no connection. P2-MapReduce counts words or builds an inverted index over files with worker
  processes. P1-LoadBalancer directs clients to the backend servers that are registered in etcd.

  Conventions. A handler is a function from its arguments and the state to the new state and the
  result; a sum or an option is the error, and a panic is None. Integers are unbounded where the code
  cannot overflow and wrapped by i32 and i64 where it can. Go maps are association lists; the order of a loop
  over a map, coins, times, dials, the fate of each remote call and the content of files are arguments, so a theorem
  that does not restrict them holds for all of them. Goroutines whose interleaving matters are steps of
  an inductive relation.

  Shared theories.
  Prelude: wrapped integers, Go maps, printing of integers.
  Float32: float32 with its rounding, infinities and NaN, and the verb %.2f.
  Go_Text: UTF-8, and the functions of strings, strconv and bufio that the sources call.

  Byzantine agreement (P4-ByzantineConsensus).
  Byz_Server: server/main.go, handlers RegisterGeneral, SendOrder, ExchangeMessage, GetConsensus over the
  record ByzantineServer. Byz_Client: client/main.go, run_simulation is a whole run.
  Byz_Log: the logs as multisets (locale message_store). Byz_Consensus, Byz_Theorems: the server's invariant, what each
  handler does, and agreement and validity of a run in which nothing is lost, for all traitors, coins
  and schedules; what happens, for all coins, in the one configuration in which votes can tie; and the runs that
  fail or retreat.
  Byz_Concurrent: the handlers once more with the locks of server/main.go, each section under a lock a step of
  world_step, and main. Byz_Concurrent_Laws: the invariants world_ok and books of all interleavings, the measure
  total_effort and the shape of a deadlock. Byz_Concurrent_Theorems: an uninterrupted call is the atomic handler, no
  value is lost or stored twice, all calls are answered, and the one way in which the server stops.
  Byz_Concurrent_Simulation: client and server together, the calls of each phase of a run interleaving lock by
  lock, and the agreement of the loyal generals in every such run.

  Banks (P3-Strife/bank). Strife_Base: the messages. Strife_Bank: bank_server.go; Strife_Bank_Laws: the
  contract of a participant of the commit (locale participant, instances debit and credit);
  Strife_Bank_Theorems: the ledger that every run of calls refines, at most one commit per prepare, and when
  the process dies.

  Gateway (P3-Strife/gateway). Strife_Store: storage/ and payment/transaction.go. Strife_Banking: banking/ and
  config/config.go. Strife_Auth: auth/ and interceptors/. Strife_Payment: payment/processor.go and
  balance.go; here a payment is one atomic step whose remote calls follow a payment_env.
  Strife_Server: server.go. Strife_Payment_Laws, Strife_Phases, Strife_Transfer: what calls, phases and
  whole payments do to the money at the banks and in the gateway. Strife_Gateway_Theorems: exactness of a
  successful payment, no effect of a failed prepare, replay. Strife_Books: on a reliable network covered
  transfers succeed and the gateway's books agree with the banks'. Strife_Repeats: repetitions of a simple payment
  are charged each time. Strife_Payment_Faults: the payments that lose, create or repeat money.
  Strife_Access: who may pay and ask, and that a refused request changes nothing. Strife_Logs: the lines of the logging interceptors, which
  change nothing else. Strife_Startup: how gateway and client start.
  Strife_Routines: the goroutines behind tickers, of gateway and client, and how they stop.

  Payments that run at the same time. Strife_Concurrent: the same two-phase payments in small steps, one for each access
  to the transaction records, the local balances, the banking service or a bank; concurrent_step executes one
  step of one payment, a delayed call or the clean-up routine, and a list of events is an interleaving.
  Strife_Concurrent_Laws: the invariant run_ok of all interleavings, which says for each place of a payment what the banks
  have promised and executed. Strife_Concurrent_Theorems: payments with different ids, of any amounts and over any network,
  add up at the banks to one sequence of debits and credits (transfer, transfer_order), to the exact sums when nothing is
  rounded (exact_amounts), and are answered truthfully; each ends after at most 25 steps; and the two races that the
  gateway allows. Strife_Types: amounts stay values of float32 (sys_typed) in all interleavings.

  Client (P3-Strife/client). Strife_Client_Calls: interceptors/ and the request counters. Strife_Client_Queue and
  Strife_Client_Manager: payment/, the offline queue and its goroutines (client_step). Strife_Client_App:
  auth/, ui/ and client.go, the console; Run is a partial function, as its loop need not end.
  Strife_Client_Theorems: what a run over the queue does, and invariants of all interleavings (locale
  queue_invariant). Strife_Client_Gateway: client, network, gateway and banks together.

  MapReduce (P2-MapReduce). MapReduce: server/main.go over a file system, and the job of client/main.go.
  MapReduce_Theorems: what Map writes, Reduce reads; the output files of a word count job and of an inverted index job hold
  exactly the words whose hash has a remainder that is not negative, with their counts or files; two ways in
  which a job goes wrong. MapReduce_Concurrent: the map tasks interleaved, file operation by file operation, leave
  the files of the sequential job; and how worker and master start.

  Load balancer (P1-LoadBalancer). LoadBalancer: lb_server/main.go, server/main.go, client/main.go.
  LoadBalancer_Theorems: the strategies against the registry of the servers' last reports (the hypothesis
  etcd_works states what etcd documents of puts and prefix queries, and holds of an etcd in memory), round
  robin, and the results of the backend servers. LoadBalancer_Programs: the life of a backend server, whose reports are read
  and sent in two steps and follow its tasks, the load test, and the start of the balancer.

  Termination and bounds. All recursive functions are total except Run. fibonacci, digits, bits and
  the retries have measures; the loop of Reduce over intermediate files ends because the file system is finite.
  No function is cut off by fuel.

  Not modelled. The generated protocol buffer and gRPC code, apart from the types of the messages; the MPI
  programs of Assignment1, which are not Go. What libraries do when they load certificates, dial, listen, serve or
  wait: their outcomes are arguments. File formats: a JSON file is the value it decodes to. Measured times and
  the statistics over them. What the Go runtime does when it notices unsynchronised accesses to a map. Log lines other than those of the interceptors and the start of the programs. Simple
  payments at the gateway are one step, and do not take part in the interleavings of Strife_Concurrent; the
  banks' handlers are critical sections and are covered in every order.
  Where the model has more runs than the code (network in Strife_Client_Gateway), its text says so.
\<close>

end
